(* ===== verification/Prelude.thy ===== *)
theory Prelude
  imports Main "HOL-Library.Multiset"
begin

text \<open>
  What every part of the development shares.

  Concurrent programs (threads of one process, a process and its children) are modelled by a
  function \<open>act :: 'a \<Rightarrow> 's \<Rightarrow> 's option\<close>: the actor \<open>'a\<close> is what the scheduler (or the
  environment) picks next, the result is the state after the next statement of that actor, and
  \<open>None\<close> says that the actor is blocked or has ended. \<open>step_of act\<close> is the interleaving
  step relation and \<open>run_sched act\<close> executes a given schedule. Three locales, each extending
  the one before, give the rules every such program uses: an inductive invariant
  (\<open>invariant_system\<close>), a measure that every step decreases (\<open>terminating_system\<close>) and
  progress up to the final states (\<open>live_system\<close>).
\<close>

section \<open>Collections of facts\<close>

named_theorems wp_intros \<open>weakest-precondition rules of the sequential programs\<close>

section \<open>Interleaving\<close>

definition step_of :: "('a \<Rightarrow> 's \<Rightarrow> 's option) \<Rightarrow> 's \<Rightarrow> 's \<Rightarrow> bool" where
  "step_of act s t \<longleftrightarrow> (\<exists>a. act a s = Some t)"

fun run_sched :: "('a \<Rightarrow> 's \<Rightarrow> 's option) \<Rightarrow> 'a list \<Rightarrow> 's \<Rightarrow> 's option" where
  "run_sched act [] s = Some s"
| "run_sched act (a # as) s = (case act a s of None \<Rightarrow> None | Some t \<Rightarrow> run_sched act as t)"

lemma step_ofI [intro]: "act a s = Some t \<Longrightarrow> step_of act s t"
  by (auto simp: step_of_def)

lemma step_ofE [elim?]:
  assumes "step_of act s t"
  obtains a where "act a s = Some t"
  using assms by (auto simp: step_of_def)

lemma run_sched_reach: "run_sched act as s = Some t \<Longrightarrow> (step_of act)\<^sup>*\<^sup>* s t"
proof (induction as arbitrary: s)
  case Nil
  then show ?case by simp
next
  case (Cons a as)
  then obtain u where u: "act a s = Some u" and "run_sched act as u = Some t"
    by (auto split: option.splits)
  with Cons.IH have "(step_of act)\<^sup>*\<^sup>* u t" by blast
  with u show ?case by (blast intro: converse_rtranclp_into_rtranclp)
qed

lemma run_sched_witness:
  "(case run_sched act as s of None \<Rightarrow> False | Some t \<Rightarrow> P t) \<Longrightarrow> \<exists>t. (step_of act)\<^sup>*\<^sup>* s t \<and> P t"
  by (cases "run_sched act as s") (auto dest: run_sched_reach)

lemma run_sched_append:
  "run_sched act (as @ bs) s = (case run_sched act as s of None \<Rightarrow> None | Some t \<Rightarrow> run_sched act bs t)"
  by (induction as arbitrary: s) (auto split: option.splits)

text \<open>
  A run of a part of a program, embedded by \<open>f\<close> in the whole, when the whole can follow each step between states that
  satisfy \<open>Q\<close>, a condition no step can restore.
\<close>

lemma lift_run:
  assumes "r\<^sup>*\<^sup>* x y" and "Q y" and "\<And>x y. r x y \<Longrightarrow> Q y \<Longrightarrow> Q x" and "\<And>x y. r x y \<Longrightarrow> Q x \<Longrightarrow> R (f x) (f y)"
  shows "R\<^sup>*\<^sup>* (f x) (f y)"
  using assms(1,2)
proof (induction rule: rtranclp_induct)
  case (step y z)
  with assms(3,4) show ?case by (metis rtranclp.rtrancl_into_rtrancl)
qed simp

lemma reach_act: "(step_of act)\<^sup>*\<^sup>* s0 s \<Longrightarrow> act a s = Some t \<Longrightarrow> (step_of act)\<^sup>*\<^sup>* s0 t"
  by (auto intro: rtranclp.rtrancl_into_rtrancl)

text \<open>Every reachable state is reached by some schedule.\<close>

lemma reach_run_sched: "(step_of act)\<^sup>*\<^sup>* s t \<Longrightarrow> \<exists>as. run_sched act as s = Some t"
proof (induction rule: rtranclp_induct)
  case base
  show ?case by (rule exI [of _ "[]"]) simp
next
  case (step t u)
  then obtain as a where "run_sched act as s = Some t" "act a t = Some u"
    by (auto elim: step_ofE)
  then have "run_sched act (as @ [a]) s = Some u" by (simp add: run_sched_append)
  then show ?case by blast
qed

section \<open>Invariants, termination and progress\<close>

locale invariant_system =
  fixes step :: "'s \<Rightarrow> 's \<Rightarrow> bool" and s0 :: 's and I :: "'s \<Rightarrow> bool"
  assumes init_inv: "I s0"
    and step_inv: "I s \<Longrightarrow> step s t \<Longrightarrow> I t"
begin

lemma reach_inv: "step\<^sup>*\<^sup>* s0 s \<Longrightarrow> I s"
  by (induction rule: rtranclp_induct) (auto intro: init_inv step_inv)

lemma inv_reach: "step\<^sup>*\<^sup>* s t \<Longrightarrow> I s \<Longrightarrow> I t"
  by (induction rule: rtranclp_induct) (auto intro: step_inv)

end

locale terminating_system = invariant_system step s0 I
  for step :: "'s \<Rightarrow> 's \<Rightarrow> bool" and s0 and I +
  fixes mu :: "'s \<Rightarrow> nat"
  assumes decreases: "I s \<Longrightarrow> step s t \<Longrightarrow> mu t < mu s"
begin

lemma run_length: "(step ^^ n) s t \<Longrightarrow> I s \<Longrightarrow> n + mu t \<le> mu s"
proof (induction n arbitrary: t)
  case 0
  then show ?case by simp
next
  case (Suc n)
  then obtain u where u: "(step ^^ n) s u" "step u t" by auto
  then have "I u" using Suc.prems(2) by (auto dest: relpowp_imp_rtranclp intro: inv_reach)
  with u Suc.IH [OF u(1) Suc.prems(2)] decreases [of u t] show ?case by simp
qed

text \<open>No execution is longer than the measure of the start state.\<close>

lemma bounded_runs: "(step ^^ n) s0 t \<Longrightarrow> n \<le> mu s0"
  using run_length init_inv by fastforce

end

locale live_system = terminating_system step s0 I mu
  for step :: "'s \<Rightarrow> 's \<Rightarrow> bool" and s0 and I and mu +
  fixes final :: "'s \<Rightarrow> bool"
  assumes progress: "I s \<Longrightarrow> \<not> final s \<Longrightarrow> \<exists>t. step s t"
begin

lemma final_from_inv: "I s \<Longrightarrow> \<exists>t. step\<^sup>*\<^sup>* s t \<and> final t"
proof (induction "mu s" arbitrary: s rule: less_induct)
  case less
  show ?case
  proof (cases "final s")
    case True
    then show ?thesis by blast
  next
    case False
    with less.prems progress obtain t where t: "step s t" by blast
    with less.prems have "I t" "mu t < mu s" by (auto intro: step_inv decreases)
    with less.hyps obtain u where "step\<^sup>*\<^sup>* t u" "final u" by blast
    with t show ?thesis by (blast intro: converse_rtranclp_into_rtranclp)
  qed
qed

lemma eventually_final: "step\<^sup>*\<^sup>* s0 s \<Longrightarrow> \<exists>t. step\<^sup>*\<^sup>* s t \<and> final t"
  using final_from_inv reach_inv by blast

lemma stuck_is_final: "step\<^sup>*\<^sup>* s0 s \<Longrightarrow> \<nexists>t. step s t \<Longrightarrow> final s"
  using progress reach_inv by blast

end

section \<open>Shared lemmas\<close>

lemma sum_list_update_less:
  "j < length xs \<Longrightarrow> (f y :: nat) < f (xs ! j) \<Longrightarrow> sum_list (map f (xs[j := y])) < sum_list (map f xs)"
  by (induction xs arbitrary: j) (auto split: nat.splits)

lemma sorted_wrt_less_bounded_list:
  assumes "sorted_wrt (<) xs" and "\<forall>x \<in> set xs. x < n" and "length xs = n"
  shows "xs = [0..<n]"
proof -
  from assms(1) have "distinct xs" and "sorted xs"
    by (auto simp: strict_sorted_iff)
  moreover from this assms(2,3) have "set xs = {0..<n}"
    by (intro card_subset_eq) (auto simp: distinct_card)
  ultimately show ?thesis
    by (intro sorted_distinct_set_unique) auto
qed

lemma sorted_int_list_complete:
  assumes "sorted_wrt (<) xs" and "\<forall>x \<in> set xs. 0 \<le> x \<and> x < int n" and "length xs = n"
  shows "xs = map int [0..<n]"
proof -
  have "map nat xs = [0..<n]"
  proof (rule sorted_wrt_less_bounded_list)
    show "sorted_wrt (<) (map nat xs)"
      unfolding sorted_wrt_map
      using assms(2) by (intro sorted_wrt_mono_rel [OF _ assms(1)]) force
  qed (use assms in auto)
  then have "map int [0..<n] = map int (map nat xs)" by simp
  also have "\<dots> = xs" using assms(2) by (simp add: map_idI)
  finally show ?thesis by simp
qed

end
