(* ===== verification/C_Library.thy ===== *)
theory C_Library
  imports Prelude
begin

text \<open>
  The parts of the C standard library that are pure functions and that the example programs
  use: the conversions of \<^verbatim>\<open>printf\<close> (\<^verbatim>\<open>%d\<close>, \<^verbatim>\<open>%ld\<close>, \<^verbatim>\<open>%lu\<close>, \<^verbatim>\<open>%o\<close>, \<^verbatim>\<open>%p\<close>, field widths),
  \<^verbatim>\<open>atoi\<close>, the division of C, and NUL-terminated strings in byte arrays (\<^verbatim>\<open>strlen\<close>,
  \<^verbatim>\<open>strcpy\<close>). Bytes are characters; a byte array is a list of characters, and an
  access out of its bounds is a value of its own, never an arbitrary element.
\<close>

section \<open>Conversions of printf\<close>

definition digit :: "nat \<Rightarrow> char" where
  "digit d = (if d < 10 then char_of (48 + d) else char_of (87 + d))"

fun show_base :: "nat \<Rightarrow> nat \<Rightarrow> string" where
  "show_base b n = (if b < 2 \<or> n < b then [digit n] else show_base b (n div b) @ [digit (n mod b)])"

declare show_base.simps [simp del]

definition show_nat :: "nat \<Rightarrow> string" where
  "show_nat n = show_base 10 n"

definition show_int :: "int \<Rightarrow> string" where
  "show_int i = (if i < 0 then ''-'' @ show_nat (nat (- i)) else show_nat (nat i))"

definition show_oct :: "nat \<Rightarrow> string" where
  "show_oct n = show_base 8 n"

definition show_ptr :: "nat \<Rightarrow> string" where
  "show_ptr n = (if n = 0 then ''(nil)'' else ''0x'' @ show_base 16 n)"

text \<open>\<^verbatim>\<open>%-15lu\<close> and \<^verbatim>\<open>%-25s\<close> pad on the right, \<^verbatim>\<open>%06ld\<close> pads a number with zeros.\<close>

definition pad_right :: "nat \<Rightarrow> string \<Rightarrow> string" where
  "pad_right w s = s @ replicate (w - length s) CHR '' ''"

definition zero_pad :: "nat \<Rightarrow> int \<Rightarrow> string" where
  "zero_pad w i =
     (if i < 0 then ''-'' @ replicate (w - 1 - length (show_nat (nat (- i)))) CHR ''0'' @ show_nat (nat (- i))
      else replicate (w - length (show_nat (nat i))) CHR ''0'' @ show_nat (nat i))"

lemma digit_eval:
  "digit 0 = CHR ''0''"
  "digit (Suc 0) = CHR ''1''"
  "digit 2 = CHR ''2''"
  "digit 3 = CHR ''3''"
  "digit 4 = CHR ''4''"
  "digit 5 = CHR ''5''"
  "digit 6 = CHR ''6''"
  "digit 7 = CHR ''7''"
  "digit 8 = CHR ''8''"
  "digit 9 = CHR ''9''"
  "digit 10 = CHR ''a''"
  "digit 11 = CHR ''b''"
  "digit 12 = CHR ''c''"
  "digit 13 = CHR ''d''"
  "digit 14 = CHR ''e''"
  "digit 15 = CHR ''f''"
  by code_simp+

lemmas show_eval = show_int_def show_nat_def show_oct_def show_ptr_def show_base.simps digit_eval

lemma show_base_nonempty [simp]: "show_base b n \<noteq> []"
  by (subst show_base.simps) simp

lemma show_nat_nonempty [simp]: "show_nat n \<noteq> []"
  by (simp add: show_nat_def)

lemma show_int_nonempty [simp]: "show_int i \<noteq> []"
  by (simp add: show_int_def)

section \<open>Reading a number: atoi\<close>

definition is_digit :: "char \<Rightarrow> bool" where
  "is_digit c \<longleftrightarrow> 48 \<le> (of_char c :: nat) \<and> (of_char c :: nat) \<le> 57"

definition is_space :: "char \<Rightarrow> bool" where
  "is_space c \<longleftrightarrow> c = CHR '' '' \<or> (9 \<le> (of_char c :: nat) \<and> (of_char c :: nat) \<le> 13)"

definition digits_value :: "string \<Rightarrow> int" where
  "digits_value s = foldl (\<lambda>acc c. 10 * acc + (of_char c - 48)) 0 s"

text \<open>
  \<^verbatim>\<open>atoi\<close> skips white space, takes an optional sign and the digits that follow, and gives 0
  when there is none. A value that does not fit an \<^verbatim>\<open>int\<close> is undefined behaviour in C,
  which the callers check with \<open>int_range\<close>.
\<close>

definition atoi :: "string \<Rightarrow> int" where
  "atoi s =
     (let t = dropWhile is_space s
      in case t of
           [] \<Rightarrow> 0
         | c # u \<Rightarrow>
             if c = CHR ''-'' then - digits_value (takeWhile is_digit u)
             else if c = CHR ''+'' then digits_value (takeWhile is_digit u)
             else digits_value (takeWhile is_digit t))"

definition int_range :: "int \<Rightarrow> bool" where
  "int_range i \<longleftrightarrow> - (2 ^ 31) \<le> i \<and> i < 2 ^ 31"

definition long_range :: "int \<Rightarrow> bool" where
  "long_range i \<longleftrightarrow> - (2 ^ 63) \<le> i \<and> i < 2 ^ 63"

lemma of_char_digit: "d < 10 \<Longrightarrow> (of_char (digit d) :: nat) = 48 + d"
  by (simp add: digit_def)

lemma is_digit_digit: "d < 10 \<Longrightarrow> is_digit (digit d)"
  by (simp add: is_digit_def of_char_digit)

lemma of_char_digit_int: "d < 10 \<Longrightarrow> (of_char (digit d) :: int) = 48 + int d"
proof -
  assume "d < 10"
  then have "int (of_char (digit d)) = 48 + int d" by (simp only: of_char_digit of_nat_add of_nat_numeral)
  then show ?thesis by (simp only: of_nat_of_char)
qed

lemma show_nat_digits: "list_all is_digit (show_nat n)"
proof -
  have "list_all is_digit (show_base 10 n)"
  proof (induction n rule: less_induct)
    case (less n)
    show ?case
      using less.IH [of "n div 10"]
      by (subst show_base.simps) (auto simp: is_digit_digit)
  qed
  then show ?thesis by (simp add: show_nat_def)
qed

lemma digits_value_snoc: "digits_value (s @ [c]) = 10 * digits_value s + (of_char c - 48)"
  by (simp add: digits_value_def)

lemma digits_value_show_nat: "digits_value (show_nat n) = int n"
proof -
  have "digits_value (show_base 10 n) = int n"
  proof (induction n rule: less_induct)
    case (less n)
    show ?case
    proof (cases "n < 10")
      case True
      then show ?thesis
        by (subst show_base.simps) (simp add: digits_value_def of_char_digit_int)
    next
      case False
      then have "digits_value (show_base 10 (n div 10)) = int (n div 10)"
        by (intro less.IH) simp
      with False show ?thesis
        by (subst show_base.simps)
          (simp add: digits_value_snoc of_char_digit_int zdiv_int zmod_int mult_div_mod_eq)
    qed
  qed
  then show ?thesis by (simp add: show_nat_def)
qed

lemma digit_not_space: "is_digit c \<Longrightarrow> \<not> is_space c"
  by (auto simp: is_digit_def is_space_def)

lemma digit_not_sign: "is_digit c \<Longrightarrow> c \<noteq> CHR ''-'' \<and> c \<noteq> CHR ''+''"
  by (auto simp: is_digit_def)

text \<open>Reading a printed natural number gives it back.\<close>

lemma atoi_show_nat: "atoi (show_nat n) = int n"
proof -
  obtain c u where cu: "show_nat n = c # u"
    by (metis neq_Nil_conv show_nat_nonempty)
  with show_nat_digits [of n] have c: "is_digit c" by simp
  have "takeWhile is_digit (show_nat n) = show_nat n"
    using show_nat_digits [of n] by (simp add: takeWhile_eq_all_conv list_all_iff)
  moreover have "dropWhile is_space (show_nat n) = show_nat n"
    using c by (simp add: cu digit_not_space)
  ultimately show ?thesis
    using digits_value_show_nat [of n] digit_not_sign [OF c] by (simp add: atoi_def cu Let_def)
qed

section \<open>Division\<close>

text \<open>C divides towards zero.\<close>

definition c_div :: "int \<Rightarrow> int \<Rightarrow> int" where
  "c_div a b = sgn a * sgn b * (\<bar>a\<bar> div \<bar>b\<bar>)"

lemma c_div_nonneg: "0 \<le> a \<Longrightarrow> 0 < b \<Longrightarrow> c_div a b = a div b"
  by (cases "a = 0") (auto simp: c_div_def)

section \<open>Strings in byte arrays\<close>

definition NUL :: char where
  "NUL = CHR 0x00"

text \<open>The C string at the start of an array: the bytes before the first NUL; \<open>None\<close> when there is none.\<close>

definition c_string :: "string \<Rightarrow> string option" where
  "c_string a = (if NUL \<in> set a then Some (takeWhile (\<lambda>c. c \<noteq> NUL) a) else None)"

text \<open>A store \<^verbatim>\<open>a[i] = c\<close>: \<open>None\<close> out of bounds.\<close>

definition store :: "string \<Rightarrow> int \<Rightarrow> char \<Rightarrow> string option" where
  "store a i c = (if 0 \<le> i \<and> i < int (length a) then Some (a[nat i := c]) else None)"

text \<open>A copy of the bytes \<open>s\<close> to the start of an array: \<open>None\<close> when they do not fit.\<close>

definition memcpy :: "string \<Rightarrow> string \<Rightarrow> string option" where
  "memcpy a s = (if length s \<le> length a then Some (s @ drop (length s) a) else None)"

text \<open>\<^verbatim>\<open>strcpy\<close> copies the terminating NUL too.\<close>

definition strcpy :: "string \<Rightarrow> string \<Rightarrow> string option" where
  "strcpy a s = memcpy a (s @ [NUL])"

lemma c_string_terminated: "NUL \<notin> set s \<Longrightarrow> c_string (s @ NUL # a) = Some s"
  by (auto simp: c_string_def takeWhile_tail)

lemma c_string_update: "n < length a \<Longrightarrow> c_string (a[n := NUL]) \<noteq> None"
  by (simp add: c_string_def set_update_memI)

lemma strcpy_c_string:
  "strcpy a s = Some b \<Longrightarrow> NUL \<notin> set s \<Longrightarrow> c_string b = Some s"
  by (auto simp: strcpy_def memcpy_def c_string_terminated split: if_splits)

lemma strcpy_length: "strcpy a s = Some b \<Longrightarrow> length b = length a"
  by (auto simp: strcpy_def memcpy_def split: if_splits)

lemma strcpy_fits: "length s < length a \<Longrightarrow> \<exists>b. strcpy a s = Some b"
  by (simp add: strcpy_def memcpy_def)

lemma store_Some_iff: "store a i c = Some b \<longleftrightarrow> 0 \<le> i \<and> i < int (length a) \<and> b = a[nat i := c]"
  by (auto simp: store_def)

lemma store_terminates:
  assumes "NUL \<notin> set s" and "length s < length a"
  shows "store (s @ drop (length s) a) (int (length s)) NUL = Some (s @ NUL # drop (Suc (length s)) a)"
proof -
  from assms(2) have "drop (length s) a = a ! length s # drop (Suc (length s)) a"
    by (simp add: Cons_nth_drop_Suc)
  with assms(2) show ?thesis
    by (simp add: store_def list_update_append)
qed

end
