(* ===== verification/Threads_Mutex.thy ===== *)
theory Threads_Mutex
  imports C_Library
begin

text \<open>
  \<^verbatim>\<open>examples/threads_demo.c\<close>, the mutex part: \<open>mutex_thread\<close> and \<open>demo_mutex\<close> over the
  global \<^verbatim>\<open>mutex\<close> and \<^verbatim>\<open>counter\<close>. Each thread is a program counter with its loop index and
  the temporary of \<^verbatim>\<open>counter++\<close>, which is a load and a store; the main thread runs
  \<open>demo_mutex\<close>. The scheduler interleaves the three statement by statement.
\<close>

section \<open>The mutex interface\<close>

text \<open>
  A mutex is its owner. Locking is possible when it is free (otherwise the caller blocks:
  \<open>None\<close>), unlocking is for the owner (otherwise the behaviour is undefined: \<open>None\<close>).
\<close>

definition pthread_mutex_lock :: "'t \<Rightarrow> 't option \<Rightarrow> 't option option" where
  "pthread_mutex_lock t ow = (case ow of None \<Rightarrow> Some (Some t) | Some _ \<Rightarrow> None)"

definition pthread_mutex_unlock :: "'t \<Rightarrow> 't option \<Rightarrow> 't option option" where
  "pthread_mutex_unlock t ow = (if ow = Some t then Some None else None)"

text \<open>
  What a program that takes the mutex around its critical sections gets: the holder is the one
  thread inside. \<open>crit t s\<close> says that \<open>t\<close> is between its lock and its unlock.
\<close>

locale lock_protected = invariant_system step s0 I
  for step :: "'s \<Rightarrow> 's \<Rightarrow> bool" and s0 and I +
  fixes owner :: "'s \<Rightarrow> 't option" and crit :: "'t \<Rightarrow> 's \<Rightarrow> bool"
  assumes crit_owner: "I s \<Longrightarrow> crit t s \<longleftrightarrow> owner s = Some t"
begin

lemma mutual_exclusion: "step\<^sup>*\<^sup>* s0 s \<Longrightarrow> crit t s \<Longrightarrow> crit u s \<Longrightarrow> t = u"
  by (auto dest!: reach_inv simp: crit_owner)

lemma free_outside: "step\<^sup>*\<^sup>* s0 s \<Longrightarrow> owner s = None \<Longrightarrow> \<not> crit t s"
  by (auto dest!: reach_inv simp: crit_owner)

lemma unlock_defined: "step\<^sup>*\<^sup>* s0 s \<Longrightarrow> crit t s \<Longrightarrow> pthread_mutex_unlock t (owner s) = Some None"
  by (auto dest!: reach_inv simp: crit_owner pthread_mutex_unlock_def)

end

section \<open>The program\<close>

datatype tid = T1 | T2

text \<open>
  The statements of \<open>mutex_thread\<close>; \<open>M_Unborn\<close> before \<^verbatim>\<open>pthread_create\<close>, \<open>M_Done\<close> after the
  return.
\<close>

datatype mpc = M_Unborn | M_Loop | M_Lock | M_Load | M_Store | M_Unlock | M_Done

record mthread =
  m_pc :: mpc
  m_i :: nat
  m_tmp :: int

text \<open>The statements of \<open>demo_mutex\<close>.\<close>

datatype dpc = D_Zero | D_Print | D_Create1 | D_Create2 | D_Join1 | D_Join2 | D_Final | D_Done | D_UB

record mstate =
  m_counter :: int
  m_owner :: "tid option"
  m_thr :: "tid \<Rightarrow> mthread"
  m_created :: "tid \<Rightarrow> bool"
  m_main :: dpc
  m_out :: "string list"

definition mutex_iters :: nat where
  "mutex_iters = 10000"

definition set_thr :: "tid \<Rightarrow> mthread \<Rightarrow> mstate \<Rightarrow> mstate" where
  "set_thr t l s = s\<lparr>m_thr := (m_thr s)(t := l)\<rparr>"

text \<open>One statement of \<open>mutex_thread\<close> (lines 31 to 36).\<close>

definition mutex_thread :: "tid \<Rightarrow> mstate \<Rightarrow> mstate option" where
  "mutex_thread t s =
     (let l = m_thr s t in
      case m_pc l of
        M_Unborn \<Rightarrow> None
      | M_Loop \<Rightarrow> Some (set_thr t (l\<lparr>m_pc := (if m_i l < mutex_iters then M_Lock else M_Done)\<rparr>) s)
      | M_Lock \<Rightarrow>
          map_option (\<lambda>ow. set_thr t (l\<lparr>m_pc := M_Load\<rparr>) (s\<lparr>m_owner := ow\<rparr>))
            (pthread_mutex_lock t (m_owner s))
      | M_Load \<Rightarrow> Some (set_thr t (l\<lparr>m_pc := M_Store, m_tmp := m_counter s\<rparr>) s)
      | M_Store \<Rightarrow> Some (set_thr t (l\<lparr>m_pc := M_Unlock\<rparr>) (s\<lparr>m_counter := m_tmp l + 1\<rparr>))
      | M_Unlock \<Rightarrow>
          map_option (\<lambda>ow. set_thr t (l\<lparr>m_pc := M_Loop, m_i := Suc (m_i l)\<rparr>) (s\<lparr>m_owner := ow\<rparr>))
            (pthread_mutex_unlock t (m_owner s))
      | M_Done \<Rightarrow> None)"

text \<open>\<^verbatim>\<open>pthread_create\<close>, whose result the program ignores: \<open>ok\<close> is whether it made the thread.\<close>

definition create_mutex_thread :: "bool \<Rightarrow> tid \<Rightarrow> mstate \<Rightarrow> mstate" where
  "create_mutex_thread ok t s =
     (if ok then set_thr t \<lparr>m_pc = M_Loop, m_i = 0, m_tmp = 0\<rparr> (s\<lparr>m_created := (m_created s)(t := True)\<rparr>)
      else s)"

text \<open>
  \<^verbatim>\<open>pthread_join\<close> blocks until the thread has returned. Joining a thread that was never made
  reads an uninitialised \<^verbatim>\<open>pthread_t\<close>: undefined behaviour.
\<close>

definition join_mutex_thread :: "tid \<Rightarrow> dpc \<Rightarrow> mstate \<Rightarrow> mstate option" where
  "join_mutex_thread t nxt s =
     (if \<not> m_created s t then Some (s\<lparr>m_main := D_UB\<rparr>)
      else if m_pc (m_thr s t) = M_Done then Some (s\<lparr>m_main := nxt\<rparr>) else None)"

text \<open>One statement of \<open>demo_mutex\<close> (lines 98 to 108).\<close>

definition demo_mutex :: "bool \<Rightarrow> mstate \<Rightarrow> mstate option" where
  "demo_mutex ok s =
     (case m_main s of
        D_Zero \<Rightarrow> Some (s\<lparr>m_counter := 0, m_main := D_Print\<rparr>)
      | D_Print \<Rightarrow>
          Some (s\<lparr>m_out := m_out s @ [''[Main] Initial counter: '' @ show_int (m_counter s) @ ''\<newline>''],
                  m_main := D_Create1\<rparr>)
      | D_Create1 \<Rightarrow> Some ((create_mutex_thread ok T1 s)\<lparr>m_main := D_Create2\<rparr>)
      | D_Create2 \<Rightarrow> Some ((create_mutex_thread ok T2 s)\<lparr>m_main := D_Join1\<rparr>)
      | D_Join1 \<Rightarrow> join_mutex_thread T1 D_Join2 s
      | D_Join2 \<Rightarrow> join_mutex_thread T2 D_Final s
      | D_Final \<Rightarrow>
          Some (s\<lparr>m_out := m_out s @
                    [''[Main] Final counter: '' @ show_int (m_counter s) @ '' (expected: 20000)\<newline>''],
                  m_main := D_Done\<rparr>)
      | D_Done \<Rightarrow> None
      | D_UB \<Rightarrow> None)"

text \<open>What the scheduler picks: the main thread (with the outcome of a creation) or a worker.\<close>

datatype mactor = M_Main bool | M_Thr tid

fun mutex_act :: "mactor \<Rightarrow> mstate \<Rightarrow> mstate option" where
  "mutex_act (M_Main ok) s = demo_mutex ok s"
| "mutex_act (M_Thr t) s = mutex_thread t s"

definition mutex_start :: "int \<Rightarrow> mstate" where
  "mutex_start c =
     \<lparr>m_counter = c, m_owner = None, m_thr = (\<lambda>_. \<lparr>m_pc = M_Unborn, m_i = 0, m_tmp = 0\<rparr>),
      m_created = (\<lambda>_. False), m_main = D_Zero, m_out = [''\<newline>=== Mutex Demo ===\<newline>'']\<rparr>"

abbreviation mutex_step :: "mstate \<Rightarrow> mstate \<Rightarrow> bool" where
  "mutex_step \<equiv> step_of mutex_act"

section \<open>The invariant\<close>

definition in_section :: "mpc \<Rightarrow> bool" where
  "in_section p \<longleftrightarrow> p \<in> {M_Load, M_Store, M_Unlock}"

text \<open>How many increments a thread has stored.\<close>

definition stored :: "mthread \<Rightarrow> nat" where
  "stored l = (if m_pc l = M_Unlock then Suc (m_i l) else m_i l)"

definition thread_ok :: "mstate \<Rightarrow> tid \<Rightarrow> bool" where
  "thread_ok s t \<longleftrightarrow>
     (let l = m_thr s t in
      (in_section (m_pc l) \<longleftrightarrow> m_owner s = Some t) \<and>
      (m_pc l = M_Store \<longrightarrow> m_tmp l = m_counter s) \<and>
      (m_pc l = M_Unborn \<longrightarrow> m_i l = 0) \<and>
      (m_pc l \<in> {M_Lock, M_Load, M_Store, M_Unlock} \<longrightarrow> m_i l < mutex_iters) \<and>
      (m_pc l = M_Done \<longrightarrow> m_i l = mutex_iters) \<and> m_i l \<le> mutex_iters \<and>
      (m_created s t \<longleftrightarrow> m_pc l \<noteq> M_Unborn))"

text \<open>What the program counter of \<open>demo_mutex\<close> says about the threads.\<close>

definition main_ok :: "mstate \<Rightarrow> bool" where
  "main_ok s \<longleftrightarrow>
     (case m_main s of
        D_Zero \<Rightarrow> \<not> m_created s T1 \<and> \<not> m_created s T2
      | D_Print \<Rightarrow> \<not> m_created s T1 \<and> \<not> m_created s T2
      | D_Create1 \<Rightarrow> \<not> m_created s T1 \<and> \<not> m_created s T2
      | D_Create2 \<Rightarrow> \<not> m_created s T2
      | D_Join1 \<Rightarrow> True
      | D_Join2 \<Rightarrow> m_pc (m_thr s T1) = M_Done
      | D_Final \<Rightarrow> m_pc (m_thr s T1) = M_Done \<and> m_pc (m_thr s T2) = M_Done
      | D_Done \<Rightarrow>
          m_pc (m_thr s T1) = M_Done \<and> m_pc (m_thr s T2) = M_Done \<and>
          last (m_out s) = ''[Main] Final counter: '' @ show_int (m_counter s) @ '' (expected: 20000)\<newline>''
      | D_UB \<Rightarrow> \<not> m_created s T1 \<or> \<not> m_created s T2)"

definition mutex_inv :: "mstate \<Rightarrow> bool" where
  "mutex_inv s \<longleftrightarrow>
     thread_ok s T1 \<and> thread_ok s T2 \<and> main_ok s \<and>
     (m_main s \<noteq> D_Zero \<longrightarrow> m_counter s = int (stored (m_thr s T1)) + int (stored (m_thr s T2)))"

text \<open>What a thread still has to do, used as its part of the termination measure.\<close>

fun mpc_left :: "mpc \<Rightarrow> nat" where
  "mpc_left M_Unborn = 7"
| "mpc_left M_Loop = 6"
| "mpc_left M_Lock = 5"
| "mpc_left M_Load = 4"
| "mpc_left M_Store = 3"
| "mpc_left M_Unlock = 2"
| "mpc_left M_Done = 0"

definition thread_left :: "mthread \<Rightarrow> nat" where
  "thread_left l = 5 * (mutex_iters - m_i l) + mpc_left (m_pc l)"

lemmas mutex_defs =
  mutex_thread_def demo_mutex_def create_mutex_thread_def join_mutex_thread_def set_thr_def
  pthread_mutex_lock_def pthread_mutex_unlock_def Let_def

lemmas mutex_inv_defs = mutex_inv_def thread_ok_def main_ok_def in_section_def stored_def

text \<open>The cases of one statement of a thread, each with the state it leads to.\<close>

lemma mutex_thread_cases [consumes 1, case_names Exit Enter Lock Load Store Unlock]:
  assumes "mutex_thread t s = Some s'"
  obtains "m_pc (m_thr s t) = M_Loop" "\<not> m_i (m_thr s t) < mutex_iters"
      "s' = s\<lparr>m_thr := (m_thr s)(t := (m_thr s t)\<lparr>m_pc := M_Done\<rparr>)\<rparr>"
  | "m_pc (m_thr s t) = M_Loop" "m_i (m_thr s t) < mutex_iters"
      "s' = s\<lparr>m_thr := (m_thr s)(t := (m_thr s t)\<lparr>m_pc := M_Lock\<rparr>)\<rparr>"
  | "m_pc (m_thr s t) = M_Lock" "m_owner s = None"
      "s' = s\<lparr>m_owner := Some t, m_thr := (m_thr s)(t := (m_thr s t)\<lparr>m_pc := M_Load\<rparr>)\<rparr>"
  | "m_pc (m_thr s t) = M_Load"
      "s' = s\<lparr>m_thr := (m_thr s)(t := (m_thr s t)\<lparr>m_pc := M_Store, m_tmp := m_counter s\<rparr>)\<rparr>"
  | "m_pc (m_thr s t) = M_Store"
      "s' = s\<lparr>m_counter := m_tmp (m_thr s t) + 1, m_thr := (m_thr s)(t := (m_thr s t)\<lparr>m_pc := M_Unlock\<rparr>)\<rparr>"
  | "m_pc (m_thr s t) = M_Unlock" "m_owner s = Some t"
      "s' = s\<lparr>m_owner := None,
             m_thr := (m_thr s)(t := (m_thr s t)\<lparr>m_pc := M_Loop, m_i := Suc (m_i (m_thr s t))\<rparr>)\<rparr>"
proof (cases "m_pc (m_thr s t)")
  case M_Loop
  with assms that(1,2) show ?thesis by (simp add: mutex_defs split: if_splits)
next
  case M_Lock
  with assms that(3) show ?thesis by (auto simp: mutex_defs split: option.splits)
next
  case M_Load
  with assms that(4) show ?thesis by (simp add: mutex_defs)
next
  case M_Store
  with assms that(5) show ?thesis by (simp add: mutex_defs)
next
  case M_Unlock
  with assms that(6) show ?thesis by (auto simp: mutex_defs split: if_splits)
qed (use assms in \<open>simp_all add: mutex_thread_def Let_def\<close>)

lemma thread_okI: "mutex_inv s \<Longrightarrow> thread_ok s t"
  by (cases t) (simp_all add: mutex_inv_def)

lemma thread_ok_self:
  assumes "thread_ok s t" and "mutex_thread t s = Some s'"
  shows "thread_ok s' t"
  using assms(2,1) by (cases rule: mutex_thread_cases) (simp_all add: thread_ok_def in_section_def Let_def)

lemma thread_ok_other:
  assumes "thread_ok s u" and "thread_ok s t" and "mutex_thread t s = Some s'" and "u \<noteq> t"
  shows "thread_ok s' u"
  using assms(3,1,2,4)
  by (cases rule: mutex_thread_cases) (auto simp: thread_ok_def in_section_def Let_def)

lemma main_ok_thread:
  assumes "main_ok s" and "mutex_thread t s = Some s'"
  shows "main_ok s'"
  using assms(2,1) by (cases rule: mutex_thread_cases; cases t) (auto simp: main_ok_def split: dpc.splits)

text \<open>A statement of thread \<open>t\<close> adds to the counter what it adds to its own increments.\<close>

lemma stored_counter:
  assumes "thread_ok s t" and "mutex_thread t s = Some s'"
  shows "m_counter s' - int (stored (m_thr s' t)) = m_counter s - int (stored (m_thr s t))"
    and "u \<noteq> t \<Longrightarrow> m_thr s' u = m_thr s u" and "m_main s' = m_main s"
  using assms(2,1) by (cases rule: mutex_thread_cases; simp add: thread_ok_def stored_def Let_def)+

lemma mutex_thread_inv:
  assumes "mutex_inv s" and step: "mutex_thread t s = Some s'"
  shows "mutex_inv s'"
proof -
  from assms(1) have ok: "thread_ok s u" for u by (rule thread_okI)
  then have "thread_ok s' u" for u
    using step by (cases "u = t") (auto intro: thread_ok_self thread_ok_other)
  moreover have "main_ok s'" using assms by (auto simp: mutex_inv_def intro: main_ok_thread)
  moreover note stored_counter [OF ok step]
  ultimately show ?thesis
    using assms(1) by (cases t) (fastforce simp: mutex_inv_def)+
qed

text \<open>The cases of one statement of \<open>demo_mutex\<close>.\<close>

lemma demo_mutex_cases [consumes 1, case_names Zero Print Create1 Create2 Uncreated Join1 Join2 Final]:
  assumes "demo_mutex ok s = Some s'"
  obtains "m_main s = D_Zero" "s' = s\<lparr>m_counter := 0, m_main := D_Print\<rparr>"
  | "m_main s = D_Print"
      "s' = s\<lparr>m_out := m_out s @ [''[Main] Initial counter: '' @ show_int (m_counter s) @ ''\<newline>''],
             m_main := D_Create1\<rparr>"
  | "m_main s = D_Create1" "s' = (create_mutex_thread ok T1 s)\<lparr>m_main := D_Create2\<rparr>"
  | "m_main s = D_Create2" "s' = (create_mutex_thread ok T2 s)\<lparr>m_main := D_Join1\<rparr>"
  | "m_main s \<in> {D_Join1, D_Join2}" "\<not> m_created s T1 \<or> \<not> m_created s T2" "s' = s\<lparr>m_main := D_UB\<rparr>"
  | "m_main s = D_Join1" "m_pc (m_thr s T1) = M_Done" "s' = s\<lparr>m_main := D_Join2\<rparr>"
  | "m_main s = D_Join2" "m_pc (m_thr s T2) = M_Done" "s' = s\<lparr>m_main := D_Final\<rparr>"
  | "m_main s = D_Final"
      "s' = s\<lparr>m_out := m_out s @
               [''[Main] Final counter: '' @ show_int (m_counter s) @ '' (expected: 20000)\<newline>''],
             m_main := D_Done\<rparr>"
proof (cases "m_main s")
  case D_Zero
  with assms that(1) show ?thesis by (simp add: demo_mutex_def)
next
  case D_Print
  with assms that(2) show ?thesis by (simp add: demo_mutex_def)
next
  case D_Create1
  with assms that(3) show ?thesis by (simp add: demo_mutex_def)
next
  case D_Create2
  with assms that(4) show ?thesis by (simp add: demo_mutex_def)
next
  case D_Join1
  with assms that(5,6) show ?thesis by (simp add: demo_mutex_def join_mutex_thread_def split: if_splits)
next
  case D_Join2
  with assms that(5,7) show ?thesis by (simp add: demo_mutex_def join_mutex_thread_def split: if_splits)
next
  case D_Final
  with assms that(8) show ?thesis by (simp add: demo_mutex_def)
qed (use assms in \<open>simp_all add: demo_mutex_def\<close>)

text \<open>A thread that was not created yet is idle, so creating it keeps the invariant.\<close>

lemma uncreated_thread:
  assumes "thread_ok s t" and "\<not> m_created s t"
  shows "m_pc (m_thr s t) = M_Unborn" and "m_i (m_thr s t) = 0" and "m_owner s \<noteq> Some t"
  using assms by (auto simp: thread_ok_def in_section_def Let_def)

lemma create_thread_ok:
  assumes "\<And>u. thread_ok s u" and "\<not> m_created s t"
  shows "thread_ok (create_mutex_thread ok t s) u"
    and "stored (m_thr (create_mutex_thread ok t s) u) = stored (m_thr s u)"
    and "thread_left (m_thr (create_mutex_thread ok t s) u) \<le> thread_left (m_thr s u)"
  using assms(1) [of u] uncreated_thread [OF assms]
  by (cases "u = t";
      simp add: create_mutex_thread_def set_thr_def thread_ok_def in_section_def stored_def thread_left_def Let_def)+

lemma create_thread_frame [simp]:
  "m_counter (create_mutex_thread ok t s) = m_counter s" "m_main (create_mutex_thread ok t s) = m_main s"
  "u \<noteq> t \<Longrightarrow> m_created (create_mutex_thread ok t s) u = m_created s u"
  by (simp_all add: create_mutex_thread_def set_thr_def)

lemma thread_ok_frame:
  "m_thr s' = m_thr s \<Longrightarrow> m_owner s' = m_owner s \<Longrightarrow> m_created s' = m_created s \<Longrightarrow>
   m_counter s' = m_counter s \<or> m_pc (m_thr s t) \<noteq> M_Store \<Longrightarrow> thread_ok s t \<Longrightarrow> thread_ok s' t"
  by (auto simp: thread_ok_def Let_def)

lemma thread_ok_main [simp]:
  "thread_ok (s\<lparr>m_main := d\<rparr>) t = thread_ok s t" "thread_ok (s\<lparr>m_out := x\<rparr>) t = thread_ok s t"
  by (simp_all add: thread_ok_def)

lemma demo_mutex_inv:
  assumes inv: "mutex_inv s" and "demo_mutex ok s = Some s'"
  shows "mutex_inv s'"
  using assms(2)
proof (cases rule: demo_mutex_cases)
  case Zero
  with inv have u: "\<not> m_created s t" for t by (cases t) (simp_all add: mutex_inv_def main_ok_def)
  note un = uncreated_thread [OF thread_okI [OF inv] u]
  have "thread_ok s' t" for t
    using Zero un thread_okI [OF inv] by (intro thread_ok_frame [of s' s]) simp_all
  with Zero u un show ?thesis by (simp add: mutex_inv_def main_ok_def stored_def)
next
  case Create1
  with inv have u: "\<not> m_created s T1" "\<not> m_created s T2" by (simp_all add: mutex_inv_def main_ok_def)
  from Create1 inv u show ?thesis
    by (simp add: mutex_inv_def main_ok_def create_thread_ok [OF thread_okI [OF inv] u(1)])
next
  case Create2
  with inv have u: "\<not> m_created s T2" by (simp add: mutex_inv_def main_ok_def)
  from Create2 inv u show ?thesis
    by (simp add: mutex_inv_def main_ok_def create_thread_ok [OF thread_okI [OF inv] u])
qed (use inv in \<open>auto simp: mutex_inv_def main_ok_def\<close>)

lemma mutex_start_inv: "mutex_inv (mutex_start c)"
  by (simp add: mutex_start_def mutex_inv_defs Let_def)

section \<open>Termination and progress\<close>

fun dpc_left :: "dpc \<Rightarrow> nat" where
  "dpc_left D_Zero = 7"
| "dpc_left D_Print = 6"
| "dpc_left D_Create1 = 5"
| "dpc_left D_Create2 = 4"
| "dpc_left D_Join1 = 3"
| "dpc_left D_Join2 = 2"
| "dpc_left D_Final = 1"
| "dpc_left D_Done = 0"
| "dpc_left D_UB = 0"

definition mutex_measure :: "mstate \<Rightarrow> nat" where
  "mutex_measure s = dpc_left (m_main s) + thread_left (m_thr s T1) + thread_left (m_thr s T2)"

lemma thread_left_decreases:
  assumes "thread_ok s t" and "mutex_thread t s = Some s'"
  shows "thread_left (m_thr s' t) < thread_left (m_thr s t)"
  using assms(2,1)
  by (cases rule: mutex_thread_cases; simp add: thread_left_def thread_ok_def Let_def; arith?)

lemma mutex_thread_decreases:
  assumes "mutex_inv s" and step: "mutex_thread t s = Some s'"
  shows "mutex_measure s' < mutex_measure s"
proof -
  from assms(1) have ok: "thread_ok s t" by (rule thread_okI)
  show ?thesis
    using thread_left_decreases [OF ok step] stored_counter(2,3) [OF ok step]
    by (cases t) (simp_all add: mutex_measure_def)
qed

lemma demo_mutex_decreases:
  assumes inv: "mutex_inv s" and "demo_mutex ok s = Some s'"
  shows "mutex_measure s' < mutex_measure s"
  using assms(2)
proof (cases rule: demo_mutex_cases)
  case Create1
  with inv have "\<not> m_created s T1" by (simp add: mutex_inv_def main_ok_def)
  with Create1 show ?thesis
    using create_thread_ok(3) [OF thread_okI [OF inv], of T1 ok]
    by (simp add: mutex_measure_def add_mono add_less_le_mono)
next
  case Create2
  with inv have "\<not> m_created s T2" by (simp add: mutex_inv_def main_ok_def)
  with Create2 show ?thesis
    using create_thread_ok(3) [OF thread_okI [OF inv], of T2 ok]
    by (simp add: mutex_measure_def add_mono add_less_le_mono)
qed (auto simp: mutex_measure_def)

definition mutex_final :: "mstate \<Rightarrow> bool" where
  "mutex_final s \<longleftrightarrow> m_main s = D_Done \<or> m_main s = D_UB"

text \<open>The thread that owns the mutex can always go on; with the mutex free every live thread can.\<close>

lemma owner_can_step: "thread_ok s t \<Longrightarrow> m_owner s = Some t \<Longrightarrow> \<exists>s'. mutex_thread t s = Some s'"
  by (cases "m_pc (m_thr s t)") (simp_all add: mutex_defs thread_ok_def in_section_def)

lemma free_can_step:
  "m_owner s = None \<Longrightarrow> thread_ok s t \<Longrightarrow> m_pc (m_thr s t) \<notin> {M_Unborn, M_Done} \<Longrightarrow>
   \<exists>s'. mutex_thread t s = Some s'"
  by (cases "m_pc (m_thr s t)") (simp_all add: mutex_defs thread_ok_def in_section_def)

lemma live_thread: "thread_ok s t \<Longrightarrow> m_created s t \<Longrightarrow> m_pc (m_thr s t) \<noteq> M_Unborn"
  by (simp add: thread_ok_def Let_def)

lemma main_blocked:
  assumes "\<not> mutex_final s" and "demo_mutex ok s = None"
  shows "\<exists>t. m_created s t \<and> m_pc (m_thr s t) \<noteq> M_Done"
  using assms
  by (cases "m_main s") (auto simp: demo_mutex_def join_mutex_thread_def mutex_final_def split: if_splits)

lemma mutex_progress:
  assumes "mutex_inv s" and "\<not> mutex_final s"
  shows "\<exists>t. mutex_step s t"
proof -
  from assms(1) have ok: "thread_ok s u" for u by (rule thread_okI)
  show ?thesis
  proof (cases "demo_mutex True s")
    case (Some s')
    then have "mutex_act (M_Main True) s = Some s'" by simp
    then show ?thesis by blast
  next
    case None
    with assms(2) main_blocked obtain t where "m_created s t" "m_pc (m_thr s t) \<noteq> M_Done" by blast
    with ok live_thread have "m_pc (m_thr s t) \<notin> {M_Unborn, M_Done}" by blast
    with ok have "\<exists>u s'. mutex_thread u s = Some s'"
      by (cases "m_owner s") (blast dest: free_can_step owner_can_step)+
    then obtain u s' where "mutex_act (M_Thr u) s = Some s'" by auto
    then show ?thesis by blast
  qed
qed

lemma mutex_act_inv: "mutex_inv s \<Longrightarrow> mutex_act a s = Some s' \<Longrightarrow> mutex_inv s'"
  by (cases a) (auto intro: mutex_thread_inv demo_mutex_inv)

lemma mutex_act_decreases:
  "mutex_inv s \<Longrightarrow> mutex_act a s = Some s' \<Longrightarrow> mutex_measure s' < mutex_measure s"
  by (cases a) (auto intro: mutex_thread_decreases demo_mutex_decreases)

interpretation mutex_sys: live_system mutex_step "mutex_start c" mutex_inv mutex_measure mutex_final
proof
  show "mutex_inv (mutex_start c)" by (rule mutex_start_inv)
  fix s t
  assume "mutex_inv s" and "mutex_step s t"
  then show "mutex_inv t" and "mutex_measure t < mutex_measure s"
    by (auto elim!: step_ofE intro: mutex_act_inv mutex_act_decreases)
qed (rule mutex_progress)

interpretation mutex_lock: lock_protected mutex_step "mutex_start c" mutex_inv m_owner
  "\<lambda>t s. in_section (m_pc (m_thr s t))"
  by unfold_locales (auto dest: thread_okI simp: thread_ok_def Let_def)

lemma stored_done: "thread_ok s t \<Longrightarrow> m_pc (m_thr s t) = M_Done \<Longrightarrow> stored (m_thr s t) = mutex_iters"
  by (simp add: thread_ok_def stored_def Let_def)

lemma mutex_done:
  assumes inv: "mutex_inv s" and "m_main s = D_Done"
  shows "m_counter s = 20000 \<and> last (m_out s) = ''[Main] Final counter: 20000 (expected: 20000)\<newline>''"
proof -
  from assms have "m_pc (m_thr s t) = M_Done" for t
    by (cases t) (simp_all add: mutex_inv_def main_ok_def)
  with inv have "stored (m_thr s t) = mutex_iters" for t by (simp add: stored_done thread_okI)
  with assms have "m_counter s = 20000" by (simp add: mutex_inv_def mutex_iters_def)
  moreover have "show_int 20000 = ''20000''" by (simp add: show_eval)
  ultimately show ?thesis using assms by (simp add: mutex_inv_def main_ok_def)
qed

section \<open>Properties\<close>

text \<open>
  C11. In every interleaving of the two threads with the main thread, at most one thread is
  between \<^verbatim>\<open>pthread_mutex_lock\<close> and \<^verbatim>\<open>pthread_mutex_unlock\<close>.
\<close>

theorem mutex_mutual_exclusion:
  "mutex_step\<^sup>*\<^sup>* (mutex_start c) s \<Longrightarrow> in_section (m_pc (m_thr s t)) \<Longrightarrow>
   in_section (m_pc (m_thr s u)) \<Longrightarrow> t = u"
  by (rule mutex_lock.mutual_exclusion)

lemma mutex_section_entered:
  "\<exists>s. mutex_step\<^sup>*\<^sup>* (mutex_start 7) s \<and> in_section (m_pc (m_thr s T2))"
proof -
  let ?as = "[M_Main True, M_Main True, M_Main True, M_Main True, M_Thr T2, M_Thr T1, M_Thr T2]"
  have "case run_sched mutex_act ?as (mutex_start 7) of
          None \<Rightarrow> False | Some s \<Rightarrow> in_section (m_pc (m_thr s T2))"
    by (simp add: mutex_start_def mutex_defs mutex_iters_def in_section_def)
  then show ?thesis by (rule run_sched_witness)
qed

theorem mutex_mutual_exclusion_witness:
  "\<exists>s. mutex_step\<^sup>*\<^sup>* (mutex_start 7) s \<and> in_section (m_pc (m_thr s T2)) \<and>
       \<not> in_section (m_pc (m_thr s T1))"
proof -
  from mutex_section_entered obtain s
    where s: "mutex_step\<^sup>*\<^sup>* (mutex_start 7) s" "in_section (m_pc (m_thr s T2))" by blast
  with mutex_mutual_exclusion [OF s(1), of T1 T2] have "\<not> in_section (m_pc (m_thr s T1))" by auto
  with s show ?thesis by blast
qed

text \<open>
  C2. Whenever \<open>demo_mutex\<close> finishes, in whatever interleaving, the counter is 20000, and that
  is what the last line printed says.
\<close>

theorem demo_mutex_result:
  assumes "mutex_step\<^sup>*\<^sup>* (mutex_start c) s" and "m_main s = D_Done"
  shows "m_counter s = 20000 \<and> last (m_out s) = ''[Main] Final counter: 20000 (expected: 20000)\<newline>''"
  using mutex_sys.reach_inv [OF assms(1)] assms(2) by (rule mutex_done)

text \<open>With both creations successful the program never reaches the undefined join.\<close>

definition created_inv :: "mstate \<Rightarrow> bool" where
  "created_inv s \<longleftrightarrow> mutex_inv s \<and> m_created s T1 \<and> m_created s T2 \<and> m_main s \<noteq> D_UB"

lemma created_inv_step: "created_inv s \<Longrightarrow> mutex_step s t \<Longrightarrow> created_inv t"
proof -
  assume s: "created_inv s" and "mutex_step s t"
  then obtain a where a: "mutex_act a s = Some t" by (auto elim: step_ofE)
  with s have "mutex_inv t" by (auto simp: created_inv_def intro: mutex_act_inv)
  moreover have "m_created t = m_created s \<and> m_main t \<noteq> D_UB"
  proof (cases a)
    case (M_Main ok)
    with a have "demo_mutex ok s = Some t" by simp
    then show ?thesis using s
      by (cases rule: demo_mutex_cases) (auto simp: created_inv_def mutex_inv_def main_ok_def create_mutex_thread_def set_thr_def)
  next
    case (M_Thr u)
    with a have "mutex_thread u s = Some t" by simp
    then show ?thesis using s by (cases rule: mutex_thread_cases) (auto simp: created_inv_def)
  qed
  ultimately show ?thesis using s by (simp add: created_inv_def)
qed

lemma mutex_can_finish: "\<exists>s. mutex_step\<^sup>*\<^sup>* (mutex_start c) s \<and> m_main s = D_Done"
proof -
  let ?as = "[M_Main True, M_Main True, M_Main True, M_Main True]"
  have "case run_sched mutex_act ?as (mutex_start c) of
          None \<Rightarrow> False | Some s \<Rightarrow> m_created s T1 \<and> m_created s T2 \<and> m_main s \<noteq> D_UB"
    by (simp add: mutex_start_def mutex_defs)
  then obtain s where s: "mutex_step\<^sup>*\<^sup>* (mutex_start c) s" "m_created s T1" "m_created s T2" "m_main s \<noteq> D_UB"
    by (blast dest: run_sched_witness)
  then have c: "created_inv s" by (auto simp: created_inv_def dest: mutex_sys.reach_inv)
  from mutex_sys.eventually_final [OF s(1)] obtain t where t: "mutex_step\<^sup>*\<^sup>* s t" "mutex_final t" by blast
  from t(1) c have "created_inv t" by (induction rule: rtranclp_induct) (auto intro: created_inv_step)
  with t s(1) show ?thesis by (auto simp: created_inv_def mutex_final_def intro: rtranclp_trans)
qed

theorem demo_mutex_result_witness:
  "\<exists>s. mutex_step\<^sup>*\<^sup>* (mutex_start 7) s \<and> m_main s = D_Done \<and> m_counter s = 20000"
  using mutex_can_finish [of 7] demo_mutex_result by blast

text \<open>
  C30. \<open>demo_mutex\<close> cannot deadlock: from every reachable state some continuation ends it, no
  execution is longer than a fixed bound, and a state in which nothing can move is one where it
  has finished (or where it joined a thread whose creation had failed).
\<close>

theorem demo_mutex_terminates:
  assumes "(mutex_step ^^ n) (mutex_start c) s"
  shows "n \<le> 100021 \<and> (\<exists>t. mutex_step\<^sup>*\<^sup>* s t \<and> mutex_final t) \<and> ((\<exists>t. mutex_step s t) \<or> mutex_final s)"
proof -
  have "mutex_measure (mutex_start c) = 100021"
    by (simp add: mutex_measure_def mutex_start_def thread_left_def mutex_iters_def)
  moreover have "mutex_step\<^sup>*\<^sup>* (mutex_start c) s" using assms by (rule relpowp_imp_rtranclp)
  ultimately show ?thesis
    using mutex_sys.eventually_final mutex_sys.stuck_is_final mutex_sys.bounded_runs [OF assms] by metis
qed

theorem demo_mutex_terminates_witness:
  "\<exists>s. mutex_step\<^sup>*\<^sup>* (mutex_start 0) s \<and> mutex_final s"
proof -
  have "(mutex_step ^^ 0) (mutex_start 0) (mutex_start 0)" by simp
  from demo_mutex_terminates [OF this] show ?thesis by blast
qed

end
