(* ===== verification/Threads_Condvar.thy ===== *)
theory Threads_Condvar
  imports Threads_Mutex
begin

text \<open>
  \<^verbatim>\<open>examples/threads_demo.c\<close>, the condition variable part: \<open>producer\<close>, \<open>consumer\<close> and
  \<open>demo_condition_variable\<close> over the globals \<^verbatim>\<open>mutex\<close>, \<^verbatim>\<open>cond\<close>, \<^verbatim>\<open>counter\<close> and \<^verbatim>\<open>ready\<close>.
  A wait releases the mutex and blocks; a signal wakes the consumer if it is blocked and is
  lost otherwise; the environment may also wake it for no reason (a spurious wakeup). A woken
  consumer has to take the mutex again before it goes on. \<^verbatim>\<open>sleep(1)\<close> takes any time, so
  the scheduler is free in every state.
\<close>

section \<open>The program\<close>

datatype role = Prod | Cons

text \<open>The statements of \<open>producer\<close> (lines 41 to 53) and of \<open>consumer\<close> (lines 58 to 70).\<close>

datatype ppc = P_Unborn | P_Loop | P_Lock | P_Print | P_Store | P_Ready | P_Signal | P_Unlock | P_Sleep | P_Done

datatype cpc = C_Unborn | C_Loop | C_Lock | C_Test | C_CallWait | C_Wait | C_Woken | C_Print | C_Clear
  | C_Unlock | C_Done

text \<open>The statements of \<open>demo_condition_variable\<close> (lines 115 to 122).\<close>

datatype epc = E_Counter | E_Ready | E_CreateC | E_CreateP | E_JoinP | E_JoinC | E_Done | E_UB

text \<open>The lines the two threads print.\<close>

datatype cline = Producing int | Consuming int

fun cline_text :: "cline \<Rightarrow> string" where
  "cline_text (Producing i) = ''[Producer] Producing item '' @ show_int i @ ''\<newline>''"
| "cline_text (Consuming i) = ''[Consumer] Consuming item '' @ show_int i @ ''\<newline>''"

record cstate =
  c_counter :: int
  c_ready :: bool
  c_owner :: "role option"
  c_prod :: ppc
  c_pi :: nat
  c_cons :: cpc
  c_ci :: nat
  c_main :: epc
  c_log :: "cline list"

definition items :: nat where
  "items = 5"

text \<open>
  \<^verbatim>\<open>pthread_cond_signal\<close> wakes the consumer when it is blocked in \<^verbatim>\<open>pthread_cond_wait\<close>.
\<close>

definition pthread_cond_signal :: "cpc \<Rightarrow> cpc" where
  "pthread_cond_signal p = (if p = C_Wait then C_Woken else p)"

fun producer_at :: "ppc \<Rightarrow> cstate \<Rightarrow> cstate option" where
  "producer_at P_Unborn s = None"
| "producer_at P_Loop s = Some (s\<lparr>c_prod := (if c_pi s < items then P_Lock else P_Done)\<rparr>)"
| "producer_at P_Lock s =
     map_option (\<lambda>ow. s\<lparr>c_owner := ow, c_prod := P_Print\<rparr>) (pthread_mutex_lock Prod (c_owner s))"
| "producer_at P_Print s = Some (s\<lparr>c_log := c_log s @ [Producing (int (c_pi s))], c_prod := P_Store\<rparr>)"
| "producer_at P_Store s = Some (s\<lparr>c_counter := int (c_pi s), c_prod := P_Ready\<rparr>)"
| "producer_at P_Ready s = Some (s\<lparr>c_ready := True, c_prod := P_Signal\<rparr>)"
| "producer_at P_Signal s = Some (s\<lparr>c_cons := pthread_cond_signal (c_cons s), c_prod := P_Unlock\<rparr>)"
| "producer_at P_Unlock s =
     map_option (\<lambda>ow. s\<lparr>c_owner := ow, c_prod := P_Sleep\<rparr>) (pthread_mutex_unlock Prod (c_owner s))"
| "producer_at P_Sleep s = Some (s\<lparr>c_pi := Suc (c_pi s), c_prod := P_Loop\<rparr>)"
| "producer_at P_Done s = None"

text \<open>
  The consumer tests \<^verbatim>\<open>ready\<close> with the mutex held; \<open>C_CallWait\<close> is the entry of
  \<^verbatim>\<open>pthread_cond_wait\<close>, which releases the mutex and blocks in one atomic step, and \<open>C_Woken\<close> its
  exit, which takes the mutex again.
\<close>

fun consumer_at :: "cpc \<Rightarrow> cstate \<Rightarrow> cstate option" where
  "consumer_at C_Unborn s = None"
| "consumer_at C_Loop s = Some (s\<lparr>c_cons := (if c_ci s < items then C_Lock else C_Done)\<rparr>)"
| "consumer_at C_Lock s =
     map_option (\<lambda>ow. s\<lparr>c_owner := ow, c_cons := C_Test\<rparr>) (pthread_mutex_lock Cons (c_owner s))"
| "consumer_at C_Test s = Some (s\<lparr>c_cons := (if c_ready s then C_Print else C_CallWait)\<rparr>)"
| "consumer_at C_CallWait s =
     map_option (\<lambda>ow. s\<lparr>c_owner := ow, c_cons := C_Wait\<rparr>) (pthread_mutex_unlock Cons (c_owner s))"
| "consumer_at C_Wait s = None"
| "consumer_at C_Woken s =
     map_option (\<lambda>ow. s\<lparr>c_owner := ow, c_cons := C_Test\<rparr>) (pthread_mutex_lock Cons (c_owner s))"
| "consumer_at C_Print s = Some (s\<lparr>c_log := c_log s @ [Consuming (c_counter s)], c_cons := C_Clear\<rparr>)"
| "consumer_at C_Clear s = Some (s\<lparr>c_ready := False, c_cons := C_Unlock\<rparr>)"
| "consumer_at C_Unlock s =
     map_option (\<lambda>ow. s\<lparr>c_owner := ow, c_ci := Suc (c_ci s), c_cons := C_Loop\<rparr>)
       (pthread_mutex_unlock Cons (c_owner s))"
| "consumer_at C_Done s = None"

text \<open>One statement of each thread, at its own program counter.\<close>

definition producer :: "cstate \<Rightarrow> cstate option" where
  "producer s = producer_at (c_prod s) s"

definition consumer :: "cstate \<Rightarrow> cstate option" where
  "consumer s = consumer_at (c_cons s) s"

definition spurious_wakeup :: "cstate \<Rightarrow> cstate option" where
  "spurious_wakeup s = (if c_cons s = C_Wait then Some (s\<lparr>c_cons := C_Woken\<rparr>) else None)"

text \<open>
  The results of \<^verbatim>\<open>pthread_create\<close> are ignored; a join of a thread that was not made reads an
  uninitialised \<^verbatim>\<open>pthread_t\<close> (\<open>E_UB\<close>). The consumer is created first and joined last.
\<close>

fun demo_at :: "bool \<Rightarrow> epc \<Rightarrow> cstate \<Rightarrow> cstate option" where
  "demo_at ok E_Counter s = Some (s\<lparr>c_counter := 0, c_main := E_Ready\<rparr>)"
| "demo_at ok E_Ready s = Some (s\<lparr>c_ready := False, c_main := E_CreateC\<rparr>)"
| "demo_at ok E_CreateC s =
     Some ((if ok then s\<lparr>c_cons := C_Loop, c_ci := 0\<rparr> else s)\<lparr>c_main := E_CreateP\<rparr>)"
| "demo_at ok E_CreateP s =
     Some ((if ok then s\<lparr>c_prod := P_Loop, c_pi := 0\<rparr> else s)\<lparr>c_main := E_JoinP\<rparr>)"
| "demo_at ok E_JoinP s =
     (if c_prod s = P_Unborn then Some (s\<lparr>c_main := E_UB\<rparr>)
      else if c_prod s = P_Done then Some (s\<lparr>c_main := E_JoinC\<rparr>) else None)"
| "demo_at ok E_JoinC s =
     (if c_cons s = C_Unborn then Some (s\<lparr>c_main := E_UB\<rparr>)
      else if c_cons s = C_Done then Some (s\<lparr>c_main := E_Done\<rparr>) else None)"
| "demo_at ok E_Done s = None"
| "demo_at ok E_UB s = None"

definition demo_condition_variable :: "bool \<Rightarrow> cstate \<Rightarrow> cstate option" where
  "demo_condition_variable ok s = demo_at ok (c_main s) s"

datatype cactor = C_Main bool | C_Producer | C_Consumer | C_Spurious

fun condvar_act :: "cactor \<Rightarrow> cstate \<Rightarrow> cstate option" where
  "condvar_act (C_Main ok) s = demo_condition_variable ok s"
| "condvar_act C_Producer s = producer s"
| "condvar_act C_Consumer s = consumer s"
| "condvar_act C_Spurious s = spurious_wakeup s"

text \<open>\<^verbatim>\<open>counter\<close> and \<^verbatim>\<open>ready\<close> hold what the program did before.\<close>

definition condvar_start :: "int \<Rightarrow> bool \<Rightarrow> cstate" where
  "condvar_start c r =
     \<lparr>c_counter = c, c_ready = r, c_owner = None, c_prod = P_Unborn, c_pi = 0, c_cons = C_Unborn, c_ci = 0,
      c_main = E_Counter, c_log = []\<rparr>"

abbreviation condvar_step :: "cstate \<Rightarrow> cstate \<Rightarrow> bool" where
  "condvar_step \<equiv> step_of condvar_act"

text \<open>The items consumed, in order, read off the output.\<close>

fun consumed :: "cline list \<Rightarrow> int list" where
  "consumed [] = []"
| "consumed (Consuming i # ls) = i # consumed ls"
| "consumed (Producing i # ls) = consumed ls"

lemma consumed_append [simp]: "consumed (xs @ ys) = consumed xs @ consumed ys"
  by (induction xs rule: consumed.induct) auto

section \<open>The invariant\<close>

fun p_crit :: "ppc \<Rightarrow> bool" where
  "p_crit P_Print = True"
| "p_crit P_Store = True"
| "p_crit P_Ready = True"
| "p_crit P_Signal = True"
| "p_crit P_Unlock = True"
| "p_crit _ = False"

fun c_crit :: "cpc \<Rightarrow> bool" where
  "c_crit C_Test = True"
| "c_crit C_CallWait = True"
| "c_crit C_Print = True"
| "c_crit C_Clear = True"
| "c_crit C_Unlock = True"
| "c_crit _ = False"

text \<open>
  \<open>made\<close> items have been published (\<^verbatim>\<open>ready\<close> was set for them); between the store and the
  publication the counter is ahead of them.
\<close>

fun published :: "ppc \<Rightarrow> nat" where
  "published P_Signal = 1"
| "published P_Unlock = 1"
| "published P_Sleep = 1"
| "published _ = 0"

fun p_body :: "ppc \<Rightarrow> bool" where
  "p_body P_Unborn = False"
| "p_body P_Loop = False"
| "p_body P_Done = False"
| "p_body _ = True"

fun c_taken :: "cpc \<Rightarrow> nat" where
  "c_taken C_Clear = 1"
| "c_taken C_Unlock = 1"
| "c_taken _ = 0"

fun c_body :: "cpc \<Rightarrow> bool" where
  "c_body C_Unborn = False"
| "c_body C_Loop = False"
| "c_body C_Done = False"
| "c_body _ = True"

definition made :: "cstate \<Rightarrow> nat" where
  "made s = c_pi s + published (c_prod s)"

definition early :: "epc \<Rightarrow> bool" where
  "early e \<longleftrightarrow> e \<in> {E_Counter, E_Ready}"

text \<open>The mutex and the program counters agree.\<close>

definition owner_ok :: "cstate \<Rightarrow> bool" where
  "owner_ok s \<longleftrightarrow>
     c_owner s = (if p_crit (c_prod s) then Some Prod else if c_crit (c_cons s) then Some Cons else None) \<and>
     \<not> (p_crit (c_prod s) \<and> c_crit (c_cons s))"

text \<open>The loop counters of the threads.\<close>

definition p_loop_ok :: "ppc \<Rightarrow> nat \<Rightarrow> bool" where
  "p_loop_ok p i \<longleftrightarrow> i \<le> items \<and> (p_body p \<longrightarrow> i < items) \<and> (p = P_Unborn \<longrightarrow> i = 0)"

definition c_loop_ok :: "cpc \<Rightarrow> nat \<Rightarrow> bool" where
  "c_loop_ok p i \<longleftrightarrow>
     i \<le> items \<and> (c_body p \<longrightarrow> i < items) \<and> (p = C_Unborn \<longrightarrow> i = 0) \<and> (p = C_Done \<longrightarrow> i = items)"

definition loops_ok :: "cstate \<Rightarrow> bool" where
  "loops_ok s \<longleftrightarrow> p_loop_ok (c_prod s) (c_pi s) \<and> c_loop_ok (c_cons s) (c_ci s)"

lemmas loops_defs = loops_ok_def p_loop_ok_def c_loop_ok_def

text \<open>What the main thread has done.\<close>

definition demo_ok :: "cstate \<Rightarrow> bool" where
  "demo_ok s \<longleftrightarrow>
     (early (c_main s) \<or> c_main s = E_CreateC \<longrightarrow> c_prod s = P_Unborn \<and> c_cons s = C_Unborn) \<and>
     (c_main s = E_CreateP \<longrightarrow> c_prod s = P_Unborn) \<and>
     (c_main s = E_Done \<longrightarrow> c_cons s = C_Done)"

text \<open>
  The items: each pass of the consumer logs one item; the counter holds the newest published item
  (outside the producer's section); \<^verbatim>\<open>ready\<close> is only set once something was published, and the
  consumer takes an item only while it is set.
\<close>

definition count_ok :: "cstate \<Rightarrow> bool" where
  "count_ok s \<longleftrightarrow> length (consumed (c_log s)) = c_ci s + c_taken (c_cons s)"

definition counter_ok :: "cstate \<Rightarrow> bool" where
  "counter_ok s \<longleftrightarrow>
     (if c_prod s = P_Ready then c_counter s = int (c_pi s) else 0 < made s \<longrightarrow> c_counter s = int (made s) - 1)"

definition flag_ok :: "cstate \<Rightarrow> bool" where
  "flag_ok s \<longleftrightarrow>
     (early (c_main s) \<or> \<not> c_ready s \<or> 0 < made s) \<and> (c_cons s \<in> {C_Print, C_Clear} \<longrightarrow> c_ready s)"

text \<open>
  What was consumed increases strictly and stays below \<open>fresh\<close>: the published items, less the
  newest one while it waits to be consumed.
\<close>

definition fresh :: "cstate \<Rightarrow> int" where
  "fresh s = int (made s) - of_bool (c_ready s \<and> c_cons s \<noteq> C_Clear)"

definition order_ok :: "cstate \<Rightarrow> bool" where
  "order_ok s \<longleftrightarrow>
     sorted_wrt (<) (consumed (c_log s)) \<and> (\<forall>x \<in> set (consumed (c_log s)). 0 \<le> x \<and> x < fresh s)"

definition condvar_inv :: "cstate \<Rightarrow> bool" where
  "condvar_inv s \<longleftrightarrow>
     owner_ok s \<and> loops_ok s \<and> demo_ok s \<and> count_ok s \<and> counter_ok s \<and> flag_ok s \<and> order_ok s"

lemmas condvar_defs =
  producer_def consumer_def spurious_wakeup_def demo_condition_variable_def pthread_mutex_lock_def
  pthread_mutex_unlock_def

text \<open>A signal only moves a waiting consumer, which is outside its section either way.\<close>

lemma signal_simps [simp]:
  "c_crit (pthread_cond_signal p) = c_crit p" "c_body (pthread_cond_signal p) = c_body p"
  "c_taken (pthread_cond_signal p) = c_taken p" "pthread_cond_signal p = C_Unborn \<longleftrightarrow> p = C_Unborn"
  "pthread_cond_signal p = C_Done \<longleftrightarrow> p = C_Done" "pthread_cond_signal p = C_Print \<longleftrightarrow> p = C_Print"
  "pthread_cond_signal p = C_Clear \<longleftrightarrow> p = C_Clear"
  by (cases p; simp add: pthread_cond_signal_def)+

lemma producer_owner: "owner_ok s \<Longrightarrow> producer s = Some t \<Longrightarrow> owner_ok t"
  by (cases "c_prod s") (auto simp: condvar_defs owner_ok_def split: if_splits)

lemma consumer_owner: "owner_ok s \<Longrightarrow> consumer s = Some t \<Longrightarrow> owner_ok t"
  by (cases "c_cons s") (auto simp: condvar_defs owner_ok_def split: if_splits)

lemma producer_loops:
  assumes "loops_ok s" and "producer s = Some t"
  shows "loops_ok t"
proof -
  from assms(2) have "c_ci t = c_ci s \<and> (c_cons t = c_cons s \<or> c_cons t = pthread_cond_signal (c_cons s))"
    by (cases "c_prod s") (auto simp: condvar_defs split: if_splits option.splits)
  moreover have "c_loop_ok (pthread_cond_signal p) i = c_loop_ok p i" for p i by (simp add: c_loop_ok_def)
  moreover have "p_loop_ok (c_prod t) (c_pi t)"
    using assms by (cases "c_prod s") (auto simp: condvar_defs loops_ok_def p_loop_ok_def split: if_splits option.splits)
  ultimately show ?thesis using assms(1) by (auto simp: loops_ok_def)
qed

lemma consumer_loops:
  assumes "loops_ok s" and "consumer s = Some t"
  shows "loops_ok t"
proof -
  from assms(2) have "c_pi t = c_pi s \<and> c_prod t = c_prod s"
    by (cases "c_cons s") (auto simp: condvar_defs split: if_splits option.splits)
  moreover have "c_loop_ok (c_cons t) (c_ci t)"
    using assms by (cases "c_cons s") (auto simp: condvar_defs loops_ok_def c_loop_ok_def split: if_splits option.splits)
  ultimately show ?thesis using assms(1) by (simp add: loops_ok_def)
qed

lemma producer_demo: "demo_ok s \<Longrightarrow> producer s = Some t \<Longrightarrow> demo_ok t"
  by (cases "c_prod s") (auto simp: condvar_defs demo_ok_def split: if_splits option.splits)

lemma consumer_demo: "demo_ok s \<Longrightarrow> consumer s = Some t \<Longrightarrow> demo_ok t"
  by (cases "c_cons s") (auto simp: condvar_defs demo_ok_def split: if_splits option.splits)

lemma producer_count: "count_ok s \<Longrightarrow> producer s = Some t \<Longrightarrow> count_ok t"
  by (cases "c_prod s") (auto simp: condvar_defs count_ok_def split: if_splits option.splits)

lemma consumer_count: "count_ok s \<Longrightarrow> consumer s = Some t \<Longrightarrow> count_ok t"
  by (cases "c_cons s") (auto simp: condvar_defs count_ok_def split: if_splits option.splits)

lemma producer_counter: "counter_ok s \<Longrightarrow> producer s = Some t \<Longrightarrow> counter_ok t"
  by (cases "c_prod s") (auto simp: condvar_defs counter_ok_def made_def split: if_splits option.splits)

lemma consumer_counter: "counter_ok s \<Longrightarrow> consumer s = Some t \<Longrightarrow> counter_ok t"
  by (cases "c_cons s") (auto simp: condvar_defs counter_ok_def made_def split: if_splits option.splits)

lemma producer_flag: "flag_ok s \<Longrightarrow> producer s = Some t \<Longrightarrow> flag_ok t"
  by (cases "c_prod s") (auto simp: condvar_defs flag_ok_def made_def split: if_splits option.splits)

lemma consumer_flag: "flag_ok s \<Longrightarrow> consumer s = Some t \<Longrightarrow> flag_ok t"
  by (cases "c_cons s") (auto simp: condvar_defs flag_ok_def made_def split: if_splits option.splits)

text \<open>A step that consumes nothing keeps the order as long as \<open>fresh\<close> does not shrink.\<close>

lemma order_ok_mono:
  "order_ok s \<Longrightarrow> consumed (c_log t) = consumed (c_log s) \<Longrightarrow> fresh s \<le> fresh t \<Longrightarrow> order_ok t"
  by (force simp: order_ok_def)

lemma producer_order:
  assumes "order_ok s" and "producer s = Some t"
  shows "order_ok t"
proof (rule order_ok_mono [OF assms(1)])
  show "consumed (c_log t) = consumed (c_log s)"
    using assms(2) by (cases "c_prod s") (auto simp: condvar_defs split: if_splits option.splits)
  show "fresh s \<le> fresh t"
    using assms(2)
    by (cases "c_prod s") (auto simp: condvar_defs fresh_def made_def split: if_splits option.splits)
qed

lemma consumer_takes:
  assumes "order_ok s" and "counter_ok s" and "flag_ok s" and "owner_ok s"
    and "c_cons s = C_Print" and "\<not> early (c_main s)"
  shows "order_ok (s\<lparr>c_log := c_log s @ [Consuming (c_counter s)], c_cons := C_Clear\<rparr>)"
proof -
  from assms have "c_prod s \<noteq> P_Ready" "c_ready s" "0 < made s"
    by (auto simp: flag_ok_def owner_ok_def)
  with assms(2,5) have "c_counter s = fresh s" and "0 \<le> c_counter s"
    by (simp_all add: counter_ok_def fresh_def)
  with assms(1,5) \<open>c_ready s\<close> show ?thesis
    by (auto simp: order_ok_def sorted_wrt_append fresh_def made_def)
qed

lemma consumer_order:
  assumes "order_ok s" and "counter_ok s" and "flag_ok s" and "owner_ok s" and "demo_ok s"
    and step: "consumer s = Some t"
  shows "order_ok t"
proof (cases "c_cons s = C_Print")
  case True
  with assms(5) have "\<not> early (c_main s)" by (auto simp: demo_ok_def)
  with True assms consumer_takes [of s] show ?thesis by (simp add: consumer_def)
next
  case False
  show ?thesis
  proof (rule order_ok_mono [OF assms(1)])
    show "consumed (c_log t) = consumed (c_log s)"
      using step False by (cases "c_cons s") (auto simp: condvar_defs split: if_splits option.splits)
    show "fresh s \<le> fresh t"
      using step False
      by (cases "c_cons s") (auto simp: condvar_defs fresh_def made_def split: if_splits option.splits)
  qed
qed

lemma producer_inv: "condvar_inv s \<Longrightarrow> producer s = Some t \<Longrightarrow> condvar_inv t"
  unfolding condvar_inv_def
  by (blast intro: producer_owner producer_loops producer_demo producer_count producer_counter
      producer_flag producer_order)

lemma consumer_inv: "condvar_inv s \<Longrightarrow> consumer s = Some t \<Longrightarrow> condvar_inv t"
  unfolding condvar_inv_def
  by (blast intro: consumer_owner consumer_loops consumer_demo consumer_count consumer_counter
      consumer_flag consumer_order)

lemma spurious_inv:
  assumes inv: "condvar_inv s" and "spurious_wakeup s = Some t"
  shows "condvar_inv t"
proof -
  from assms(2) have t: "c_cons s = C_Wait" "t = s\<lparr>c_cons := C_Woken\<rparr>"
    by (auto simp: spurious_wakeup_def split: if_splits)
  with inv have "owner_ok t" "loops_ok t" "demo_ok t" "count_ok t" "counter_ok t" "flag_ok t"
    by (auto simp: condvar_inv_def owner_ok_def loops_defs demo_ok_def count_ok_def counter_ok_def
        flag_ok_def made_def)
  moreover have "order_ok t"
    using inv t by (intro order_ok_mono [of s t]) (auto simp: condvar_inv_def fresh_def made_def)
  ultimately show ?thesis by (simp add: condvar_inv_def)
qed

text \<open>
  The main thread writes the shared variables only before the threads exist, and creates each of
  them once.
\<close>

lemma demo_cases [consumes 1, case_names Counter Ready NoC CreateC NoP CreateP Undefined JoinP JoinC]:
  assumes "demo_condition_variable ok s = Some t"
  obtains "c_main s = E_Counter" "t = s\<lparr>c_counter := 0, c_main := E_Ready\<rparr>"
  | "c_main s = E_Ready" "t = s\<lparr>c_ready := False, c_main := E_CreateC\<rparr>"
  | "c_main s = E_CreateC" "t = s\<lparr>c_main := E_CreateP\<rparr>"
  | "c_main s = E_CreateC" "t = s\<lparr>c_cons := C_Loop, c_ci := 0, c_main := E_CreateP\<rparr>"
  | "c_main s = E_CreateP" "t = s\<lparr>c_main := E_JoinP\<rparr>"
  | "c_main s = E_CreateP" "t = s\<lparr>c_prod := P_Loop, c_pi := 0, c_main := E_JoinP\<rparr>"
  | "c_main s \<in> {E_JoinP, E_JoinC}" "t = s\<lparr>c_main := E_UB\<rparr>"
  | "c_main s = E_JoinP" "t = s\<lparr>c_main := E_JoinC\<rparr>"
  | "c_main s = E_JoinC" "c_cons s = C_Done" "t = s\<lparr>c_main := E_Done\<rparr>"
proof (cases "c_main s")
  case E_Counter
  with assms have "t = s\<lparr>c_counter := 0, c_main := E_Ready\<rparr>" by (simp add: demo_condition_variable_def)
  with E_Counter that(1) show ?thesis by blast
next
  case E_Ready
  with assms have "t = s\<lparr>c_ready := False, c_main := E_CreateC\<rparr>" by (simp add: demo_condition_variable_def)
  with E_Ready that(2) show ?thesis by blast
next
  case E_CreateC
  with assms have "t = s\<lparr>c_main := E_CreateP\<rparr> \<or> t = s\<lparr>c_cons := C_Loop, c_ci := 0, c_main := E_CreateP\<rparr>"
    by (cases ok) (simp_all add: demo_condition_variable_def)
  with E_CreateC that(3,4) show ?thesis by blast
next
  case E_CreateP
  with assms have "t = s\<lparr>c_main := E_JoinP\<rparr> \<or> t = s\<lparr>c_prod := P_Loop, c_pi := 0, c_main := E_JoinP\<rparr>"
    by (cases ok) (simp_all add: demo_condition_variable_def)
  with E_CreateP that(5,6) show ?thesis by blast
next
  case E_JoinP
  with assms have "t = s\<lparr>c_main := E_UB\<rparr> \<or> t = s\<lparr>c_main := E_JoinC\<rparr>"
    by (simp add: demo_condition_variable_def split: if_splits)
  with E_JoinP that(7,8) show ?thesis by blast
next
  case E_JoinC
  with assms have "t = s\<lparr>c_main := E_UB\<rparr> \<or> c_cons s = C_Done \<and> t = s\<lparr>c_main := E_Done\<rparr>"
    by (simp add: demo_condition_variable_def split: if_splits)
  with E_JoinC that(7,9) show ?thesis by blast
qed (use assms in \<open>simp_all add: demo_condition_variable_def\<close>)

text \<open>Before it creates the threads they do not exist, and have done nothing.\<close>

lemma not_created:
  assumes "condvar_inv s"
  shows "c_main s \<in> {E_Counter, E_Ready, E_CreateC} \<Longrightarrow> c_cons s = C_Unborn"
    and "c_main s \<in> {E_Counter, E_Ready, E_CreateC, E_CreateP} \<Longrightarrow> c_prod s = P_Unborn"
    and "c_main s \<in> {E_Counter, E_Ready, E_CreateC} \<Longrightarrow> c_ci s = 0"
    and "c_main s \<in> {E_Counter, E_Ready, E_CreateC, E_CreateP} \<Longrightarrow> c_pi s = 0"
    and "c_main s \<in> {E_Counter, E_Ready, E_CreateC, E_CreateP} \<Longrightarrow> made s = 0"
proof -
  from assms have d: "demo_ok s" "loops_ok s" by (simp_all add: condvar_inv_def)
  show c: "c_main s \<in> {E_Counter, E_Ready, E_CreateC} \<Longrightarrow> c_cons s = C_Unborn"
    and p: "c_main s \<in> {E_Counter, E_Ready, E_CreateC, E_CreateP} \<Longrightarrow> c_prod s = P_Unborn"
    using d(1) by (auto simp: demo_ok_def early_def)
  show "c_main s \<in> {E_Counter, E_Ready, E_CreateC} \<Longrightarrow> c_ci s = 0"
    and pi: "c_main s \<in> {E_Counter, E_Ready, E_CreateC, E_CreateP} \<Longrightarrow> c_pi s = 0"
    using c p d(2) by (auto simp: loops_defs)
  show "c_main s \<in> {E_Counter, E_Ready, E_CreateC, E_CreateP} \<Longrightarrow> made s = 0"
    using p pi by (simp add: made_def)
qed

lemma main_frame [simp]:
  "owner_ok (s\<lparr>c_main := e\<rparr>) = owner_ok s" "loops_ok (s\<lparr>c_main := e\<rparr>) = loops_ok s"
  "count_ok (s\<lparr>c_main := e\<rparr>) = count_ok s" "counter_ok (s\<lparr>c_main := e\<rparr>) = counter_ok s"
  "order_ok (s\<lparr>c_main := e\<rparr>) = order_ok s" "made (s\<lparr>c_main := e\<rparr>) = made s"
  by (simp_all add: owner_ok_def loops_ok_def count_ok_def counter_ok_def order_ok_def fresh_def made_def)

lemma main_owner:
  assumes inv: "condvar_inv s" and step: "demo_condition_variable ok s = Some t"
  shows "owner_ok t"
  using step inv not_created [OF inv]
  by (cases rule: demo_cases) (simp_all add: condvar_inv_def owner_ok_def)

lemma main_loops:
  assumes inv: "condvar_inv s" and step: "demo_condition_variable ok s = Some t"
  shows "loops_ok t"
  using step inv not_created [OF inv]
  by (cases rule: demo_cases) (simp_all add: condvar_inv_def loops_defs)

lemma main_count:
  assumes inv: "condvar_inv s" and step: "demo_condition_variable ok s = Some t"
  shows "count_ok t" and "counter_ok t"
  using step inv not_created [OF inv]
  by (cases rule: demo_cases; simp add: condvar_inv_def count_ok_def counter_ok_def made_def)+

lemma main_demo:
  assumes inv: "condvar_inv s" and step: "demo_condition_variable ok s = Some t"
  shows "demo_ok t"
  using step not_created [OF inv]
  by (cases rule: demo_cases) (simp_all add: demo_ok_def early_def)

lemma main_flag:
  assumes inv: "condvar_inv s" and step: "demo_condition_variable ok s = Some t"
  shows "flag_ok t"
proof -
  from inv have "flag_ok s" by (simp add: condvar_inv_def)
  with step not_created [OF inv] show ?thesis
    by (cases rule: demo_cases) (auto simp: flag_ok_def early_def made_def)
qed

lemma main_order:
  assumes inv: "condvar_inv s" and step: "demo_condition_variable ok s = Some t"
  shows "order_ok t"
proof (rule order_ok_mono)
  show "order_ok s" using inv by (simp add: condvar_inv_def)
  show "consumed (c_log t) = consumed (c_log s)" using step by (cases rule: demo_cases) simp_all
  show "fresh s \<le> fresh t"
    using step not_created [OF inv] by (cases rule: demo_cases) (simp_all add: fresh_def made_def)
qed

lemma main_inv:
  assumes "condvar_inv s" and "demo_condition_variable ok s = Some t"
  shows "condvar_inv t"
  unfolding condvar_inv_def
  using main_owner [OF assms] main_loops [OF assms] main_count [OF assms] main_demo [OF assms]
    main_flag [OF assms] main_order [OF assms] by blast

lemma condvar_act_inv: "condvar_inv s \<Longrightarrow> condvar_act a s = Some t \<Longrightarrow> condvar_inv t"
  by (cases a) (auto intro: main_inv producer_inv consumer_inv spurious_inv)

lemma condvar_start_inv: "condvar_inv (condvar_start c r)"
  by (simp add: condvar_inv_def owner_ok_def loops_defs demo_ok_def count_ok_def counter_ok_def flag_ok_def
      order_ok_def made_def early_def condvar_start_def)

definition role_crit :: "role \<Rightarrow> cstate \<Rightarrow> bool" where
  "role_crit r s = (case r of Prod \<Rightarrow> p_crit (c_prod s) | Cons \<Rightarrow> c_crit (c_cons s))"

interpretation condvar_sys: invariant_system condvar_step "condvar_start c r" condvar_inv
  by unfold_locales (auto simp: condvar_start_inv elim!: step_ofE intro: condvar_act_inv)

interpretation condvar_lock: lock_protected condvar_step "condvar_start c r" condvar_inv c_owner role_crit
  by unfold_locales (auto simp: condvar_inv_def owner_ok_def role_crit_def split: role.splits)

lemma published_below_items:
  assumes "condvar_inv s"
  shows "made s \<le> 5"
proof -
  have "published p \<le> of_bool (p_body p)" for p by (cases p) auto
  then have "published (c_prod s) \<le> of_bool (p_body (c_prod s))" by blast
  moreover from assms have "c_pi s \<le> 5" "p_body (c_prod s) \<Longrightarrow> c_pi s < 5"
    by (simp_all add: condvar_inv_def loops_defs items_def)
  ultimately show ?thesis by (cases "p_body (c_prod s)") (simp_all add: made_def)
qed

lemma consumed_below_made: "condvar_inv s \<Longrightarrow> x \<in> set (consumed (c_log s)) \<Longrightarrow> 0 \<le> x \<and> x < int (made s)"
proof -
  assume "condvar_inv s" and "x \<in> set (consumed (c_log s))"
  then have "0 \<le> x" "x < fresh s" by (auto simp: condvar_inv_def order_ok_def)
  moreover have "fresh s \<le> int (made s)" by (simp add: fresh_def)
  ultimately show ?thesis by simp
qed

section \<open>Properties\<close>

lemma condvar_done:
  assumes inv: "condvar_inv s" and "c_main s = E_Done"
  shows "consumed (c_log s) = [0, 1, 2, 3, 4]"
proof -
  from assms have "length (consumed (c_log s)) = 5"
    by (auto simp: condvar_inv_def demo_ok_def loops_defs count_ok_def items_def)
  moreover have "sorted_wrt (<) (consumed (c_log s))" "\<forall>x \<in> set (consumed (c_log s)). 0 \<le> x \<and> x < int 5"
    using published_below_items [OF inv] consumed_below_made [OF inv] inv
    by (force simp: condvar_inv_def order_ok_def)+
  ultimately have "consumed (c_log s) = map int [0..<5]" by (intro sorted_int_list_complete) auto
  then show ?thesis by (simp add: upt_rec)
qed

text \<open>
  C9. Whatever the interleaving, the wakeups and the initial values, the items consumed so far are
  strictly increasing and each was produced before: no item is consumed twice, none out of order.
\<close>

theorem consumer_order_safe:
  assumes "condvar_step\<^sup>*\<^sup>* (condvar_start c r) s"
  shows "sorted_wrt (<) (consumed (c_log s)) \<and>
         (\<forall>x \<in> set (consumed (c_log s)). 0 \<le> x \<and> x < int (made s)) \<and> made s \<le> 5"
proof -
  from assms have "condvar_inv s" by (rule condvar_sys.reach_inv)
  with published_below_items consumed_below_made show ?thesis by (simp add: condvar_inv_def order_ok_def)
qed

text \<open>
  A schedule under which the consumer gets its turn while the producer sleeps: it waits for each
  item, and the program ends.
\<close>

definition fair_round :: "cactor list" where
  "fair_round = replicate 4 C_Consumer @ replicate 8 C_Producer @ replicate 5 C_Consumer"

definition fair_schedule :: "cactor list" where
  "fair_schedule =
     replicate 4 (C_Main True) @ concat (replicate 5 fair_round) @
     [C_Consumer, C_Producer, C_Main True, C_Main True]"

lemma fair_run:
  "\<exists>s. condvar_step\<^sup>*\<^sup>* (condvar_start c r) s \<and> c_main s = E_Done \<and> consumed (c_log s) \<noteq> []"
proof (rule run_sched_witness)
  show "case run_sched condvar_act fair_schedule (condvar_start c r) of
          None \<Rightarrow> False | Some s \<Rightarrow> c_main s = E_Done \<and> consumed (c_log s) \<noteq> []"
    by (simp add: fair_schedule_def fair_round_def condvar_start_def condvar_defs pthread_cond_signal_def items_def eval_nat_numeral)
qed

theorem consumer_order_safe_witness:
  "\<exists>s. condvar_step\<^sup>*\<^sup>* (condvar_start 20000 True) s \<and> consumed (c_log s) \<noteq> [] \<and>
       sorted_wrt (<) (consumed (c_log s))"
  using fair_run [of 20000 True] consumer_order_safe by blast

text \<open>
  C8. If \<open>demo_condition_variable\<close> comes to its end, the consumer has consumed exactly the items
  0, 1, 2, 3, 4, in this order.
\<close>

theorem demo_condition_variable_result:
  assumes "condvar_step\<^sup>*\<^sup>* (condvar_start c r) s" and "c_main s = E_Done"
  shows "consumed (c_log s) = [0, 1, 2, 3, 4]"
  using condvar_sys.reach_inv [OF assms(1)] assms(2) by (rule condvar_done)

theorem demo_condition_variable_result_witness:
  "\<exists>s. condvar_step\<^sup>*\<^sup>* (condvar_start 20000 True) s \<and> c_main s = E_Done \<and>
       consumed (c_log s) = [0, 1, 2, 3, 4]"
  using fair_run [of 20000 True] demo_condition_variable_result by blast

text \<open>
  The producer does not wait for an item to be taken. Once it has ended with the last item
  consumed, a consumer that still expects items starves.
\<close>

definition starving :: "cstate \<Rightarrow> bool" where
  "starving s \<longleftrightarrow>
     c_prod s = P_Done \<and> \<not> c_ready s \<and> c_main s \<in> {E_JoinP, E_JoinC} \<and>
     (c_cons s \<in> {C_Lock, C_Test, C_CallWait, C_Wait, C_Woken} \<or> c_cons s = C_Loop \<and> c_ci s < items)"

lemma starving_act: "starving s \<Longrightarrow> condvar_act a s = Some t \<Longrightarrow> starving t"
  by (cases a; cases "c_main s"; cases "c_cons s") (auto simp: starving_def condvar_defs split: if_splits option.splits)

lemma starving_forever: "condvar_step\<^sup>*\<^sup>* s t \<Longrightarrow> starving s \<Longrightarrow> starving t"
  by (induction rule: rtranclp_induct) (auto elim!: step_ofE intro: starving_act)

definition late_consumer :: "cactor list" where
  "late_consumer =
     replicate 4 (C_Main True) @ replicate 41 C_Producer @ replicate 6 C_Consumer @ replicate 4 C_Consumer"

text \<open>
  C34. The demo can hang: an interleaving exists in which the producer publishes all five items
  before the consumer first runs; the consumer then gets only the last one, waits for a signal
  nobody will send, and no continuation ends the program.
\<close>

theorem demo_condition_variable_can_hang:
  "\<exists>s. condvar_step\<^sup>*\<^sup>* (condvar_start c r) s \<and> consumed (c_log s) = [4] \<and>
       \<not> (\<exists>t. condvar_step\<^sup>*\<^sup>* s t \<and> c_main t = E_Done)"
proof -
  have "\<exists>s. condvar_step\<^sup>*\<^sup>* (condvar_start c r) s \<and> consumed (c_log s) = [4] \<and> starving s"
  proof (rule run_sched_witness)
    show "case run_sched condvar_act late_consumer (condvar_start c r) of
            None \<Rightarrow> False | Some s \<Rightarrow> consumed (c_log s) = [4] \<and> starving s"
      by (simp add: late_consumer_def condvar_start_def condvar_defs pthread_cond_signal_def items_def starving_def eval_nat_numeral)
  qed
  then obtain s where s: "condvar_step\<^sup>*\<^sup>* (condvar_start c r) s" "consumed (c_log s) = [4]" "starving s" by blast
  moreover have "c_main t \<noteq> E_Done" if "condvar_step\<^sup>*\<^sup>* s t" for t
    using starving_forever [OF that s(3)] by (auto simp: starving_def)
  ultimately show ?thesis by blast
qed

end
