(* ===== verification/Threads_Simple.thy ===== *)
theory Threads_Simple
  imports C_Library
begin

text \<open>
  \<^verbatim>\<open>simple_thread\<close>, \<^verbatim>\<open>demo_simple_threads\<close> and \<^verbatim>\<open>demo_thread_attributes\<close> of \<^verbatim>\<open>src/examples/threads_demo.c\<close>.
  The threads of a demo are a list of program points; one step is one statement of one thread or of the main thread.
  All print to the same \<^verbatim>\<open>stdout\<close>: the log. Whether \<^verbatim>\<open>pthread_create\<close> succeeds is chosen by the environment.
\<close>

section \<open>simple thread\<close>

datatype tpc = TP_Started | TP_Sleep | TP_Finished | TP_Return | TP_Ended int | TP_Joined int

datatype tline = TL_Header | TL_Attr_Header | TL_Perror | TL_Started int | TL_Finished int | TL_Returned int int | TL_Creating | TL_Completed

text \<open>One statement of the thread with argument \<open>n\<close> (lines 21 to 27): its next point and what it prints.\<close>

fun simple_thread :: "int \<Rightarrow> tpc \<Rightarrow> (tpc \<times> tline list) option" where
  "simple_thread n TP_Started = Some (TP_Sleep, [TL_Started n])"
| "simple_thread n TP_Sleep = Some (TP_Finished, [])"
| "simple_thread n TP_Finished = Some (TP_Return, [TL_Finished n])"
| "simple_thread n TP_Return = Some (TP_Ended (n * 2), [])"
| "simple_thread n (TP_Ended v) = None"
| "simple_thread n (TP_Joined v) = None"

text \<open>The text of a line; \<open>err\<close> is what \<^verbatim>\<open>perror\<close> adds for the value of \<^verbatim>\<open>errno\<close>.\<close>

fun tline_text :: "string \<Rightarrow> tline \<Rightarrow> string" where
  "tline_text err TL_Header = ''\<newline>=== Simple Threads Demo ===\<newline>''"
| "tline_text err TL_Attr_Header = ''\<newline>=== Thread Attributes Demo ===\<newline>''"
| "tline_text err TL_Perror = ''pthread_create: '' @ err @ ''\<newline>''"
| "tline_text err (TL_Started n) = ''[Thread '' @ show_int n @ ''] Started\<newline>''"
| "tline_text err (TL_Finished n) = ''[Thread '' @ show_int n @ ''] Finished\<newline>''"
| "tline_text err (TL_Returned i v) = ''[Main] Thread '' @ show_int i @ '' returned: '' @ show_int v @ ''\<newline>''"
| "tline_text err TL_Creating = ''[Main] Creating detached thread with 2MB stack\<newline>''"
| "tline_text err TL_Completed = ''[Main] Detached thread completed\<newline>''"

fun tpc_left :: "tpc \<Rightarrow> nat" where
  "tpc_left TP_Started = 5"
| "tpc_left TP_Sleep = 4"
| "tpc_left TP_Finished = 3"
| "tpc_left TP_Return = 2"
| "tpc_left (TP_Ended v) = 1"
| "tpc_left (TP_Joined v) = 0"

text \<open>What a thread has printed at each point.\<close>

fun tpc_lines :: "int \<Rightarrow> tpc \<Rightarrow> tline list" where
  "tpc_lines n TP_Started = []"
| "tpc_lines n TP_Sleep = [TL_Started n]"
| "tpc_lines n TP_Finished = [TL_Started n]"
| "tpc_lines n _ = [TL_Started n, TL_Finished n]"

lemma simple_thread_lines: "simple_thread n p = Some (p', ls) \<Longrightarrow> tpc_lines n p' = tpc_lines n p @ ls"
  by (cases p) auto

lemma simple_thread_left: "simple_thread n p = Some (p', ls) \<Longrightarrow> tpc_left p' < tpc_left p"
  by (cases p) auto

fun tpc_over :: "tpc \<Rightarrow> bool" where
  "tpc_over (TP_Ended v) \<longleftrightarrow> True"
| "tpc_over (TP_Joined v) \<longleftrightarrow> True"
| "tpc_over _ \<longleftrightarrow> False"

lemma simple_thread_steps: "\<not> tpc_over p \<Longrightarrow> \<exists>p' ls. simple_thread n p = Some (p', ls)"
  by (cases p) auto

section \<open>demo\_simple threads\<close>

text \<open>The statements of the main thread (lines 73 to 92).\<close>

datatype qpc = Q_Header | Q_Create nat | Q_Join nat | Q_Print nat int | Q_Return

record qstate =
  q_pc :: qpc
  q_thr :: "tpc list"
  q_log :: "tline list"

definition demo_simple_threads :: "bool \<Rightarrow> qstate \<Rightarrow> qstate option" where
  "demo_simple_threads ok s =
     (case q_pc s of
        Q_Header \<Rightarrow> Some (s\<lparr>q_log := q_log s @ [TL_Header], q_pc := Q_Create 0\<rparr>)
      | Q_Create i \<Rightarrow>
          Some (if ok then s\<lparr>q_thr := q_thr s @ [TP_Started], q_pc := (if i + 1 < 3 then Q_Create (i + 1) else Q_Join 0)\<rparr>
                else s\<lparr>q_log := q_log s @ [TL_Perror], q_pc := Q_Return\<rparr>)
      | Q_Join i \<Rightarrow>
          (case q_thr s ! i of
             TP_Ended v \<Rightarrow> Some (s\<lparr>q_thr := (q_thr s)[i := TP_Joined v], q_pc := Q_Print i v\<rparr>)
           | _ \<Rightarrow> None)
      | Q_Print i v \<Rightarrow>
          Some (s\<lparr>q_log := q_log s @ [TL_Returned (int i) v], q_pc := (if i + 1 < 3 then Q_Join (i + 1) else Q_Return)\<rparr>)
      | Q_Return \<Rightarrow> None)"

definition run_thread :: "nat \<Rightarrow> qstate \<Rightarrow> qstate option" where
  "run_thread j s =
     (if j < length (q_thr s) then
        map_option (\<lambda>(p, ls). s\<lparr>q_thr := (q_thr s)[j := p], q_log := q_log s @ ls\<rparr>) (simple_thread (int j) (q_thr s ! j))
      else None)"

datatype qactor = Q_Main bool | Q_Thread nat

fun simple_threads_act :: "qactor \<Rightarrow> qstate \<Rightarrow> qstate option" where
  "simple_threads_act (Q_Main ok) s = demo_simple_threads ok s"
| "simple_threads_act (Q_Thread j) s = run_thread j s"

definition simple_threads_start :: qstate where
  "simple_threads_start = \<lparr>q_pc = Q_Header, q_thr = [], q_log = []\<rparr>"

abbreviation simple_threads_step :: "qstate \<Rightarrow> qstate \<Rightarrow> bool" where
  "simple_threads_step \<equiv> step_of simple_threads_act"

text \<open>Who prints a line: thread \<open>j\<close>, or the main thread.\<close>

fun of_thread :: "int \<Rightarrow> tline \<Rightarrow> bool" where
  "of_thread j (TL_Started n) \<longleftrightarrow> n = j"
| "of_thread j (TL_Finished n) \<longleftrightarrow> n = j"
| "of_thread j _ \<longleftrightarrow> False"

fun of_main :: "tline \<Rightarrow> bool" where
  "of_main (TL_Started n) \<longleftrightarrow> False"
| "of_main (TL_Finished n) \<longleftrightarrow> False"
| "of_main _ \<longleftrightarrow> True"

fun created_count :: "qpc \<Rightarrow> nat" where
  "created_count Q_Header = 0"
| "created_count (Q_Create i) = i"
| "created_count _ = 3"

fun joined_count :: "qpc \<Rightarrow> nat" where
  "joined_count (Q_Join i) = i"
| "joined_count (Q_Print i v) = i + 1"
| "joined_count Q_Return = 3"
| "joined_count _ = 0"

fun printed_count :: "qpc \<Rightarrow> nat" where
  "printed_count (Q_Join i) = i"
| "printed_count (Q_Print i v) = i"
| "printed_count Q_Return = 3"
| "printed_count _ = 0"

definition returned_lines :: "nat \<Rightarrow> tline list" where
  "returned_lines n = map (\<lambda>i. TL_Returned (int i) (2 * int i)) [0..<n]"

definition thread_inv :: "nat \<Rightarrow> tpc \<Rightarrow> tline list \<Rightarrow> bool" where
  "thread_inv j p log \<longleftrightarrow> filter (of_thread (int j)) log = tpc_lines (int j) p \<and>
     (\<forall>v. p = TP_Ended v \<or> p = TP_Joined v \<longrightarrow> v = 2 * int j)"

definition simple_main_inv :: "qstate \<Rightarrow> bool" where
  "simple_main_inv s \<longleftrightarrow>
     (if TL_Perror \<in> set (q_log s) then q_pc s = Q_Return
      else length (q_thr s) = created_count (q_pc s) \<and>
        (\<forall>j < length (q_thr s). (\<exists>v. q_thr s ! j = TP_Joined v) \<longleftrightarrow> j < joined_count (q_pc s)) \<and>
        (\<forall>i. q_pc s = Q_Create i \<or> q_pc s = Q_Join i \<longrightarrow> i < 3) \<and>
        (\<forall>i v. q_pc s = Q_Print i v \<longrightarrow> i < 3 \<and> v = 2 * int i) \<and>
        filter of_main (q_log s) = (if q_pc s = Q_Header then [] else TL_Header # returned_lines (printed_count (q_pc s))))"

definition threads_inv :: "qstate \<Rightarrow> bool" where
  "threads_inv s \<longleftrightarrow> (\<forall>j < length (q_thr s). thread_inv j (q_thr s ! j) (q_log s)) \<and>
     (\<forall>l \<in> set (q_log s). \<forall>j. of_thread j l \<longrightarrow> 0 \<le> j \<and> j < int (length (q_thr s)))"

lemma lines_of_thread:
  "simple_thread n p = Some (p', ls) \<Longrightarrow> filter (of_thread n) ls = ls \<and> (j \<noteq> n \<longrightarrow> filter (of_thread j) ls = []) \<and>
     filter of_main ls = [] \<and> TL_Perror \<notin> set ls \<and> (\<forall>l \<in> set ls. \<forall>j. of_thread j l \<longrightarrow> j = n)"
  by (cases p) auto

text \<open>A step of thread \<open>j\<close>.\<close>

lemma run_threadE:
  assumes "run_thread j s = Some t"
  obtains p ls where "j < length (q_thr s)" "simple_thread (int j) (q_thr s ! j) = Some (p, ls)"
    "t = s\<lparr>q_thr := (q_thr s)[j := p], q_log := q_log s @ ls\<rparr>"
  using assms by (auto simp: run_thread_def split: if_splits)

lemma thread_value:
  "simple_thread n p = Some (TP_Ended v, ls) \<Longrightarrow> v = 2 * n" "simple_thread n p \<noteq> Some (TP_Joined v, ls)"
  by (cases p; auto)+

lemma threads_inv_thread:
  assumes "threads_inv s" and "run_thread j s = Some t"
  shows "threads_inv t"
proof -
  from assms(2) obtain p ls where j: "j < length (q_thr s)" and p: "simple_thread (int j) (q_thr s ! j) = Some (p, ls)"
    and t: "t = s\<lparr>q_thr := (q_thr s)[j := p], q_log := q_log s @ ls\<rparr>" by (rule run_threadE)
  have "thread_inv i (q_thr t ! i) (q_log t)" if i: "i < length (q_thr s)" for i
  proof (cases "i = j")
    case True
    with assms(1) j have "filter (of_thread (int j)) (q_log s) = tpc_lines (int j) (q_thr s ! j)"
      by (simp add: threads_inv_def thread_inv_def)
    with True j t simple_thread_lines [OF p] lines_of_thread [OF p] thread_value p show ?thesis
      by (auto simp: thread_inv_def)
  next
    case False
    with assms(1) i j t lines_of_thread [OF p, of "int i"] show ?thesis by (simp add: threads_inv_def thread_inv_def)
  qed
  moreover have "\<forall>l \<in> set ls. \<forall>i. of_thread i l \<longrightarrow> i = int j" using lines_of_thread [OF p] by blast
  then have "\<forall>l \<in> set (q_log t). \<forall>i. of_thread i l \<longrightarrow> 0 \<le> i \<and> i < int (length (q_thr t))"
    using assms(1) j by (fastforce simp: threads_inv_def t)
  ultimately show ?thesis by (simp add: threads_inv_def t)
qed

lemma simple_main_inv_thread:
  assumes "simple_main_inv s" and "run_thread j s = Some t"
  shows "simple_main_inv t"
proof -
  from assms(2) obtain p ls where j: "j < length (q_thr s)" and p: "simple_thread (int j) (q_thr s ! j) = Some (p, ls)"
    and t: "t = s\<lparr>q_thr := (q_thr s)[j := p], q_log := q_log s @ ls\<rparr>" by (rule run_threadE)
  have "\<not> (\<exists>v. q_thr s ! j = TP_Joined v)" "\<not> (\<exists>v. p = TP_Joined v)" using p thread_value(2) by auto
  then have "(\<exists>v. q_thr t ! i = TP_Joined v) \<longleftrightarrow> (\<exists>v. q_thr s ! i = TP_Joined v)" if "i < length (q_thr s)" for i
    using that j by (cases "i = j") (simp_all add: t)
  with assms(1) lines_of_thread [OF p] show ?thesis by (simp add: simple_main_inv_def t)
qed

text \<open>The steps of the main thread.\<close>

lemma demo_simple_cases:
  assumes "demo_simple_threads ok s = Some t"
  obtains (header) "q_pc s = Q_Header" "t = s\<lparr>q_log := q_log s @ [TL_Header], q_pc := Q_Create 0\<rparr>"
  | (create) i where "q_pc s = Q_Create i"
      "t = s\<lparr>q_thr := q_thr s @ [TP_Started], q_pc := (if i + 1 < 3 then Q_Create (i + 1) else Q_Join 0)\<rparr>"
  | (failed) i where "q_pc s = Q_Create i" "t = s\<lparr>q_log := q_log s @ [TL_Perror], q_pc := Q_Return\<rparr>"
  | (join) i v where "q_pc s = Q_Join i" "q_thr s ! i = TP_Ended v"
      "t = s\<lparr>q_thr := (q_thr s)[i := TP_Joined v], q_pc := Q_Print i v\<rparr>"
  | (print) i v where "q_pc s = Q_Print i v"
      "t = s\<lparr>q_log := q_log s @ [TL_Returned (int i) v], q_pc := (if i + 1 < 3 then Q_Join (i + 1) else Q_Return)\<rparr>"
proof (cases "q_pc s")
  case Q_Header
  with assms show ?thesis by (intro header) (simp_all add: demo_simple_threads_def)
next
  case (Q_Create i)
  with assms create [of i] failed [of i] show ?thesis by (cases ok) (auto simp: demo_simple_threads_def)
next
  case (Q_Join i)
  with assms join [of i] show ?thesis by (auto simp: demo_simple_threads_def split: tpc.splits)
next
  case (Q_Print i v)
  with assms show ?thesis by (intro print) (auto simp: demo_simple_threads_def)
next
  case Q_Return
  with assms show ?thesis by (simp add: demo_simple_threads_def)
qed

lemma no_perror: "simple_main_inv s \<Longrightarrow> q_pc s \<noteq> Q_Return \<Longrightarrow> TL_Perror \<notin> set (q_log s)"
  by (auto simp: simple_main_inv_def split: if_splits)

lemma returned_Suc: "returned_lines (Suc n) = returned_lines n @ [TL_Returned (int n) (2 * int n)]"
  by (simp add: returned_lines_def)

lemma simple_main_inv_main:
  assumes "simple_main_inv s" and "threads_inv s" and "demo_simple_threads ok s = Some t"
  shows "simple_main_inv t"
  using assms(3)
proof (cases rule: demo_simple_cases)
  case header
  with assms(1) no_perror [OF assms(1)] show ?thesis by (simp add: simple_main_inv_def returned_lines_def)
next
  case (create i)
  with assms(1) no_perror [OF assms(1)] show ?thesis
    by (auto simp: simple_main_inv_def nth_append less_Suc_eq)
next
  case (failed i)
  then show ?thesis by (simp add: simple_main_inv_def)
next
  case (join i v)
  with assms(1) no_perror [OF assms(1)] have i: "i < 3" "length (q_thr s) = 3" by (simp_all add: simple_main_inv_def)
  with assms(2) join have "v = 2 * int i" by (auto simp: threads_inv_def thread_inv_def)
  moreover have "(\<exists>v. q_thr t ! j = TP_Joined v) \<longleftrightarrow> j < Suc i" if "j < 3" for j
  proof (cases "j = i")
    case False
    with that assms(1) no_perror [OF assms(1)] join i show ?thesis by (auto simp: simple_main_inv_def)
  qed (use join i in simp)
  ultimately show ?thesis
    using assms(1) no_perror [OF assms(1)] join i by (simp add: simple_main_inv_def)
next
  case (print i v)
  with assms(1) no_perror [OF assms(1)] have i: "i < 3" "v = 2 * int i" by (simp_all add: simple_main_inv_def)
  show ?thesis
  proof (cases "i = 2")
    case True
    with assms(1) no_perror [OF assms(1)] print i show ?thesis by (simp add: simple_main_inv_def returned_Suc [of 2, simplified])
  next
    case False
    with assms(1) no_perror [OF assms(1)] print i show ?thesis by (simp add: simple_main_inv_def returned_Suc)
  qed
qed

lemma threads_inv_main:
  assumes "simple_main_inv s" and "threads_inv s" and "demo_simple_threads ok s = Some t"
  shows "threads_inv t"
  using assms(3)
proof (cases rule: demo_simple_cases)
  case (create i)
  have "filter (of_thread (int (length (q_thr s)))) (q_log s) = []"
    using assms(2) by (auto simp: threads_inv_def filter_empty_conv)
  with create assms(2) show ?thesis
    by (auto simp: threads_inv_def thread_inv_def nth_append less_Suc_eq, fastforce)
next
  case (join i v)
  with assms(1) no_perror [OF assms(1)] have i: "i < length (q_thr s)" by (simp add: simple_main_inv_def)
  have "thread_inv j (q_thr t ! j) (q_log t)" if "j < length (q_thr s)" for j
    using that assms(2) join i by (cases "j = i") (auto simp: threads_inv_def thread_inv_def)
  with assms(2) join show ?thesis by (simp add: threads_inv_def)
qed (use assms(2) in \<open>auto simp: threads_inv_def thread_inv_def\<close>)

fun qpc_left :: "qpc \<Rightarrow> nat" where
  "qpc_left Q_Header = 26"
| "qpc_left (Q_Create i) = 7 + 6 * (3 - i)"
| "qpc_left (Q_Join i) = 2 * (3 - i)"
| "qpc_left (Q_Print i v) = 2 * (3 - i) - 1"
| "qpc_left Q_Return = 0"

definition simple_threads_measure :: "qstate \<Rightarrow> nat" where
  "simple_threads_measure s = qpc_left (q_pc s) + sum_list (map tpc_left (q_thr s))"

lemma simple_threads_measure_main:
  assumes "simple_main_inv s" and "demo_simple_threads ok s = Some t"
  shows "simple_threads_measure t < simple_threads_measure s"
  using assms(2)
proof (cases rule: demo_simple_cases)
  case (create i)
  with assms(1) no_perror [OF assms(1)] have "i < 3" by (simp add: simple_main_inv_def)
  with create show ?thesis by (auto simp: simple_threads_measure_def)
next
  case (join i v)
  with assms(1) no_perror [OF assms(1)] have i: "i < 3" "length (q_thr s) = 3" by (simp_all add: simple_main_inv_def)
  with join have "sum_list (map tpc_left ((q_thr s)[i := TP_Joined v])) < sum_list (map tpc_left (q_thr s))"
    by (intro sum_list_update_less) simp_all
  with join i show ?thesis by (simp add: simple_threads_measure_def)
next
  case (print i v)
  with assms(1) no_perror [OF assms(1)] have "i < 3" by (simp add: simple_main_inv_def)
  with print show ?thesis by (auto simp: simple_threads_measure_def)
qed (auto simp: simple_threads_measure_def)

lemma simple_threads_measure_thread:
  assumes "run_thread j s = Some t"
  shows "simple_threads_measure t < simple_threads_measure s"
  using assms
proof (cases rule: run_threadE)
  case (1 p ls)
  with sum_list_update_less [of j "q_thr s" tpc_left p] simple_thread_left show ?thesis
    by (auto simp: simple_threads_measure_def)
qed

definition simple_threads_inv :: "qstate \<Rightarrow> bool" where
  "simple_threads_inv s \<longleftrightarrow> simple_main_inv s \<and> threads_inv s"

definition simple_threads_final :: "qstate \<Rightarrow> bool" where
  "simple_threads_final s \<longleftrightarrow> q_pc s = Q_Return \<and> list_all tpc_over (q_thr s)"

lemma simple_threads_progress:
  assumes "simple_threads_inv s" and "\<not> simple_threads_final s"
  shows "\<exists>t. simple_threads_step s t"
proof (cases "list_all tpc_over (q_thr s)")
  case False
  then obtain j where "j < length (q_thr s)" "\<not> tpc_over (q_thr s ! j)" by (auto simp: list_all_length)
  with simple_thread_steps [of "q_thr s ! j" "int j"] have "simple_threads_act (Q_Thread j) s \<noteq> None"
    by (auto simp: run_thread_def)
  then show ?thesis by blast
next
  case True
  with assms(2) have r: "q_pc s \<noteq> Q_Return" by (simp add: simple_threads_final_def)
  from assms(1) have m: "simple_main_inv s" by (simp add: simple_threads_inv_def)
  have "simple_threads_act (Q_Main True) s \<noteq> None"
  proof (cases "q_pc s")
    case (Q_Join i)
    with m no_perror [OF m r] have "i < 3" "length (q_thr s) = 3" "\<not> (\<exists>v. q_thr s ! i = TP_Joined v)"
      by (auto simp: simple_main_inv_def)
    with True have "tpc_over (q_thr s ! i)" by (simp add: list_all_length)
    with \<open>\<not> (\<exists>v. q_thr s ! i = TP_Joined v)\<close> obtain v where "q_thr s ! i = TP_Ended v" by (cases "q_thr s ! i") auto
    with Q_Join show ?thesis by (simp add: demo_simple_threads_def)
  qed (use r in \<open>simp_all add: demo_simple_threads_def\<close>)
  then show ?thesis by blast
qed

interpretation simple_threads_sys: live_system simple_threads_step simple_threads_start simple_threads_inv
  simple_threads_measure simple_threads_final
proof
  show "simple_threads_inv simple_threads_start"
    by (simp add: simple_threads_inv_def simple_main_inv_def threads_inv_def simple_threads_start_def)
next
  fix s t
  assume I: "simple_threads_inv s" and "simple_threads_step s t"
  then obtain a where a: "simple_threads_act a s = Some t" by (auto elim: step_ofE)
  from I have i: "simple_main_inv s" "threads_inv s" by (simp_all add: simple_threads_inv_def)
  have "simple_threads_inv t \<and> simple_threads_measure t < simple_threads_measure s"
  proof (cases a)
    case (Q_Main ok)
    with a have t: "demo_simple_threads ok s = Some t" by simp
    from simple_main_inv_main [OF i t] threads_inv_main [OF i t] simple_threads_measure_main [OF i(1) t]
    show ?thesis by (simp add: simple_threads_inv_def)
  next
    case (Q_Thread j)
    with a have t: "run_thread j s = Some t" by simp
    from simple_main_inv_thread [OF i(1) t] threads_inv_thread [OF i(2) t] simple_threads_measure_thread [OF t]
    show ?thesis by (simp add: simple_threads_inv_def)
  qed
  then show "simple_threads_inv t" and "simple_threads_measure t < simple_threads_measure s" by simp_all
qed (rule simple_threads_progress)

lemma simple_threads_done:
  assumes "simple_threads_inv s" and "q_pc s = Q_Return" and "TL_Perror \<notin> set (q_log s)"
  shows "filter of_main (q_log s) = [TL_Header, TL_Returned 0 0, TL_Returned 1 2, TL_Returned 2 4]
    \<and> q_thr s = [TP_Joined 0, TP_Joined 2, TP_Joined 4]
    \<and> map (\<lambda>i. filter (of_thread i) (q_log s)) [0, 1, 2]
      = [[TL_Started 0, TL_Finished 0], [TL_Started 1, TL_Finished 1], [TL_Started 2, TL_Finished 2]]"
proof -
  from assms(1) have I: "simple_main_inv s" "threads_inv s" by (simp_all add: simple_threads_inv_def)
  from I(1) assms(2,3) have main: "filter of_main (q_log s) = TL_Header # returned_lines 3" and len: "length (q_thr s) = 3"
    and joined: "\<forall>j < 3. \<exists>v. q_thr s ! j = TP_Joined v" by (simp_all add: simple_main_inv_def)
  have thr: "q_thr s ! j = TP_Joined (2 * int j)" "filter (of_thread (int j)) (q_log s) = [TL_Started (int j), TL_Finished (int j)]"
    if "j < 3" for j
  proof -
    from I(2) len that have "thread_inv j (q_thr s ! j) (q_log s)" by (simp add: threads_inv_def)
    with joined that show "q_thr s ! j = TP_Joined (2 * int j)"
      "filter (of_thread (int j)) (q_log s) = [TL_Started (int j), TL_Finished (int j)]" by (auto simp: thread_inv_def)
  qed
  have "q_thr s = map (\<lambda>j. q_thr s ! j) [0..<3]" using len by (metis map_nth)
  then have "q_thr s = [TP_Joined 0, TP_Joined 2, TP_Joined 4]" using thr(1) by (simp add: upt_rec)
  with main thr(2) [of 0] thr(2) [of 1] thr(2) [of 2] show ?thesis by (simp add: returned_lines_def upt_rec)
qed

text \<open>
  When \<open>demo_simple_threads\<close> returns and every \<^verbatim>\<open>pthread_create\<close> has succeeded, in whatever interleaving, the main thread
  has reported the threads in order with twice their number, every thread has printed that it started and then that it
  finished, each exactly once, and all three are joined.
\<close>

theorem simple_threads_result:
  assumes "simple_threads_step\<^sup>*\<^sup>* simple_threads_start s" and "q_pc s = Q_Return" and "TL_Perror \<notin> set (q_log s)"
  shows "filter of_main (q_log s) = [TL_Header, TL_Returned 0 0, TL_Returned 1 2, TL_Returned 2 4]
    \<and> q_thr s = [TP_Joined 0, TP_Joined 2, TP_Joined 4]
    \<and> map (\<lambda>i. filter (of_thread i) (q_log s)) [0, 1, 2]
      = [[TL_Started 0, TL_Finished 0], [TL_Started 1, TL_Finished 1], [TL_Started 2, TL_Finished 2]]"
  using simple_threads_sys.reach_inv [OF assms(1)] assms(2,3) by (rule simple_threads_done)

definition simple_threads_sched :: "qactor list" where
  "simple_threads_sched = [Q_Main True, Q_Main True, Q_Main True, Q_Main True, Q_Thread 2, Q_Thread 0, Q_Thread 0, Q_Thread 1,
     Q_Thread 2, Q_Thread 2, Q_Thread 2, Q_Thread 0, Q_Thread 0, Q_Main True, Q_Main True, Q_Thread 1, Q_Thread 1, Q_Thread 1,
     Q_Main True, Q_Main True, Q_Main True, Q_Main True]"

lemma simple_threads_finish:
  "\<exists>s. simple_threads_step\<^sup>*\<^sup>* simple_threads_start s \<and> q_pc s = Q_Return \<and> TL_Perror \<notin> set (q_log s)"
  by (rule run_sched_witness [where as = simple_threads_sched])
    (simp add: simple_threads_sched_def simple_threads_start_def demo_simple_threads_def run_thread_def)

theorem simple_threads_result_witness:
  "\<exists>s. simple_threads_step\<^sup>*\<^sup>* simple_threads_start s \<and> q_pc s = Q_Return \<and> q_thr s = [TP_Joined 0, TP_Joined 2, TP_Joined 4]"
  using simple_threads_finish simple_threads_result by blast

section \<open>demo thread attributes\<close>

text \<open>The statements of lines 126 to 155; the detached thread runs \<open>simple_thread\<close> with argument 99.\<close>

datatype xpc = X_Header | X_Init | X_Detach | X_Stack | X_Print | X_Create | X_Undo | X_Destroy | X_Sleep | X_Completed | X_Return

text \<open>
  An attribute object; no stack size of its own means the default of the system. The two setters change it; their arguments are
  valid, so they do not fail. \<open>x_attr\<close> is \<^verbatim>\<open>attr\<close> while it is initialised, \<open>x_made\<close> what the thread was created with.
\<close>

record thread_attr =
  at_detached :: bool
  at_stack :: "nat option"

definition pthread_attr_init :: thread_attr where
  "pthread_attr_init = \<lparr>at_detached = False, at_stack = None\<rparr>"

definition pthread_attr_setdetachstate :: "bool \<Rightarrow> thread_attr \<Rightarrow> thread_attr" where
  "pthread_attr_setdetachstate d a = a\<lparr>at_detached := d\<rparr>"

definition pthread_attr_setstacksize :: "nat \<Rightarrow> thread_attr \<Rightarrow> thread_attr" where
  "pthread_attr_setstacksize n a = a\<lparr>at_stack := Some n\<rparr>"

record xstate =
  x_pc :: xpc
  x_attr :: "thread_attr option"
  x_made :: "thread_attr option"
  x_thr :: "tpc option"
  x_log :: "tline list"

definition demo_thread_attributes :: "bool \<Rightarrow> xstate \<Rightarrow> xstate option" where
  "demo_thread_attributes ok s =
     (case x_pc s of
        X_Header \<Rightarrow> Some (s\<lparr>x_log := x_log s @ [TL_Attr_Header], x_pc := X_Init\<rparr>)
      | X_Init \<Rightarrow> Some (s\<lparr>x_attr := Some pthread_attr_init, x_pc := X_Detach\<rparr>)
      | X_Detach \<Rightarrow> Some (s\<lparr>x_attr := map_option (pthread_attr_setdetachstate True) (x_attr s), x_pc := X_Stack\<rparr>)
      | X_Stack \<Rightarrow> Some (s\<lparr>x_attr := map_option (pthread_attr_setstacksize (2 * 1024 * 1024)) (x_attr s), x_pc := X_Print\<rparr>)
      | X_Print \<Rightarrow> Some (s\<lparr>x_log := x_log s @ [TL_Creating], x_pc := X_Create\<rparr>)
      | X_Create \<Rightarrow>
          Some (if ok then s\<lparr>x_thr := Some TP_Started, x_made := x_attr s, x_pc := X_Destroy\<rparr>
                else s\<lparr>x_log := x_log s @ [TL_Perror], x_pc := X_Undo\<rparr>)
      | X_Undo \<Rightarrow> Some (s\<lparr>x_attr := None, x_pc := X_Return\<rparr>)
      | X_Destroy \<Rightarrow> Some (s\<lparr>x_attr := None, x_pc := X_Sleep\<rparr>)
      | X_Sleep \<Rightarrow> Some (s\<lparr>x_pc := X_Completed\<rparr>)
      | X_Completed \<Rightarrow> Some (s\<lparr>x_log := x_log s @ [TL_Completed], x_pc := X_Return\<rparr>)
      | X_Return \<Rightarrow> None)"

definition run_detached :: "xstate \<Rightarrow> xstate option" where
  "run_detached s =
     (case x_thr s of
        None \<Rightarrow> None
      | Some p \<Rightarrow> map_option (\<lambda>(p', ls). s\<lparr>x_thr := Some p', x_log := x_log s @ ls\<rparr>) (simple_thread 99 p))"

datatype xactor = X_Main bool | X_Thread

fun attributes_act :: "xactor \<Rightarrow> xstate \<Rightarrow> xstate option" where
  "attributes_act (X_Main ok) s = demo_thread_attributes ok s"
| "attributes_act X_Thread s = run_detached s"

definition attributes_start :: xstate where
  "attributes_start = \<lparr>x_pc = X_Header, x_attr = None, x_made = None, x_thr = None, x_log = []\<rparr>"

abbreviation attributes_step :: "xstate \<Rightarrow> xstate \<Rightarrow> bool" where
  "attributes_step \<equiv> step_of attributes_act"

fun xpc_left :: "xpc \<Rightarrow> nat" where
  "xpc_left X_Header = 14"
| "xpc_left X_Init = 13"
| "xpc_left X_Detach = 12"
| "xpc_left X_Stack = 11"
| "xpc_left X_Print = 10"
| "xpc_left X_Create = 9"
| "xpc_left X_Undo = 1"
| "xpc_left X_Destroy = 3"
| "xpc_left X_Sleep = 2"
| "xpc_left X_Completed = 1"
| "xpc_left X_Return = 0"

definition attributes_measure :: "xstate \<Rightarrow> nat" where
  "attributes_measure s = xpc_left (x_pc s) + (case x_thr s of None \<Rightarrow> 0 | Some p \<Rightarrow> tpc_left p)"

text \<open>The attribute object is destroyed on every path, and the thread is detached and has two megabytes of stack.\<close>

definition detached_2mb :: thread_attr where
  "detached_2mb = \<lparr>at_detached = True, at_stack = Some 2097152\<rparr>"

fun attr_at :: "xpc \<Rightarrow> thread_attr option" where
  "attr_at X_Detach = Some pthread_attr_init"
| "attr_at X_Stack = Some (pthread_attr_setdetachstate True pthread_attr_init)"
| "attr_at X_Print = Some detached_2mb"
| "attr_at X_Create = Some detached_2mb"
| "attr_at X_Undo = Some detached_2mb"
| "attr_at X_Destroy = Some detached_2mb"
| "attr_at pc = None"

lemmas attr_defs = detached_2mb_def pthread_attr_init_def pthread_attr_setdetachstate_def pthread_attr_setstacksize_def

definition attributes_inv :: "xstate \<Rightarrow> bool" where
  "attributes_inv s \<longleftrightarrow> x_attr s = attr_at (x_pc s) \<and> x_made s = (if x_thr s = None then None else Some detached_2mb) \<and>
     (x_thr s \<noteq> None \<longrightarrow> x_pc s \<in> {X_Destroy, X_Sleep, X_Completed, X_Return})"

lemma attributes_main:
  assumes "attributes_inv s" and "demo_thread_attributes ok s = Some t"
  shows "attributes_inv t \<and> attributes_measure t < attributes_measure s"
  using assms
  by (cases "x_pc s"; cases ok; clarsimp simp: demo_thread_attributes_def attributes_inv_def attributes_measure_def attr_defs)

lemma attributes_thread:
  assumes "attributes_inv s" and "run_detached s = Some t"
  shows "attributes_inv t \<and> attributes_measure t < attributes_measure s"
  using assms by (auto simp: run_detached_def attributes_inv_def attributes_measure_def dest: simple_thread_left split: option.splits)

interpretation attributes_sys: live_system attributes_step attributes_start attributes_inv attributes_measure "\<lambda>s. x_pc s = X_Return"
proof
  show "attributes_inv attributes_start" by (simp add: attributes_inv_def attributes_start_def)
next
  fix s t
  assume I: "attributes_inv s" and "attributes_step s t"
  then obtain a where "attributes_act a s = Some t" by (auto elim: step_ofE)
  then have "attributes_inv t \<and> attributes_measure t < attributes_measure s"
    by (cases a) (auto dest: attributes_main [OF I] attributes_thread [OF I])
  then show "attributes_inv t" and "attributes_measure t < attributes_measure s" by simp_all
next
  fix s :: xstate
  assume "x_pc s \<noteq> X_Return"
  then have "attributes_act (X_Main True) s \<noteq> None" by (cases "x_pc s") (simp_all add: demo_thread_attributes_def)
  then show "\<exists>t. attributes_step s t" by blast
qed

definition attributes_sched :: "xactor list" where
  "attributes_sched = [X_Main True, X_Main True, X_Main True, X_Main True, X_Main True, X_Main True, X_Main True, X_Main True, X_Main True]"

text \<open>
  Nothing makes the main thread wait for the detached thread: there is a run in which it prints that the thread has completed
  before the thread has even started.
\<close>

theorem detached_not_awaited:
  "\<exists>s. attributes_step\<^sup>*\<^sup>* attributes_start s \<and> x_pc s = X_Return \<and> x_thr s = Some TP_Started
     \<and> x_log s = [TL_Attr_Header, TL_Creating, TL_Completed]"
  by (rule run_sched_witness [where as = attributes_sched])
    (simp add: attributes_sched_def attributes_start_def demo_thread_attributes_def)

end
