(* ===== verification/Threads_Local.thy ===== *)
theory Threads_Local
  imports C_Library
begin

text \<open>
  Thread-local storage in \<^verbatim>\<open>src/examples/threads_demo.c\<close>: \<^verbatim>\<open>tls_thread\<close>, \<^verbatim>\<open>tls_destructor\<close> and
  \<^verbatim>\<open>demo_thread_local_storage\<close>. The program checks the result of none of its calls; the record \<open>tls_env\<close> says which of
  them succeed. A call with a key that was not created, or a join of a thread that was not, is undefined behaviour, a state
  in which nothing more is known: \<open>LM_UB\<close>.
\<close>

record tls_env =
  e_key :: bool
  e_create :: "nat \<Rightarrow> bool"
  e_set :: "nat \<Rightarrow> bool"

section \<open>The threads\<close>

text \<open>\<open>LP_None\<close>: not created; \<open>LP_Dtor v\<close>: the destructor is called with \<open>v\<close> after the thread function has returned.\<close>

datatype lpc = LP_None | LP_Set | LP_Get | LP_Print int | LP_Return | LP_Dtor int | LP_Ended

datatype lmpc = LM_Header | LM_Key | LM_Create nat | LM_Join nat | LM_Delete | LM_Return | LM_UB

datatype lline = LL_Header | LL_Value int int | LL_Dtor int

fun lline_text :: "lline \<Rightarrow> string" where
  "lline_text LL_Header = ''\<newline>=== Thread-Local Storage Demo ===\<newline>''"
| "lline_text (LL_Value n v) = ''[Thread '' @ show_int n @ ''] My TLS value: '' @ show_int v @ ''\<newline>''"
| "lline_text (LL_Dtor v) = ''[Destructor] Freeing TLS value: '' @ show_int v @ ''\<newline>''"

text \<open>\<open>l_key\<close>: the key exists; \<open>l_tls\<close>: the value every thread has under it, 0 standing for \<^verbatim>\<open>NULL\<close>.\<close>

record lstate =
  l_pc :: lmpc
  l_key :: bool
  l_thr :: "lpc list"
  l_tls :: "int list"
  l_log :: "lline list"

definition tls_destructor :: "int \<Rightarrow> lline list" where
  "tls_destructor v = [LL_Dtor v]"

text \<open>
  One statement of the thread with argument \<open>j\<close> (lines 164 to 175). When the function has returned and the key has a
  destructor, a value other than \<^verbatim>\<open>NULL\<close> is replaced by \<^verbatim>\<open>NULL\<close> and given to the destructor.
\<close>

definition tls_thread :: "tls_env \<Rightarrow> nat \<Rightarrow> lstate \<Rightarrow> lstate option" where
  "tls_thread e j s =
     (case l_thr s ! j of
        LP_None \<Rightarrow> None
      | LP_Set \<Rightarrow>
          Some (if l_key s then
                  s\<lparr>l_tls := (if e_set e j then (l_tls s)[j := int j * 100] else l_tls s), l_thr := (l_thr s)[j := LP_Get]\<rparr>
                else s\<lparr>l_pc := LM_UB\<rparr>)
      | LP_Get \<Rightarrow>
          Some (if l_key s then s\<lparr>l_thr := (l_thr s)[j := LP_Print (l_tls s ! j)]\<rparr> else s\<lparr>l_pc := LM_UB\<rparr>)
      | LP_Print v \<Rightarrow> Some (s\<lparr>l_log := l_log s @ [LL_Value (int j) v], l_thr := (l_thr s)[j := LP_Return]\<rparr>)
      | LP_Return \<Rightarrow>
          Some (if l_key s \<and> l_tls s ! j \<noteq> 0
                then s\<lparr>l_thr := (l_thr s)[j := LP_Dtor (l_tls s ! j)], l_tls := (l_tls s)[j := 0]\<rparr>
                else s\<lparr>l_thr := (l_thr s)[j := LP_Ended]\<rparr>)
      | LP_Dtor v \<Rightarrow> Some (s\<lparr>l_log := l_log s @ tls_destructor v, l_thr := (l_thr s)[j := LP_Ended]\<rparr>)
      | LP_Ended \<Rightarrow> None)"

section \<open>The main thread\<close>

text \<open>The statements of lines 177 to 194.\<close>

definition demo_thread_local_storage :: "tls_env \<Rightarrow> lstate \<Rightarrow> lstate option" where
  "demo_thread_local_storage e s =
     (case l_pc s of
        LM_Header \<Rightarrow> Some (s\<lparr>l_log := l_log s @ [LL_Header], l_pc := LM_Key\<rparr>)
      | LM_Key \<Rightarrow> Some (s\<lparr>l_key := e_key e, l_pc := LM_Create 0\<rparr>)
      | LM_Create i \<Rightarrow>
          Some (s\<lparr>l_thr := (if e_create e i then (l_thr s)[i := LP_Set] else l_thr s),
                  l_pc := (if i + 1 < 3 then LM_Create (i + 1) else LM_Join 0)\<rparr>)
      | LM_Join i \<Rightarrow>
          (case l_thr s ! i of
             LP_None \<Rightarrow> Some (s\<lparr>l_pc := LM_UB\<rparr>)
           | LP_Ended \<Rightarrow> Some (s\<lparr>l_pc := (if i + 1 < 3 then LM_Join (i + 1) else LM_Delete)\<rparr>)
           | _ \<Rightarrow> None)
      | LM_Delete \<Rightarrow> Some (if l_key s then s\<lparr>l_key := False, l_pc := LM_Return\<rparr> else s\<lparr>l_pc := LM_UB\<rparr>)
      | LM_Return \<Rightarrow> None
      | LM_UB \<Rightarrow> None)"

datatype lactor = L_Main | L_Thread nat

fun tls_act :: "tls_env \<Rightarrow> lactor \<Rightarrow> lstate \<Rightarrow> lstate option" where
  "tls_act e L_Main s = demo_thread_local_storage e s"
| "tls_act e (L_Thread j) s = (if j < 3 \<and> l_pc s \<noteq> LM_UB then tls_thread e j s else None)"

definition tls_start :: lstate where
  "tls_start = \<lparr>l_pc = LM_Header, l_key = False, l_thr = [LP_None, LP_None, LP_None], l_tls = [0, 0, 0], l_log = []\<rparr>"

abbreviation tls_step :: "tls_env \<Rightarrow> lstate \<Rightarrow> lstate \<Rightarrow> bool" where
  "tls_step e \<equiv> step_of (tls_act e)"

section \<open>The invariant\<close>

definition own_value :: "tls_env \<Rightarrow> nat \<Rightarrow> int" where
  "own_value e j = (if e_set e j then int j * 100 else 0)"

fun of_tls :: "nat \<Rightarrow> lline \<Rightarrow> bool" where
  "of_tls j LL_Header \<longleftrightarrow> False"
| "of_tls j (LL_Value n v) \<longleftrightarrow> n = int j"
| "of_tls j (LL_Dtor v) \<longleftrightarrow> v = int j * 100"

text \<open>All a thread prints: its value, and the destructor's line when the value is not \<^verbatim>\<open>NULL\<close>.\<close>

definition tls_lines :: "tls_env \<Rightarrow> nat \<Rightarrow> lline list" where
  "tls_lines e j = LL_Value (int j) (own_value e j) # (if own_value e j = 0 then [] else [LL_Dtor (own_value e j)])"

text \<open>The value and the lines of thread \<open>j\<close> at each of its points.\<close>

fun tls_at :: "tls_env \<Rightarrow> nat \<Rightarrow> lpc \<Rightarrow> int \<Rightarrow> lline list \<Rightarrow> bool" where
  "tls_at e j LP_None x ls \<longleftrightarrow> x = 0 \<and> ls = []"
| "tls_at e j LP_Set x ls \<longleftrightarrow> x = 0 \<and> ls = []"
| "tls_at e j LP_Get x ls \<longleftrightarrow> x = own_value e j \<and> ls = []"
| "tls_at e j (LP_Print v) x ls \<longleftrightarrow> x = own_value e j \<and> v = x \<and> ls = []"
| "tls_at e j LP_Return x ls \<longleftrightarrow> x = own_value e j \<and> ls = [LL_Value (int j) x]"
| "tls_at e j (LP_Dtor v) x ls \<longleftrightarrow> x = 0 \<and> v = own_value e j \<and> v \<noteq> 0 \<and> ls = [LL_Value (int j) v]"
| "tls_at e j LP_Ended x ls \<longleftrightarrow> x = 0 \<and> ls = tls_lines e j"

text \<open>Which threads exist and which have ended at each point of the main thread, and when the key exists.\<close>

fun created_to :: "lmpc \<Rightarrow> nat" where
  "created_to LM_Header = 0"
| "created_to LM_Key = 0"
| "created_to (LM_Create i) = i"
| "created_to _ = 3"

fun joined_to :: "lmpc \<Rightarrow> nat" where
  "joined_to (LM_Join i) = i"
| "joined_to LM_Delete = 3"
| "joined_to LM_Return = 3"
| "joined_to _ = 0"

definition tls_main_at :: "tls_env \<Rightarrow> lmpc \<Rightarrow> bool \<Rightarrow> (nat \<Rightarrow> lpc) \<Rightarrow> bool" where
  "tls_main_at e p k T \<longleftrightarrow>
     (\<forall>j < 3. (T j = LP_None \<longleftrightarrow> \<not> (j < created_to p \<and> e_create e j)) \<and> (j < joined_to p \<longrightarrow> T j = LP_Ended) \<and>
        (T j \<noteq> LP_None \<and> T j \<noteq> LP_Set \<longrightarrow> e_key e)) \<and>
     (k \<longleftrightarrow> e_key e \<and> p \<notin> {LM_Header, LM_Key, LM_Return}) \<and>
     (\<forall>i. p = LM_Create i \<or> p = LM_Join i \<longrightarrow> i < 3)"

definition tls_ok :: "tls_env \<Rightarrow> bool" where
  "tls_ok e \<longleftrightarrow> e_key e \<and> e_create e 0 \<and> e_create e 1 \<and> e_create e 2"

definition tls_inv :: "tls_env \<Rightarrow> lstate \<Rightarrow> bool" where
  "tls_inv e s \<longleftrightarrow> length (l_thr s) = 3 \<and> length (l_tls s) = 3 \<and>
     (if l_pc s = LM_UB then \<not> tls_ok e
      else (\<forall>j < 3. tls_at e j (l_thr s ! j) (l_tls s ! j) (filter (of_tls j) (l_log s)))
        \<and> tls_main_at e (l_pc s) (l_key s) (\<lambda>j. l_thr s ! j))"

lemma list_update_same: "xs ! j = v \<Longrightarrow> xs[j := v] = xs"
  by auto

lemma less_3_cases: "(j::nat) < 3 \<longleftrightarrow> j = 0 \<or> j = 1 \<or> j = 2"
  by auto

lemma all_less_3: "(\<forall>j < 3. P j) \<longleftrightarrow> P 0 \<and> P 1 \<and> P (2 :: nat)"
  by (auto simp: less_3_cases)

text \<open>While a thread is running the key exists, if it ever did.\<close>

lemma tls_key_alive:
  assumes "tls_main_at e p k T" and "j < 3" and "T j \<noteq> LP_None" and "T j \<noteq> LP_Ended"
  shows "k \<longleftrightarrow> e_key e" and "T j \<noteq> LP_Set \<Longrightarrow> k"
proof -
  from assms have "p \<noteq> LM_Header" "p \<noteq> LM_Key" "p \<noteq> LM_Return" by (auto simp: tls_main_at_def)
  with assms show "k \<longleftrightarrow> e_key e" and "T j \<noteq> LP_Set \<Longrightarrow> k" by (simp_all add: tls_main_at_def)
qed

text \<open>A step of a thread: an undefined call, or its next point \<open>p\<close>, its value \<open>x\<close> and what it prints.\<close>

lemma tls_thread_cases:
  assumes "tls_thread e j s = Some t" and "length (l_thr s) = 3" "length (l_tls s) = 3" and "j < 3"
    and "tls_at e j (l_thr s ! j) (l_tls s ! j) (filter (of_tls j) (l_log s))"
    and "tls_main_at e (l_pc s) (l_key s) (\<lambda>j. l_thr s ! j)"
  obtains (undefined) "t = s\<lparr>l_pc := LM_UB\<rparr>" "\<not> e_key e"
  | (defined) p x ls where "t = s\<lparr>l_thr := (l_thr s)[j := p], l_tls := (l_tls s)[j := x], l_log := l_log s @ ls\<rparr>"
      "tls_at e j p x (filter (of_tls j) (l_log s) @ ls)" "filter (of_tls j) ls = ls"
      "\<And>i. i \<noteq> j \<Longrightarrow> filter (of_tls i) ls = []" "p \<noteq> LP_None" "p \<noteq> LP_Set" "l_thr s ! j \<noteq> LP_None" "l_thr s ! j \<noteq> LP_Ended"
      "e_key e"
proof (cases "l_thr s ! j")
  case LP_Set
  with tls_key_alive(1) [OF assms(6,4)] have k: "l_key s \<longleftrightarrow> e_key e" by simp
  show ?thesis
  proof (cases "e_key e")
    case True
    with LP_Set assms k show ?thesis
      by (intro defined [where p = LP_Get and x = "own_value e j" and ls = "[]"]) (auto simp: tls_thread_def own_value_def list_update_same)
  qed (use LP_Set assms k in \<open>auto simp: tls_thread_def intro: undefined\<close>)
next
  case LP_Get
  with tls_key_alive [OF assms(6,4)] assms show ?thesis
    by (intro defined [where p = "LP_Print (l_tls s ! j)" and x = "l_tls s ! j" and ls = "[]"])
      (auto simp: tls_thread_def list_update_same)
next
  case (LP_Print v)
  with tls_key_alive [OF assms(6,4)] assms show ?thesis
    by (intro defined [where p = LP_Return and x = "l_tls s ! j" and ls = "[LL_Value (int j) v]"])
      (auto simp: tls_thread_def list_update_same)
next
  case LP_Return
  with tls_key_alive [OF assms(6,4)] have k: "l_key s" "e_key e" by simp_all
  show ?thesis
  proof (cases "l_tls s ! j = 0")
    case True
    with LP_Return assms k show ?thesis
      by (intro defined [where p = LP_Ended and x = 0 and ls = "[]"])
        (auto simp: tls_thread_def tls_lines_def list_update_same)
  next
    case False
    with LP_Return assms k show ?thesis
      by (intro defined [where p = "LP_Dtor (l_tls s ! j)" and x = 0 and ls = "[]"]) (auto simp: tls_thread_def)
  qed
next
  case (LP_Dtor v)
  with tls_key_alive [OF assms(6,4)] assms show ?thesis
    by (intro defined [where p = LP_Ended and x = 0 and ls = "[LL_Dtor v]"])
      (auto simp: tls_thread_def tls_destructor_def tls_lines_def own_value_def list_update_same split: if_splits)
qed (use assms in \<open>simp_all add: tls_thread_def\<close>)

lemma tls_inv_thread:
  assumes "tls_inv e s" and "l_pc s \<noteq> LM_UB" and "j < 3" and "tls_thread e j s = Some t"
  shows "tls_inv e t"
proof -
  from assms(1,2) have len: "length (l_thr s) = 3" "length (l_tls s) = 3"
    and at: "\<And>i. i < 3 \<Longrightarrow> tls_at e i (l_thr s ! i) (l_tls s ! i) (filter (of_tls i) (l_log s))"
    and m: "tls_main_at e (l_pc s) (l_key s) (\<lambda>j. l_thr s ! j)" by (simp_all add: tls_inv_def)
  from assms(4) len assms(3) at [OF assms(3)] m show ?thesis
  proof (cases rule: tls_thread_cases)
    case undefined
    with len show ?thesis by (simp add: tls_inv_def tls_ok_def)
  next
    case (defined p x ls)
    have "tls_at e i (l_thr t ! i) (l_tls t ! i) (filter (of_tls i) (l_log t))" if "i < 3" for i
      using that at [OF that] defined assms(3) len by (cases "i = j") simp_all
    moreover have "tls_main_at e (l_pc t) (l_key t) (\<lambda>i. l_thr t ! i)"
      using m defined assms(3) len by (auto simp: tls_main_at_def nth_list_update)
    ultimately show ?thesis using defined len assms(2) by (simp add: tls_inv_def)
  qed
qed

text \<open>The steps of the main thread.\<close>

lemma tls_main_cases:
  assumes "demo_thread_local_storage e s = Some t"
  obtains (header) "l_pc s = LM_Header" "t = s\<lparr>l_log := l_log s @ [LL_Header], l_pc := LM_Key\<rparr>"
  | (key) "l_pc s = LM_Key" "t = s\<lparr>l_key := e_key e, l_pc := LM_Create 0\<rparr>"
  | (create) i where "l_pc s = LM_Create i" "t = s\<lparr>l_thr := (if e_create e i then (l_thr s)[i := LP_Set] else l_thr s),
                  l_pc := (if i + 1 < 3 then LM_Create (i + 1) else LM_Join 0)\<rparr>"
  | (undefined) i where "l_pc s = LM_Join i" "l_thr s ! i = LP_None" "t = s\<lparr>l_pc := LM_UB\<rparr>"
  | (join) i where "l_pc s = LM_Join i" "l_thr s ! i = LP_Ended"
      "t = s\<lparr>l_pc := (if i + 1 < 3 then LM_Join (i + 1) else LM_Delete)\<rparr>"
  | (delete) "l_pc s = LM_Delete" "l_key s" "t = s\<lparr>l_key := False, l_pc := LM_Return\<rparr>"
  | (lost) "l_pc s = LM_Delete" "\<not> l_key s" "t = s\<lparr>l_pc := LM_UB\<rparr>"
proof (cases "l_pc s")
  case (LM_Join i)
  with assms undefined [of i] join [of i] show ?thesis
    by (cases "l_thr s ! i") (auto simp: demo_thread_local_storage_def)
next
  case (LM_Create i)
  with assms create [of i] show ?thesis by (auto simp: demo_thread_local_storage_def)
qed (use assms header key delete lost in \<open>auto simp: demo_thread_local_storage_def split: if_splits\<close>)

lemma tls_inv_main:
  assumes "tls_inv e s" and "demo_thread_local_storage e s = Some t"
  shows "tls_inv e t"
proof -
  from assms have ub: "l_pc s \<noteq> LM_UB" by (auto simp: demo_thread_local_storage_def)
  with assms(1) have len: "length (l_thr s) = 3" "length (l_tls s) = 3"
    and at: "\<And>i. i < 3 \<Longrightarrow> tls_at e i (l_thr s ! i) (l_tls s ! i) (filter (of_tls i) (l_log s))"
    and m: "tls_main_at e (l_pc s) (l_key s) (\<lambda>j. l_thr s ! j)" by (simp_all add: tls_inv_def)
  from assms(2) show ?thesis
  proof (cases rule: tls_main_cases)
    case (create i)
    with m have i: "i < 3" "l_thr s ! i = LP_None" by (auto simp: tls_main_at_def)
    with create at [OF i(1)] at len have "\<forall>j < 3. tls_at e j (l_thr t ! j) (l_tls t ! j) (filter (of_tls j) (l_log t))"
      by (auto simp: nth_list_update)
    moreover have "tls_main_at e (l_pc t) (l_key t) (\<lambda>j. l_thr t ! j)"
      using m create i len by (auto simp: tls_main_at_def nth_list_update less_3_cases)
    ultimately show ?thesis using create len by (simp add: tls_inv_def)
  next
    case (undefined i)
    with m have "\<not> e_create e i" "i < 3" by (auto simp: tls_main_at_def)
    with undefined len show ?thesis by (auto simp: tls_inv_def tls_ok_def less_3_cases)
  next
    case (join i)
    with m have i: "i < 3" by (simp add: tls_main_at_def)
    have "tls_main_at e (l_pc t) (l_key t) (\<lambda>j. l_thr t ! j)"
    proof (cases "i = 2")
      case True
      with m join show ?thesis by (auto simp: tls_main_at_def all_less_3)
    next
      case False
      with m i join show ?thesis by (simp add: tls_main_at_def less_Suc_eq)
    qed
    with at len join show ?thesis by (simp add: tls_inv_def)
  next
    case lost
    with m len show ?thesis by (auto simp: tls_inv_def tls_main_at_def tls_ok_def)
  qed (use m at len in \<open>auto simp: tls_inv_def tls_main_at_def\<close>)
qed

section \<open>Termination\<close>

fun lpc_left :: "lpc \<Rightarrow> nat" where
  "lpc_left LP_None = 0"
| "lpc_left LP_Set = 5"
| "lpc_left LP_Get = 4"
| "lpc_left (LP_Print v) = 3"
| "lpc_left LP_Return = 2"
| "lpc_left (LP_Dtor v) = 1"
| "lpc_left LP_Ended = 0"

fun lmpc_left :: "lmpc \<Rightarrow> nat" where
  "lmpc_left LM_Header = 25"
| "lmpc_left LM_Key = 24"
| "lmpc_left (LM_Create i) = 5 + 6 * (3 - i)"
| "lmpc_left (LM_Join i) = 2 + (3 - i)"
| "lmpc_left LM_Delete = 2"
| "lmpc_left LM_Return = 1"
| "lmpc_left LM_UB = 0"

definition tls_measure :: "lstate \<Rightarrow> nat" where
  "tls_measure s = lmpc_left (l_pc s) + sum_list (map lpc_left (l_thr s))"

lemma tls_measure_thread:
  assumes "tls_inv e s" and "l_pc s \<noteq> LM_UB" and "j < 3" and "tls_thread e j s = Some t"
  shows "tls_measure t < tls_measure s"
proof -
  have j: "j < length (l_thr s)" using assms(1,3) by (simp add: tls_inv_def)
  note less = sum_list_update_less [where f = lpc_left, OF j]
  have "0 < lmpc_left (l_pc s)" using assms(2) by (cases "l_pc s") simp_all
  then show ?thesis using assms(4) less
    by (cases "l_thr s ! j") (auto simp: tls_thread_def tls_measure_def split: if_splits)
qed

lemma tls_measure_main:
  assumes "tls_inv e s" and "demo_thread_local_storage e s = Some t"
  shows "tls_measure t < tls_measure s"
  using assms(2)
proof (cases rule: tls_main_cases)
  case (create i)
  with assms(1) have i: "i < 3" "length (l_thr s) = 3" "l_thr s ! i = LP_None" by (auto simp: tls_inv_def tls_main_at_def)
  have "sum_list (map lpc_left ((l_thr s)[i := LP_Set])) = sum_list (map lpc_left (l_thr s)) + 5"
    using i by (simp add: map_update sum_list_update)
  with create i show ?thesis by (auto simp: tls_measure_def)
next
  case (join i)
  with assms(1) have "i < 3" by (auto simp: tls_inv_def tls_main_at_def)
  with join show ?thesis by (auto simp: tls_measure_def)
qed (auto simp: tls_measure_def)

definition tls_final :: "lstate \<Rightarrow> bool" where
  "tls_final s \<longleftrightarrow> l_pc s = LM_Return \<or> l_pc s = LM_UB"

lemma tls_thread_steps:
  "j < 3 \<Longrightarrow> l_pc s \<noteq> LM_UB \<Longrightarrow> l_thr s ! j \<noteq> LP_None \<Longrightarrow> l_thr s ! j \<noteq> LP_Ended \<Longrightarrow> tls_act e (L_Thread j) s \<noteq> None"
  by (cases "l_thr s ! j") (auto simp: tls_thread_def)

lemma tls_progress:
  assumes "tls_inv e s" and "\<not> tls_final s"
  shows "\<exists>t. tls_step e s t"
proof -
  from assms have ub: "l_pc s \<noteq> LM_UB" and m: "tls_main_at e (l_pc s) (l_key s) (\<lambda>j. l_thr s ! j)"
    by (auto simp: tls_inv_def tls_final_def)
  have "tls_act e L_Main s \<noteq> None \<or> (\<exists>j. tls_act e (L_Thread j) s \<noteq> None)"
  proof (cases "l_pc s")
    case (LM_Join i)
    with m have "i < 3" by (auto simp: tls_main_at_def)
    with LM_Join ub tls_thread_steps [of i s e] show ?thesis
      by (cases "l_thr s ! i") (auto simp: demo_thread_local_storage_def)
  qed (use assms(2) in \<open>simp_all add: demo_thread_local_storage_def tls_final_def\<close>)
  then show ?thesis by blast
qed

interpretation tls_sys: live_system "tls_step e" tls_start "tls_inv e" tls_measure tls_final for e
proof
  show "tls_inv e tls_start"
    by (simp add: tls_inv_def tls_start_def tls_main_at_def less_3_cases)
next
  fix s t
  assume I: "tls_inv e s" and "tls_step e s t"
  then obtain a where "tls_act e a s = Some t" by (auto elim: step_ofE)
  then have "tls_inv e t \<and> tls_measure t < tls_measure s"
    by (cases a) (auto dest: tls_inv_main [OF I] tls_measure_main [OF I] tls_inv_thread [OF I] tls_measure_thread [OF I] split: if_splits)
  then show "tls_inv e t" and "tls_measure t < tls_measure s" by simp_all
qed (rule tls_progress)

section \<open>The result\<close>

lemma tls_returned:
  assumes "tls_inv e s" and r: "l_pc s = LM_Return"
  shows "tls_ok e \<and> \<not> l_key s \<and> map (\<lambda>j. filter (of_tls j) (l_log s)) [0, 1, 2] = map (tls_lines e) [0, 1, 2]"
proof -
  from assms have m: "tls_main_at e LM_Return (l_key s) (\<lambda>j. l_thr s ! j)"
    and at: "\<forall>j < 3. tls_at e j (l_thr s ! j) (l_tls s ! j) (filter (of_tls j) (l_log s))" by (simp_all add: tls_inv_def)
  from m have all: "\<forall>j < 3. l_thr s ! j = LP_Ended" and k: "\<not> l_key s" by (simp_all add: tls_main_at_def)
  with m have "tls_ok e" by (auto simp: tls_main_at_def tls_ok_def less_3_cases)
  with k at all show ?thesis by (simp add: less_3_cases)
qed

text \<open>
  C28. However the threads interleave, a run that can go no further has returned, the key deleted, if the key and the three threads
  could be created, and has otherwise reached undefined behaviour. In the first case each thread has printed exactly its own
  value, 100 times its number (\<^verbatim>\<open>NULL\<close> when \<^verbatim>\<open>pthread_setspecific\<close> failed), and the destructor has run once for each value that
  is not \<^verbatim>\<open>NULL\<close>, after it was printed: so never for thread 0.
\<close>

theorem tls_result:
  assumes "(tls_step e)\<^sup>*\<^sup>* tls_start s" and "\<nexists>t. tls_step e s t"
  shows "if tls_ok e then l_pc s = LM_Return \<and> \<not> l_key s \<and>
      map (\<lambda>j. filter (of_tls j) (l_log s)) [0, 1, 2] = map (tls_lines e) [0, 1, 2]
    else l_pc s = LM_UB"
proof -
  from tls_sys.reach_inv [OF assms(1)] have I: "tls_inv e s" .
  from tls_sys.stuck_is_final [OF assms] have "l_pc s = LM_Return \<or> l_pc s = LM_UB" by (simp add: tls_final_def)
  with I tls_returned [OF I] show ?thesis by (auto simp: tls_inv_def)
qed

definition tls_sched :: "lactor list" where
  "tls_sched = [L_Main, L_Main, L_Main, L_Main, L_Main, L_Thread 2, L_Thread 1, L_Thread 2, L_Thread 0, L_Thread 1, L_Thread 0,
     L_Thread 0, L_Thread 0, L_Main, L_Thread 2, L_Thread 2, L_Thread 2, L_Thread 1, L_Thread 1, L_Thread 1, L_Main, L_Main, L_Main]"

definition tls_env_ok :: tls_env where
  "tls_env_ok = \<lparr>e_key = True, e_create = (\<lambda>_. True), e_set = (\<lambda>_. True)\<rparr>"

lemma tls_returned_stuck: "(tls_step e)\<^sup>*\<^sup>* tls_start s \<Longrightarrow> l_pc s = LM_Return \<Longrightarrow> \<nexists>t. tls_step e s t"
proof -
  assume "(tls_step e)\<^sup>*\<^sup>* tls_start s" and r: "l_pc s = LM_Return"
  from tls_sys.reach_inv [OF this(1)] r have "\<forall>j < 3. l_thr s ! j = LP_Ended" by (simp add: tls_inv_def tls_main_at_def)
  then have "tls_act e a s = None" for a
    using r by (cases a) (auto simp: demo_thread_local_storage_def tls_thread_def)
  then show "\<nexists>t. tls_step e s t" by (auto elim: step_ofE)
qed

lemma tls_finish: "\<exists>s. (tls_step tls_env_ok)\<^sup>*\<^sup>* tls_start s \<and> l_pc s = LM_Return"
  by (rule run_sched_witness [where as = tls_sched])
    (simp add: tls_sched_def tls_env_ok_def tls_start_def demo_thread_local_storage_def tls_thread_def)

theorem tls_result_witness:
  "\<exists>s. (tls_step tls_env_ok)\<^sup>*\<^sup>* tls_start s \<and> map (\<lambda>j. filter (of_tls j) (l_log s)) [0, 1, 2] =
     [[LL_Value 0 0], [LL_Value 1 100, LL_Dtor 100], [LL_Value 2 200, LL_Dtor 200]]"
proof -
  from tls_finish obtain s where r: "(tls_step tls_env_ok)\<^sup>*\<^sup>* tls_start s" "l_pc s = LM_Return" by blast
  from tls_result [OF r(1) tls_returned_stuck [OF r]] have
    "map (\<lambda>j. filter (of_tls j) (l_log s)) [0, 1, 2] = map (tls_lines tls_env_ok) [0, 1, 2]"
    by (simp add: tls_ok_def tls_env_ok_def split: if_splits)
  then have "map (\<lambda>j. filter (of_tls j) (l_log s)) [0, 1, 2] =
     [[LL_Value 0 0], [LL_Value 1 100, LL_Dtor 100], [LL_Value 2 200, LL_Dtor 200]]"
    by (simp add: tls_lines_def own_value_def tls_env_ok_def)
  with r(1) show ?thesis by (intro exI [of _ s] conjI)
qed

end
