(* ===== verification/Threads_Main.thy ===== *)
theory Threads_Main
  imports Threads_Condvar Threads_Simple Threads_Local
begin

text \<open>
  \<^verbatim>\<open>main\<close> of \<^verbatim>\<open>src/examples/threads_demo.c\<close>: the five demos in sequence, in one process. A demo that has returned leaves
  behind the threads it did not wait for: the simple threads created before a failing \<^verbatim>\<open>pthread_create\<close>, and the detached
  thread. They keep running during the later demos, until \<^verbatim>\<open>main\<close> returns and the process ends. The globals \<^verbatim>\<open>counter\<close>
  and \<^verbatim>\<open>ready\<close> go from one demo to the next; each demo's lines are in the log of its own state.
\<close>

datatype demo_pc = G_Banner | G_Simple | G_Mutex | G_Condvar | G_Attributes | G_Tls | G_Complete | G_Exit

record gstate =
  g_pc :: demo_pc
  g_simple :: qstate
  g_mutex :: mstate
  g_condvar :: cstate
  g_attributes :: xstate
  g_tls :: lstate
  g_out :: "string list"

definition condvar_header :: string where
  "condvar_header = ''\<newline>=== Condition Variable Demo ===\<newline>''"

definition threads_banner :: "string list" where
  "threads_banner = [''=== POSIX Threads Demo ===\<newline>'', ''This program demonstrates various pthread features\<newline>'']"

definition complete_line :: string where
  "complete_line = ''\<newline>=== All Demos Complete ===\<newline>''"

text \<open>
  The next statement of the main thread (lines 73 to 155 and 177 to 209): one of the running demo, or the call of the next
  demo when it has returned. \<open>ok\<close> is the result of a \<^verbatim>\<open>pthread_create\<close>.
\<close>

definition threads_main :: "tls_env \<Rightarrow> bool \<Rightarrow> gstate \<Rightarrow> gstate option" where
  "threads_main e ok s =
     (case g_pc s of
        G_Banner \<Rightarrow> Some (s\<lparr>g_out := g_out s @ threads_banner, g_simple := simple_threads_start, g_pc := G_Simple\<rparr>)
      | G_Simple \<Rightarrow>
          (if q_pc (g_simple s) = Q_Return then Some (s\<lparr>g_mutex := mutex_start 0, g_pc := G_Mutex\<rparr>)
           else map_option (\<lambda>q. s\<lparr>g_simple := q\<rparr>) (demo_simple_threads ok (g_simple s)))
      | G_Mutex \<Rightarrow>
          (if m_main (g_mutex s) = D_Done
           then Some (s\<lparr>g_out := g_out s @ [condvar_header], g_condvar := condvar_start (m_counter (g_mutex s)) False,
                        g_pc := G_Condvar\<rparr>)
           else map_option (\<lambda>m. s\<lparr>g_mutex := m\<rparr>) (demo_mutex ok (g_mutex s)))
      | G_Condvar \<Rightarrow>
          (if c_main (g_condvar s) = E_Done then Some (s\<lparr>g_attributes := attributes_start, g_pc := G_Attributes\<rparr>)
           else map_option (\<lambda>c. s\<lparr>g_condvar := c\<rparr>) (demo_condition_variable ok (g_condvar s)))
      | G_Attributes \<Rightarrow>
          (if x_pc (g_attributes s) = X_Return then Some (s\<lparr>g_tls := tls_start, g_pc := G_Tls\<rparr>)
           else map_option (\<lambda>x. s\<lparr>g_attributes := x\<rparr>) (demo_thread_attributes ok (g_attributes s)))
      | G_Tls \<Rightarrow>
          (if l_pc (g_tls s) = LM_Return then Some (s\<lparr>g_pc := G_Complete\<rparr>)
           else map_option (\<lambda>l. s\<lparr>g_tls := l\<rparr>) (demo_thread_local_storage e (g_tls s)))
      | G_Complete \<Rightarrow> Some (s\<lparr>g_out := g_out s @ [complete_line], g_pc := G_Exit\<rparr>)
      | G_Exit \<Rightarrow> None)"

datatype gactor = GA_Main bool | GA_Simple nat | GA_Mutex tid | GA_Condvar cactor | GA_Detached | GA_Tls nat

text \<open>After an undefined call nothing of the process is known any more, and after \<^verbatim>\<open>main\<close> has returned it has no threads.\<close>

definition stopped :: "gstate \<Rightarrow> bool" where
  "stopped s \<longleftrightarrow> g_pc s = G_Exit \<or> m_main (g_mutex s) = D_UB \<or> c_main (g_condvar s) = E_UB \<or> l_pc (g_tls s) = LM_UB"

fun is_worker :: "cactor \<Rightarrow> bool" where
  "is_worker (C_Main ok) \<longleftrightarrow> False"
| "is_worker _ \<longleftrightarrow> True"

fun threads_act :: "tls_env \<Rightarrow> gactor \<Rightarrow> gstate \<Rightarrow> gstate option" where
  "threads_act e (GA_Main ok) s = (if stopped s then None else threads_main e ok s)"
| "threads_act e (GA_Simple j) s = (if stopped s then None else map_option (\<lambda>q. s\<lparr>g_simple := q\<rparr>) (run_thread j (g_simple s)))"
| "threads_act e (GA_Mutex t) s = (if stopped s then None else map_option (\<lambda>m. s\<lparr>g_mutex := m\<rparr>) (mutex_thread t (g_mutex s)))"
| "threads_act e (GA_Condvar a) s =
     (if stopped s \<or> \<not> is_worker a then None else map_option (\<lambda>c. s\<lparr>g_condvar := c\<rparr>) (condvar_act a (g_condvar s)))"
| "threads_act e GA_Detached s = (if stopped s then None else map_option (\<lambda>x. s\<lparr>g_attributes := x\<rparr>) (run_detached (g_attributes s)))"
| "threads_act e (GA_Tls j) s =
     (if stopped s then None else map_option (\<lambda>l. s\<lparr>g_tls := l\<rparr>) (tls_act e (L_Thread j) (g_tls s)))"

definition threads_start :: gstate where
  "threads_start = \<lparr>g_pc = G_Banner, g_simple = simple_threads_start, g_mutex = mutex_start 0, g_condvar = condvar_start 0 False,
     g_attributes = attributes_start, g_tls = tls_start, g_out = []\<rparr>"

abbreviation threads_step :: "tls_env \<Rightarrow> gstate \<Rightarrow> gstate \<Rightarrow> bool" where
  "threads_step e \<equiv> step_of (threads_act e)"

section \<open>Every demo runs as if it were alone\<close>

text \<open>How far the main thread is: \<open>demo_rank\<close> counts the demos it has started.\<close>

fun demo_rank :: "demo_pc \<Rightarrow> nat" where
  "demo_rank G_Banner = 0"
| "demo_rank G_Simple = 1"
| "demo_rank G_Mutex = 2"
| "demo_rank G_Condvar = 3"
| "demo_rank G_Attributes = 4"
| "demo_rank G_Tls = 5"
| "demo_rank G_Complete = 6"
| "demo_rank G_Exit = 7"

definition runs_ok :: "tls_env \<Rightarrow> gstate \<Rightarrow> bool" where
  "runs_ok e s \<longleftrightarrow> simple_threads_step\<^sup>*\<^sup>* simple_threads_start (g_simple s) \<and>
     mutex_step\<^sup>*\<^sup>* (mutex_start 0) (g_mutex s) \<and>
     (\<exists>c. condvar_step\<^sup>*\<^sup>* (condvar_start c False) (g_condvar s)) \<and>
     attributes_step\<^sup>*\<^sup>* attributes_start (g_attributes s) \<and>
     (tls_step e)\<^sup>*\<^sup>* tls_start (g_tls s)"

text \<open>A demo that was left has returned, and one that was not reached has not begun.\<close>

definition phases_ok :: "gstate \<Rightarrow> bool" where
  "phases_ok s \<longleftrightarrow>
     (let r = demo_rank (g_pc s) in
      (1 < r \<longrightarrow> q_pc (g_simple s) = Q_Return) \<and> (2 < r \<longrightarrow> m_main (g_mutex s) = D_Done) \<and>
      (3 < r \<longrightarrow> c_main (g_condvar s) = E_Done) \<and> (4 < r \<longrightarrow> x_pc (g_attributes s) = X_Return) \<and>
      (5 < r \<longrightarrow> l_pc (g_tls s) = LM_Return))"

definition main_out_ok :: "gstate \<Rightarrow> bool" where
  "main_out_ok s \<longleftrightarrow> g_out s =
     (let r = demo_rank (g_pc s) in
      (if 0 < r then threads_banner else []) @ (if 2 < r then [condvar_header] else []) @ (if 6 < r then [complete_line] else []))"

definition threads_main_inv :: "tls_env \<Rightarrow> gstate \<Rightarrow> bool" where
  "threads_main_inv e s \<longleftrightarrow> runs_ok e s \<and> phases_ok s \<and> main_out_ok s"

lemma runs_ok_main:
  assumes "runs_ok e s" and "threads_main e ok s = Some t"
  shows "runs_ok e t"
proof (cases "g_pc s")
  case G_Simple
  with assms reach_act [of simple_threads_act _ _ "Q_Main ok"] show ?thesis
    by (auto simp: threads_main_def runs_ok_def split: if_splits)
next
  case G_Mutex
  with assms reach_act [of mutex_act _ _ "M_Main ok"] show ?thesis
    by (auto simp: threads_main_def runs_ok_def split: if_splits)
next
  case G_Condvar
  with assms reach_act [of condvar_act _ _ "C_Main ok"] show ?thesis
    by (auto simp: threads_main_def runs_ok_def split: if_splits) blast
next
  case G_Attributes
  with assms reach_act [of attributes_act _ _ "X_Main ok"] show ?thesis
    by (auto simp: threads_main_def runs_ok_def split: if_splits)
next
  case G_Tls
  with assms reach_act [of "tls_act e" _ _ L_Main] show ?thesis
    by (auto simp: threads_main_def runs_ok_def split: if_splits)
qed (use assms in \<open>auto simp: threads_main_def runs_ok_def\<close>)

lemma phases_main:
  assumes "phases_ok s" and "main_out_ok s" and "threads_main e ok s = Some t"
  shows "phases_ok t \<and> main_out_ok t"
  using assms
  by (cases "g_pc s") (auto simp: threads_main_def phases_ok_def main_out_ok_def Let_def split: if_splits)

text \<open>A worker changes only the state of its own demo, and not what the main thread has left behind.\<close>

lemma worker_main_kept:
  "run_thread j q = Some q' \<Longrightarrow> q_pc q' = q_pc q"
  "mutex_thread t m = Some m' \<Longrightarrow> m_main m' = m_main m"
  "run_detached x = Some x' \<Longrightarrow> x_pc x' = x_pc x"
  by (auto simp: run_detached_def elim!: run_threadE mutex_thread_cases split: option.splits)

lemma condvar_worker_kept: "is_worker a \<Longrightarrow> condvar_act a c = Some c' \<Longrightarrow> c_main c' = c_main c"
  by (cases a; cases "c_prod c"; cases "c_cons c") (auto simp: condvar_defs split: if_splits option.splits)

lemma phases_worker:
  assumes "runs_ok e s" and "phases_ok s" and "threads_act e a s = Some t" and "\<nexists>ok. a = GA_Main ok"
  shows "phases_ok t"
proof (cases a)
  case (GA_Tls j)
  with assms obtain l where l: "tls_act e (L_Thread j) (g_tls s) = Some l" "t = s\<lparr>g_tls := l\<rparr>"
    by (auto simp del: tls_act.simps split: if_splits)
  with tls_returned_stuck [of e "g_tls s"] assms(1) have "l_pc (g_tls s) \<noteq> LM_Return" by (auto simp: runs_ok_def simp del: tls_act.simps)
  with l assms(2) show ?thesis by (simp add: phases_ok_def Let_def)
next
  case (GA_Condvar c)
  with assms condvar_worker_kept show ?thesis by (auto simp: phases_ok_def Let_def split: if_splits)
qed (use assms worker_main_kept in \<open>auto simp: phases_ok_def Let_def split: if_splits\<close>)

lemma runs_worker:
  assumes "runs_ok e s" and "threads_act e a s = Some t" and "\<nexists>ok. a = GA_Main ok"
  shows "runs_ok e t"
proof (cases a)
  case (GA_Simple j)
  with assms reach_act [of simple_threads_act _ _ "Q_Thread j"] show ?thesis by (auto simp: runs_ok_def split: if_splits)
next
  case (GA_Mutex u)
  with assms reach_act [of mutex_act _ _ "M_Thr u"] show ?thesis by (auto simp: runs_ok_def split: if_splits)
next
  case (GA_Condvar c)
  with assms obtain x where x: "condvar_act c (g_condvar s) = Some x" "t = s\<lparr>g_condvar := x\<rparr>" by (auto split: if_splits)
  with assms(1) reach_act [of condvar_act _ _ c] show ?thesis by (simp add: runs_ok_def) blast
next
  case GA_Detached
  with assms reach_act [of attributes_act _ _ X_Thread] show ?thesis by (auto simp: runs_ok_def split: if_splits)
next
  case (GA_Tls j)
  with assms obtain l where l: "tls_act e (L_Thread j) (g_tls s) = Some l" "t = s\<lparr>g_tls := l\<rparr>"
    by (auto simp del: tls_act.simps split: if_splits)
  from assms(1) have "(tls_step e)\<^sup>*\<^sup>* tls_start (g_tls s)" by (simp add: runs_ok_def)
  from reach_act [OF this l(1)] assms(1) l(2) show ?thesis by (simp add: runs_ok_def)
qed (use assms(3) in simp)

lemma out_worker: "main_out_ok s \<Longrightarrow> threads_act e a s = Some t \<Longrightarrow> \<nexists>ok. a = GA_Main ok \<Longrightarrow> main_out_ok t"
  by (cases a) (auto simp: main_out_ok_def simp del: tls_act.simps split: if_splits)

lemma threads_act_inv:
  assumes "threads_main_inv e s" and "threads_act e a s = Some t"
  shows "threads_main_inv e t"
proof (cases "\<exists>ok. a = GA_Main ok")
  case True
  then obtain ok where "a = GA_Main ok" by blast
  with assms(2) have "threads_main e ok s = Some t" by (simp split: if_splits)
  with assms(1) runs_ok_main [of e s ok t] phases_main [of s e ok t] show ?thesis by (simp add: threads_main_inv_def)
next
  case False
  with assms runs_worker phases_worker out_worker show ?thesis by (metis threads_main_inv_def)
qed

interpretation threads_sys: invariant_system "threads_step e" threads_start "threads_main_inv e" for e
proof
  show "threads_main_inv e threads_start"
    by (auto simp: threads_main_inv_def runs_ok_def phases_ok_def main_out_ok_def threads_start_def)
qed (auto elim!: step_ofE intro: threads_act_inv)

section \<open>The whole program\<close>

text \<open>
  C1. When \<^verbatim>\<open>threads_demo\<close> returns from \<^verbatim>\<open>main\<close>, whatever the interleaving of all its threads, every demo has had its result: the
  three simple threads were joined with twice their numbers (unless one could not be created), both mutex threads together have
  counted to 20000, the consumer has had the five items in order, the attribute object is destroyed and the thread made from it is detached with a stack of two megabytes, and each thread saw its
  own thread-local value.
\<close>

theorem threads_main_result:
  assumes "(threads_step e)\<^sup>*\<^sup>* threads_start s" and "g_pc s = G_Exit"
  shows "g_out s = threads_banner @ [condvar_header, complete_line]
    \<and> (TL_Perror \<in> set (q_log (g_simple s)) \<or> q_thr (g_simple s) = [TP_Joined 0, TP_Joined 2, TP_Joined 4])
    \<and> m_counter (g_mutex s) = 20000
    \<and> consumed (c_log (g_condvar s)) = [0, 1, 2, 3, 4]
    \<and> x_attr (g_attributes s) = None
    \<and> x_made (g_attributes s) = (if x_thr (g_attributes s) = None then None else Some \<lparr>at_detached = True, at_stack = Some 2097152\<rparr>)
    \<and> map (\<lambda>j. filter (of_tls j) (l_log (g_tls s))) [0, 1, 2] = map (tls_lines e) [0, 1, 2]"
proof -
  from threads_sys.reach_inv [OF assms(1)] have runs: "runs_ok e s" and "phases_ok s" and "main_out_ok s"
    by (simp_all add: threads_main_inv_def)
  with assms(2) have ends: "q_pc (g_simple s) = Q_Return" "m_main (g_mutex s) = D_Done" "c_main (g_condvar s) = E_Done"
    "x_pc (g_attributes s) = X_Return" "l_pc (g_tls s) = LM_Return"
    and out: "g_out s = threads_banner @ [condvar_header, complete_line]"
    by (simp_all add: phases_ok_def main_out_ok_def Let_def)
  from runs have inv: "simple_threads_inv (g_simple s)" "mutex_inv (g_mutex s)" "condvar_inv (g_condvar s)"
    "attributes_inv (g_attributes s)" "tls_inv e (g_tls s)"
    unfolding runs_ok_def
    by (blast intro: simple_threads_sys.reach_inv mutex_sys.reach_inv condvar_sys.reach_inv attributes_sys.reach_inv tls_sys.reach_inv)+
  from simple_threads_done [OF inv(1) ends(1)] have
    "TL_Perror \<in> set (q_log (g_simple s)) \<or> q_thr (g_simple s) = [TP_Joined 0, TP_Joined 2, TP_Joined 4]" by blast
  moreover have "x_attr (g_attributes s) = None" "x_made (g_attributes s) = (if x_thr (g_attributes s) = None then None else Some detached_2mb)"
    using inv(4) ends(4) by (simp_all add: attributes_inv_def)
  ultimately show ?thesis
    using out mutex_done [OF inv(2) ends(2)] condvar_done [OF inv(3) ends(3)] tls_returned [OF inv(5) ends(5)] unfolding detached_2mb_def by blast
qed

section \<open>A complete run\<close>

text \<open>What one of the demos can do, the whole program can do while it is in that demo.\<close>

definition quiet :: "gstate \<Rightarrow> bool" where
  "quiet s \<longleftrightarrow> m_main (g_mutex s) \<noteq> D_UB \<and> c_main (g_condvar s) \<noteq> E_UB \<and> l_pc (g_tls s) \<noteq> LM_UB"

lemma lift_simple:
  assumes "simple_threads_step\<^sup>*\<^sup>* q q'" and "quiet s" and "g_pc s = G_Simple"
  shows "(threads_step e)\<^sup>*\<^sup>* (s\<lparr>g_simple := q\<rparr>) (s\<lparr>g_simple := q'\<rparr>)"
proof (rule lift_run [where Q = "\<lambda>_. True" and f = "\<lambda>q. s\<lparr>g_simple := q\<rparr>", OF assms(1)])
  fix x y
  assume "simple_threads_step x y"
  then obtain a where a: "simple_threads_act a x = Some y" by (auto elim: step_ofE)
  show "threads_step e (s\<lparr>g_simple := x\<rparr>) (s\<lparr>g_simple := y\<rparr>)"
  proof (cases a)
    case (Q_Main ok)
    with a have "q_pc x \<noteq> Q_Return" by (auto simp: demo_simple_threads_def)
    with a Q_Main assms show ?thesis by (intro step_ofI [of _ "GA_Main ok"]) (simp add: stopped_def quiet_def threads_main_def)
  next
    case (Q_Thread j)
    with a assms show ?thesis by (intro step_ofI [of _ "GA_Simple j"]) (simp add: stopped_def quiet_def)
  qed
qed simp_all

lemma lift_mutex:
  assumes "mutex_step\<^sup>*\<^sup>* q q'" and "quiet s" and "g_pc s = G_Mutex" and "m_main q' \<noteq> D_UB"
  shows "(threads_step e)\<^sup>*\<^sup>* (s\<lparr>g_mutex := q\<rparr>) (s\<lparr>g_mutex := q'\<rparr>)"
proof (rule lift_run [where Q = "\<lambda>m. m_main m \<noteq> D_UB" and f = "\<lambda>q. s\<lparr>g_mutex := q\<rparr>", OF assms(1,4)])
  fix x y
  assume "mutex_step x y"
  then obtain a where a: "mutex_act a x = Some y" by (auto elim: step_ofE)
  show "m_main y \<noteq> D_UB \<Longrightarrow> m_main x \<noteq> D_UB"
    using a by (cases a) (auto simp: worker_main_kept demo_mutex_def)
  assume x: "m_main x \<noteq> D_UB"
  show "threads_step e (s\<lparr>g_mutex := x\<rparr>) (s\<lparr>g_mutex := y\<rparr>)"
  proof (cases a)
    case (M_Main ok)
    with a have "m_main x \<noteq> D_Done" by (auto simp: demo_mutex_def)
    with a x M_Main assms show ?thesis by (intro step_ofI [of _ "GA_Main ok"]) (simp add: stopped_def quiet_def threads_main_def)
  next
    case (M_Thr t)
    with a x assms show ?thesis by (intro step_ofI [of _ "GA_Mutex t"]) (simp add: stopped_def quiet_def)
  qed
qed

lemma lift_condvar:
  assumes "condvar_step\<^sup>*\<^sup>* q q'" and "quiet s" and "g_pc s = G_Condvar" and "c_main q' \<noteq> E_UB"
  shows "(threads_step e)\<^sup>*\<^sup>* (s\<lparr>g_condvar := q\<rparr>) (s\<lparr>g_condvar := q'\<rparr>)"
proof (rule lift_run [where Q = "\<lambda>m. c_main m \<noteq> E_UB" and f = "\<lambda>q. s\<lparr>g_condvar := q\<rparr>", OF assms(1,4)])
  fix x y
  assume "condvar_step x y"
  then obtain a where a: "condvar_act a x = Some y" by (auto elim: step_ofE)
  show "c_main y \<noteq> E_UB \<Longrightarrow> c_main x \<noteq> E_UB"
  proof (cases "is_worker a")
    case False
    then show ?thesis using a by (cases a) (auto simp: demo_condition_variable_def)
  qed (use a condvar_worker_kept in auto)
  assume x: "c_main x \<noteq> E_UB"
  show "threads_step e (s\<lparr>g_condvar := x\<rparr>) (s\<lparr>g_condvar := y\<rparr>)"
  proof (cases "is_worker a")
    case True
    with a x assms show ?thesis by (intro step_ofI [of _ "GA_Condvar a"]) (simp add: stopped_def quiet_def)
  next
    case False
    then obtain ok where "a = C_Main ok" by (cases a) auto
    with a have "c_main x \<noteq> E_Done" "demo_condition_variable ok x = Some y" by (auto simp: demo_condition_variable_def)
    with x assms show ?thesis by (intro step_ofI [of _ "GA_Main ok"]) (simp add: stopped_def quiet_def threads_main_def)
  qed
qed

lemma lift_attributes:
  assumes "attributes_step\<^sup>*\<^sup>* q q'" and "quiet s" and "g_pc s = G_Attributes"
  shows "(threads_step e)\<^sup>*\<^sup>* (s\<lparr>g_attributes := q\<rparr>) (s\<lparr>g_attributes := q'\<rparr>)"
proof (rule lift_run [where Q = "\<lambda>_. True" and f = "\<lambda>q. s\<lparr>g_attributes := q\<rparr>", OF assms(1)])
  fix x y
  assume "attributes_step x y"
  then obtain a where a: "attributes_act a x = Some y" by (auto elim: step_ofE)
  show "threads_step e (s\<lparr>g_attributes := x\<rparr>) (s\<lparr>g_attributes := y\<rparr>)"
  proof (cases a)
    case (X_Main ok)
    with a have "x_pc x \<noteq> X_Return" by (auto simp: demo_thread_attributes_def)
    with a X_Main assms show ?thesis by (intro step_ofI [of _ "GA_Main ok"]) (simp add: stopped_def quiet_def threads_main_def)
  next
    case X_Thread
    with a assms show ?thesis by (intro step_ofI [of _ GA_Detached]) (simp add: stopped_def quiet_def)
  qed
qed simp_all

lemma lift_tls:
  assumes "(tls_step e)\<^sup>*\<^sup>* q q'" and "quiet s" and "g_pc s = G_Tls" and "l_pc q' \<noteq> LM_UB"
  shows "(threads_step e)\<^sup>*\<^sup>* (s\<lparr>g_tls := q\<rparr>) (s\<lparr>g_tls := q'\<rparr>)"
proof (rule lift_run [where Q = "\<lambda>m. l_pc m \<noteq> LM_UB" and f = "\<lambda>q. s\<lparr>g_tls := q\<rparr>", OF assms(1,4)])
  fix x y
  assume "tls_step e x y"
  then obtain a where a: "tls_act e a x = Some y" by (auto elim: step_ofE)
  show "l_pc y \<noteq> LM_UB \<Longrightarrow> l_pc x \<noteq> LM_UB"
    using a by (cases a) (auto simp: demo_thread_local_storage_def split: if_splits)
  assume x: "l_pc x \<noteq> LM_UB"
  show "threads_step e (s\<lparr>g_tls := x\<rparr>) (s\<lparr>g_tls := y\<rparr>)"
  proof (cases a)
    case L_Main
    with a have "l_pc x \<noteq> LM_Return" "demo_thread_local_storage e x = Some y" by (auto simp: demo_thread_local_storage_def)
    with x assms show ?thesis by (intro step_ofI [of _ "GA_Main True"]) (simp add: stopped_def quiet_def threads_main_def)
  next
    case (L_Thread j)
    with a x assms show ?thesis by (intro step_ofI [of _ "GA_Tls j"]) (simp add: stopped_def quiet_def)
  qed
qed

lemma attributes_finish: "\<exists>s. attributes_step\<^sup>*\<^sup>* attributes_start s \<and> x_pc s = X_Return"
  using attributes_sys.eventually_final by blast

text \<open>From the start of one demo to the start of the next.\<close>

definition at_demo :: "demo_pc \<Rightarrow> gstate \<Rightarrow> bool" where
  "at_demo p s \<longleftrightarrow> (threads_step tls_env_ok)\<^sup>*\<^sup>* threads_start s \<and> quiet s \<and> g_pc s = p"

lemma at_demo_next:
  assumes "at_demo p s" and "(threads_step tls_env_ok)\<^sup>*\<^sup>* s t" and "quiet t" and "g_pc t = p" and "p \<noteq> G_Exit"
    and "threads_main tls_env_ok True t = Some u" and "quiet u"
  shows "at_demo (g_pc u) u"
proof -
  have "threads_act tls_env_ok (GA_Main True) t = Some u"
    using assms by (simp add: stopped_def quiet_def)
  moreover have "(threads_step tls_env_ok)\<^sup>*\<^sup>* threads_start t"
    using assms(1,2) by (auto simp: at_demo_def)
  ultimately have "(threads_step tls_env_ok)\<^sup>*\<^sup>* threads_start u" by (rule reach_act [rotated])
  with assms(7) show ?thesis by (simp add: at_demo_def)
qed

lemma start_quiet [simp]:
  "m_main (mutex_start c) \<noteq> D_UB" "c_main (condvar_start c r) \<noteq> E_UB" "l_pc tls_start \<noteq> LM_UB"
  by (simp_all add: mutex_start_def condvar_start_def tls_start_def)

lemma reach_simple: "\<exists>s. at_demo G_Simple s \<and> g_simple s = simple_threads_start"
proof -
  let ?u = "threads_start\<lparr>g_out := threads_banner, g_pc := G_Simple\<rparr>"
  have "at_demo G_Banner threads_start" by (simp add: at_demo_def quiet_def threads_start_def)
  from at_demo_next [OF this, of threads_start ?u] show ?thesis
    by (intro exI [of _ ?u]) (simp add: quiet_def threads_start_def threads_main_def)
qed

lemma reach_mutex: "\<exists>s. at_demo G_Mutex s \<and> g_mutex s = mutex_start 0"
proof -
  from reach_simple obtain s where s: "at_demo G_Simple s" "g_simple s = simple_threads_start" by blast
  from simple_threads_finish obtain q where q: "simple_threads_step\<^sup>*\<^sup>* simple_threads_start q" "q_pc q = Q_Return" by blast
  let ?u = "s\<lparr>g_simple := q, g_mutex := mutex_start 0, g_pc := G_Mutex\<rparr>"
  have "s\<lparr>g_simple := simple_threads_start\<rparr> = s" using s(2) by (cases s) simp
  with lift_simple [OF q(1), of s tls_env_ok] s have "(threads_step tls_env_ok)\<^sup>*\<^sup>* s (s\<lparr>g_simple := q\<rparr>)" by (simp add: at_demo_def)
  from at_demo_next [OF s(1) this, of ?u] s q(2) show ?thesis
    by (intro exI [of _ ?u]) (simp add: at_demo_def quiet_def threads_main_def)
qed

lemma reach_condvar: "\<exists>s c. at_demo G_Condvar s \<and> g_condvar s = condvar_start c False"
proof -
  from reach_mutex obtain s where s: "at_demo G_Mutex s" "g_mutex s = mutex_start 0" by blast
  from mutex_can_finish obtain q where q: "mutex_step\<^sup>*\<^sup>* (mutex_start 0) q" "m_main q = D_Done" by blast
  let ?u = "s\<lparr>g_mutex := q, g_out := g_out s @ [condvar_header], g_condvar := condvar_start (m_counter q) False, g_pc := G_Condvar\<rparr>"
  have "s\<lparr>g_mutex := mutex_start 0\<rparr> = s" using s(2) by (cases s) simp
  with lift_mutex [OF q(1), of s tls_env_ok] s q have "(threads_step tls_env_ok)\<^sup>*\<^sup>* s (s\<lparr>g_mutex := q\<rparr>)" by (simp add: at_demo_def)
  from at_demo_next [OF s(1) this, of ?u] s q(2) show ?thesis
    by (intro exI [of _ ?u] exI [of _ "m_counter q"]) (simp add: at_demo_def quiet_def threads_main_def)
qed

lemma reach_attributes: "\<exists>s. at_demo G_Attributes s \<and> g_attributes s = attributes_start"
proof -
  from reach_condvar obtain s c where s: "at_demo G_Condvar s" "g_condvar s = condvar_start c False" by blast
  from fair_run obtain q where q: "condvar_step\<^sup>*\<^sup>* (condvar_start c False) q" "c_main q = E_Done" by blast
  let ?u = "s\<lparr>g_condvar := q, g_attributes := attributes_start, g_pc := G_Attributes\<rparr>"
  have "s\<lparr>g_condvar := condvar_start c False\<rparr> = s" using s(2) by (cases s) simp
  with lift_condvar [OF q(1), of s tls_env_ok] s q have "(threads_step tls_env_ok)\<^sup>*\<^sup>* s (s\<lparr>g_condvar := q\<rparr>)" by (simp add: at_demo_def)
  from at_demo_next [OF s(1) this, of ?u] s q(2) show ?thesis
    by (intro exI [of _ ?u]) (simp add: at_demo_def quiet_def threads_main_def)
qed

lemma reach_tls: "\<exists>s. at_demo G_Tls s \<and> g_tls s = tls_start"
proof -
  from reach_attributes obtain s where s: "at_demo G_Attributes s" "g_attributes s = attributes_start" by blast
  from attributes_finish obtain q where q: "attributes_step\<^sup>*\<^sup>* attributes_start q" "x_pc q = X_Return" by blast
  let ?u = "s\<lparr>g_attributes := q, g_tls := tls_start, g_pc := G_Tls\<rparr>"
  have "s\<lparr>g_attributes := attributes_start\<rparr> = s" using s(2) by (cases s) simp
  with lift_attributes [OF q(1), of s tls_env_ok] s have "(threads_step tls_env_ok)\<^sup>*\<^sup>* s (s\<lparr>g_attributes := q\<rparr>)" by (simp add: at_demo_def)
  from at_demo_next [OF s(1) this, of ?u] s q(2) show ?thesis
    by (intro exI [of _ ?u]) (simp add: at_demo_def quiet_def threads_main_def)
qed

lemma threads_finish: "\<exists>s. (threads_step tls_env_ok)\<^sup>*\<^sup>* threads_start s \<and> g_pc s = G_Exit"
proof -
  from reach_tls obtain s where s: "at_demo G_Tls s" "g_tls s = tls_start" by blast
  from tls_finish obtain q where q: "(tls_step tls_env_ok)\<^sup>*\<^sup>* tls_start q" "l_pc q = LM_Return" by blast
  let ?u = "s\<lparr>g_tls := q, g_pc := G_Complete\<rparr>" and ?v = "s\<lparr>g_tls := q, g_out := g_out s @ [complete_line], g_pc := G_Exit\<rparr>"
  have "s\<lparr>g_tls := tls_start\<rparr> = s" using s(2) by (cases s) simp
  with lift_tls [OF q(1), of s] s q have "(threads_step tls_env_ok)\<^sup>*\<^sup>* s (s\<lparr>g_tls := q\<rparr>)" by (simp add: at_demo_def)
  from at_demo_next [OF s(1) this, of ?u] s q(2) have u: "at_demo G_Complete ?u" by (simp add: at_demo_def quiet_def threads_main_def)
  from at_demo_next [OF u, of ?u ?v] u have "at_demo G_Exit ?v" by (simp add: at_demo_def quiet_def threads_main_def)
  then show ?thesis unfolding at_demo_def by blast
qed

theorem threads_main_result_witness:
  "\<exists>s. (threads_step tls_env_ok)\<^sup>*\<^sup>* threads_start s \<and> g_pc s = G_Exit \<and> m_counter (g_mutex s) = 20000
     \<and> consumed (c_log (g_condvar s)) = [0, 1, 2, 3, 4]"
proof -
  from threads_finish obtain s where s: "(threads_step tls_env_ok)\<^sup>*\<^sup>* threads_start s" "g_pc s = G_Exit" by blast
  with threads_main_result [OF s] show ?thesis by blast
qed

end
