(* ===== verification/Posix.thy ===== *)
theory Posix
  imports C_Library "HOL-Library.State_Monad"
begin

text \<open>
  Sequential programs on top of an operating system. The kernel is not part of the repository:
  it is a parameter, one function per system call on a kernel state of any type \<open>'k\<close>. A program
  is an element of the state monad over a \<open>world\<close>: the kernel state, the trace of what the
  program did so far (lines printed, \<^verbatim>\<open>perror\<close> messages, system calls with their results), and
  a flag that records whether the program has run into undefined behaviour of C (an access out of
  bounds of an array). Contracts on traces are monitors: a function on events folded over the trace.

  \<open>wp m Q w\<close> says that \<open>m\<close>, started in \<open>w\<close>, ends with a result and a world that satisfy \<open>Q\<close>;
  the rules collected in \<open>wp_intros\<close> execute a program symbolically, one rule per construct.
\<close>

section \<open>Worlds and programs\<close>

datatype 'e ev = Out string | Err string | Sys 'e

record ('e, 'k) world =
  kst :: 'k
  trace :: "'e ev list"
  ub :: bool

type_synonym ('e, 'k, 'z, 'a) prog = "(('e, 'k, 'z) world_scheme, 'a) state"

abbreviation return :: "'a \<Rightarrow> ('s, 'a) state" where
  "return \<equiv> State_Monad.return"

definition boot :: "'k \<Rightarrow> ('e, 'k) world" where
  "boot k = \<lparr>kst = k, trace = [], ub = False\<rparr>"

definition emit :: "'e ev \<Rightarrow> ('e, 'k, 'z, unit) prog" where
  "emit e = State (\<lambda>w. ((), w\<lparr>trace := trace w @ [e]\<rparr>))"

definition printf :: "string \<Rightarrow> ('e, 'k, 'z, unit) prog" where
  "printf s = emit (Out s)"

definition perror :: "string \<Rightarrow> ('e, 'k, 'z, unit) prog" where
  "perror s = emit (Err s)"

text \<open>A system call: the function of the kernel, and the event that records the call with its result.\<close>

definition sys :: "('k \<Rightarrow> 'r \<times> 'k) \<Rightarrow> ('r \<Rightarrow> 'e) \<Rightarrow> ('e, 'k, 'z, 'r) prog" where
  "sys f e = State (\<lambda>w. case f (kst w) of
     (r, k) \<Rightarrow> (r, w\<lparr>kst := k, trace := trace w @ [Sys (e r)]\<rparr>))"

text \<open>
  The result of an array access: when it is out of bounds the behaviour is undefined, which is
  recorded, and the program goes on with the given value.
\<close>

definition checked :: "'a \<Rightarrow> 'a option \<Rightarrow> ('e, 'k, 'z, 'a) prog" where
  "checked d x = State (\<lambda>w. case x of None \<Rightarrow> (d, w\<lparr>ub := True\<rparr>) | Some a \<Rightarrow> (a, w))"

definition skip :: "('e, 'k, 'z, unit) prog" where
  "skip = return ()"

definition result_of :: "('s, 'a) state \<Rightarrow> 's \<Rightarrow> 'a" where
  "result_of m w = fst (run_state m w)"

definition world_of :: "('s, 'a) state \<Rightarrow> 's \<Rightarrow> 's" where
  "world_of m w = snd (run_state m w)"

section \<open>What a trace shows\<close>

fun out_text :: "'e ev list \<Rightarrow> string" where
  "out_text [] = []"
| "out_text (Out s # es) = s @ out_text es"
| "out_text (Err s # es) = out_text es"
| "out_text (Sys e # es) = out_text es"

fun errs :: "'e ev list \<Rightarrow> string list" where
  "errs [] = []"
| "errs (Err s # es) = s # errs es"
| "errs (Out s # es) = errs es"
| "errs (Sys e # es) = errs es"

fun sys_events :: "'e ev list \<Rightarrow> 'e list" where
  "sys_events [] = []"
| "sys_events (Sys e # es) = e # sys_events es"
| "sys_events (Out s # es) = sys_events es"
| "sys_events (Err s # es) = sys_events es"

definition monitor :: "('e \<Rightarrow> 'm \<Rightarrow> 'm) \<Rightarrow> 'e ev list \<Rightarrow> 'm \<Rightarrow> 'm" where
  "monitor f tr = fold f (sys_events tr)"

lemma out_text_append [simp]: "out_text (xs @ ys) = out_text xs @ out_text ys"
  by (induction xs rule: out_text.induct) auto

lemma errs_append [simp]: "errs (xs @ ys) = errs xs @ errs ys"
  by (induction xs rule: errs.induct) auto

lemma sys_events_append [simp]: "sys_events (xs @ ys) = sys_events xs @ sys_events ys"
  by (induction xs rule: sys_events.induct) auto

lemma monitor_simps [simp]:
  "monitor f [] m = m"
  "monitor f (Out s # tr) m = monitor f tr m"
  "monitor f (Err s # tr) m = monitor f tr m"
  "monitor f (Sys e # tr) m = monitor f tr (f e m)"
  by (simp_all add: monitor_def)

lemma monitor_append [simp]: "monitor f (tr @ tr') m = monitor f tr' (monitor f tr m)"
  by (simp add: monitor_def)

section \<open>Weakest preconditions\<close>

definition wp :: "('s, 'a) state \<Rightarrow> ('a \<Rightarrow> 's \<Rightarrow> bool) \<Rightarrow> 's \<Rightarrow> bool" where
  "wp m Q w \<longleftrightarrow> Q (result_of m w) (world_of m w)"

lemma wp_iff: "wp m Q w \<longleftrightarrow> (case run_state m w of (a, t) \<Rightarrow> Q a t)"
  by (simp add: wp_def result_of_def world_of_def split_beta)

lemma wp_return [wp_intros]: "Q a w \<Longrightarrow> wp (return a) Q w"
  by (simp add: wp_iff)

lemma wp_skip [wp_intros]: "Q () w \<Longrightarrow> wp skip Q w"
  by (simp add: skip_def wp_return)

lemma wp_bind [wp_intros]: "wp m (\<lambda>a. wp (f a) Q) w \<Longrightarrow> wp (State_Monad.bind m f) Q w"
  by (simp add: wp_iff split_beta)

lemma wp_if [wp_intros]:
  "(b \<Longrightarrow> wp m Q w) \<Longrightarrow> (\<not> b \<Longrightarrow> wp n Q w) \<Longrightarrow> wp (if b then m else n) Q w"
  by simp

lemma wp_case_option [wp_intros]:
  "(x = None \<Longrightarrow> wp m Q w) \<Longrightarrow> (\<And>a. x = Some a \<Longrightarrow> wp (f a) Q w)
     \<Longrightarrow> wp (case x of None \<Rightarrow> m | Some a \<Rightarrow> f a) Q w"
  by (cases x) simp_all

lemma wp_case_sum [wp_intros]:
  "(\<And>a. x = Inl a \<Longrightarrow> wp (f a) Q w) \<Longrightarrow> (\<And>b. x = Inr b \<Longrightarrow> wp (g b) Q w)
     \<Longrightarrow> wp (case x of Inl a \<Rightarrow> f a | Inr b \<Rightarrow> g b) Q w"
  by (cases x) simp_all

lemma wp_case_prod [wp_intros]:
  "(\<And>a b. x = (a, b) \<Longrightarrow> wp (f a b) Q w) \<Longrightarrow> wp (case x of (a, b) \<Rightarrow> f a b) Q w"
  by (cases x) simp

lemma wp_Let [wp_intros]: "wp (f x) Q w \<Longrightarrow> wp (let y = x in f y) Q w"
  by simp

lemma wp_emit: "Q () (w\<lparr>trace := trace w @ [e]\<rparr>) \<Longrightarrow> wp (emit e) Q w"
  by (simp add: wp_iff emit_def)

lemma wp_printf: "Q () (w\<lparr>trace := trace w @ [Out s]\<rparr>) \<Longrightarrow> wp (printf s) Q w"
  by (simp add: printf_def wp_emit)

lemma wp_perror: "Q () (w\<lparr>trace := trace w @ [Err s]\<rparr>) \<Longrightarrow> wp (perror s) Q w"
  by (simp add: perror_def wp_emit)

lemmas wp_output = wp_printf wp_perror

text \<open>Rules that forget what is printed, for properties of the system calls.\<close>

lemma wp_printf_quiet:
  "(\<And>tr. sys_events tr = sys_events (trace w) \<Longrightarrow> Q () (w\<lparr>trace := tr\<rparr>)) \<Longrightarrow> wp (printf s) Q w"
  by (rule wp_printf) simp

lemma wp_perror_quiet:
  "(\<And>tr. sys_events tr = sys_events (trace w) \<Longrightarrow> Q () (w\<lparr>trace := tr\<rparr>)) \<Longrightarrow> wp (perror s) Q w"
  by (rule wp_perror) simp

lemmas wp_quiet = wp_printf_quiet wp_perror_quiet

lemma wp_sys [wp_intros]:
  "(\<And>r k. f (kst w) = (r, k) \<Longrightarrow> Q r (w\<lparr>kst := k, trace := trace w @ [Sys (e r)]\<rparr>))
     \<Longrightarrow> wp (sys f e) Q w"
  by (cases "f (kst w)") (simp add: wp_iff sys_def)

lemma wp_checked:
  "(\<And>a. x = Some a \<Longrightarrow> Q a w) \<Longrightarrow> (x = None \<Longrightarrow> Q d (w\<lparr>ub := True\<rparr>)) \<Longrightarrow> wp (checked d x) Q w"
  by (cases x) (simp_all add: wp_iff checked_def)

text \<open>Rules that keep only the value of a monitor; listed before the others they take precedence.\<close>

lemma wp_sys_monitor:
  assumes "\<And>r k tr. fold f (sys_events tr) m = f (e r) (fold f (sys_events (trace w)) m)
     \<Longrightarrow> Q r (w\<lparr>kst := k, trace := tr\<rparr>)"
  shows "wp (sys c e) Q w"
  by (intro wp_sys assms) simp

lemma wp_printf_monitor:
  assumes "\<And>tr. fold f (sys_events tr) m = fold f (sys_events (trace w)) m \<Longrightarrow> Q () (w\<lparr>trace := tr\<rparr>)"
  shows "wp (printf s) Q w"
  by (intro wp_printf assms) simp

lemma wp_perror_monitor:
  assumes "\<And>tr. fold f (sys_events tr) m = fold f (sys_events (trace w)) m \<Longrightarrow> Q () (w\<lparr>trace := tr\<rparr>)"
  shows "wp (perror s) Q w"
  by (intro wp_perror assms) simp

lemmas wp_monitor = wp_sys_monitor wp_printf_monitor wp_perror_monitor

text \<open>Rules that keep what is printed and forget the calls.\<close>

lemma wp_sys_text:
  assumes "\<And>r k tr. c (kst w) = (r, k) \<Longrightarrow> out_text tr = out_text (trace w) \<Longrightarrow> errs tr = errs (trace w)
     \<Longrightarrow> Q r (w\<lparr>kst := k, trace := tr\<rparr>)"
  shows "wp (sys c e) Q w"
  by (intro wp_sys assms) simp_all

lemma wp_printf_text:
  assumes "\<And>tr. out_text tr = out_text (trace w) @ s \<Longrightarrow> errs tr = errs (trace w) \<Longrightarrow> Q () (w\<lparr>trace := tr\<rparr>)"
  shows "wp (printf s) Q w"
  by (intro wp_printf assms) simp_all

lemma wp_perror_text:
  assumes "\<And>tr. out_text tr = out_text (trace w) \<Longrightarrow> errs tr = errs (trace w) @ [s] \<Longrightarrow> Q () (w\<lparr>trace := tr\<rparr>)"
  shows "wp (perror s) Q w"
  by (intro wp_perror assms) simp_all

lemmas wp_text = wp_sys_text wp_printf_text wp_perror_text

lemma wp_printf_errs:
  "(\<And>tr. errs tr = errs (trace w) \<Longrightarrow> Q () (w\<lparr>trace := tr\<rparr>)) \<Longrightarrow> wp (printf s) Q w"
  by (rule wp_printf) simp

lemma wp_perror_errs:
  "(\<And>tr. errs tr = errs (trace w) @ [s] \<Longrightarrow> Q () (w\<lparr>trace := tr\<rparr>)) \<Longrightarrow> wp (perror s) Q w"
  by (rule wp_perror) simp

lemmas wp_errs = wp_printf_errs wp_perror_errs

lemma wp_checked_quiet: "(\<And>a u. Q a (w\<lparr>ub := u\<rparr>)) \<Longrightarrow> wp (checked d x) Q w"
proof (rule wp_checked)
  assume Q: "\<And>a u. Q a (w\<lparr>ub := u\<rparr>)"
  show "Q a w" for a using Q [of a "ub w"] by simp
  show "Q d (w\<lparr>ub := True\<rparr>)" by (rule Q)
qed

lemma wp_mono: "wp m P w \<Longrightarrow> (\<And>a t. P a t \<Longrightarrow> Q a t) \<Longrightarrow> wp m Q w"
  by (simp add: wp_def)

lemma wp_conj: "wp m P w \<Longrightarrow> wp m Q w \<Longrightarrow> wp m (\<lambda>a t. P a t \<and> Q a t) w"
  by (simp add: wp_def)

lemma wp_True: "wp m (\<lambda>_ _. True) w"
  by (simp add: wp_def)

lemma wp_impI: "(P \<Longrightarrow> wp m Q w) \<Longrightarrow> wp m (\<lambda>a t. P \<longrightarrow> Q a t) w"
  by (simp add: wp_def)

lemma wp_allI: "(\<And>x. wp m (Q x) w) \<Longrightarrow> wp m (\<lambda>a t. \<forall>x. Q x a t) w"
  by (simp add: wp_def)

text \<open>To use a fact about a called function, only what it says of the result and the world is known.\<close>

lemma wp_call: "wp m P w \<Longrightarrow> (\<And>a t. P a t \<Longrightarrow> wp (f a) Q t) \<Longrightarrow> wp (State_Monad.bind m f) Q w"
  by (blast intro: wp_bind wp_mono)

lemma wp_world_of: "wp m (\<lambda>_. P) w \<longleftrightarrow> P (world_of m w)"
  by (simp add: wp_def)

lemma wp_result_of: "wp m (\<lambda>a _. P a) w \<longleftrightarrow> P (result_of m w)"
  by (simp add: wp_def)

text \<open>Equations that execute a program on a concrete kernel.\<close>

lemma run_simps:
  "run_state (printf s) w = ((), w\<lparr>trace := trace w @ [Out s]\<rparr>)"
  "run_state (perror s) w = ((), w\<lparr>trace := trace w @ [Err s]\<rparr>)"
  "run_state skip w = ((), w)"
  "run_state (sys f e) w = (case f (kst w) of (r, k) \<Rightarrow> (r, w\<lparr>kst := k, trace := trace w @ [Sys (e r)]\<rparr>))"
  "run_state (checked d None) w = (d, w\<lparr>ub := True\<rparr>)"
  "run_state (checked d (Some a)) w = (a, w)"
  by (simp_all add: printf_def perror_def emit_def skip_def sys_def checked_def)

end
