(* ===== verification/File_Kernel.thy ===== *)
theory File_Kernel
  imports Posix "HOL-Library.Word"
begin

text \<open>
  The file-system calls of \<^verbatim>\<open>file_operations.c\<close>. The record \<open>fs_kernel\<close> is the kernel as the
  program sees it: one function per system call, on a kernel state of any type. The locale
  \<open>posix_fs\<close> is the documented behaviour the program relies on, stated over a view of the kernel
  state (files, open file descriptions with their offset, descriptor table); failures and short
  transfers are allowed everywhere. \<open>ref_kernel\<close> is a kernel that keeps the contract.
\<close>

unbundle bit_operations_syntax

section \<open>Constants of fcntl.h and sys/stat.h\<close>

definition O_RDONLY :: "32 word" where "O_RDONLY = 0"
definition O_WRONLY :: "32 word" where "O_WRONLY = 1"
definition O_RDWR :: "32 word" where "O_RDWR = 2"
definition O_CREAT :: "32 word" where "O_CREAT = 0x40"
definition O_TRUNC :: "32 word" where "O_TRUNC = 0x200"
definition O_ACCMODE :: "32 word" where "O_ACCMODE = 3"

definition STDOUT_FILENO :: int where "STDOUT_FILENO = 1"

datatype whence = SEEK_SET | SEEK_END

record stat =
  st_ino :: nat
  st_size :: int
  st_blocks :: int
  st_blksize :: int
  st_nlink :: nat
  st_mode :: "32 word"
  st_mtime :: int

section \<open>The kernel as a parameter\<close>

text \<open>
  An integer result is the value returned, \<open>-1\<close> on failure. \<^verbatim>\<open>read\<close> and \<^verbatim>\<open>stat\<close> give
  \<open>None\<close> on failure and otherwise what they store through their pointer argument: for \<^verbatim>\<open>read\<close>
  the bytes, whose number is the returned count.
\<close>

record 'k fs_kernel =
  k_open :: "string \<Rightarrow> 32 word \<Rightarrow> nat \<Rightarrow> 'k \<Rightarrow> int \<times> 'k"
  k_close :: "int \<Rightarrow> 'k \<Rightarrow> int \<times> 'k"
  k_read :: "int \<Rightarrow> nat \<Rightarrow> 'k \<Rightarrow> string option \<times> 'k"
  k_write :: "int \<Rightarrow> string \<Rightarrow> 'k \<Rightarrow> int \<times> 'k"
  k_lseek :: "int \<Rightarrow> int \<Rightarrow> whence \<Rightarrow> 'k \<Rightarrow> int \<times> 'k"
  k_dup :: "int \<Rightarrow> 'k \<Rightarrow> int \<times> 'k"
  k_dup2 :: "int \<Rightarrow> int \<Rightarrow> 'k \<Rightarrow> int \<times> 'k"
  k_stat :: "string \<Rightarrow> 'k \<Rightarrow> stat option \<times> 'k"
  k_getfl :: "int \<Rightarrow> 'k \<Rightarrow> int \<times> 'k"
  k_ctime :: "int \<Rightarrow> string"

datatype fs_event =
    EOpen string "32 word" int
  | EClose int int
  | ERead int nat "string option"
  | EWrite int string int
  | ELseek int int whence int
  | EDup int int
  | EDup2 int int int
  | EStat string "stat option"
  | EGetfl int int

definition sys_open where
  "sys_open K p fl m = sys (k_open K p fl m) (EOpen p fl)"

definition sys_close where
  "sys_close K fd = sys (k_close K fd) (EClose fd)"

definition sys_read where
  "sys_read K fd n = sys (k_read K fd n) (ERead fd n)"

definition sys_write where
  "sys_write K fd bs = sys (k_write K fd bs) (EWrite fd bs)"

definition sys_lseek where
  "sys_lseek K fd off wh = sys (k_lseek K fd off wh) (ELseek fd off wh)"

definition sys_dup where
  "sys_dup K fd = sys (k_dup K fd) (EDup fd)"

definition sys_dup2 where
  "sys_dup2 K old new = sys (k_dup2 K old new) (EDup2 old new)"

definition sys_stat where
  "sys_stat K p = sys (k_stat K p) (EStat p)"

definition sys_fcntl_getfl where
  "sys_fcntl_getfl K fd = sys (k_getfl K fd) (EGetfl fd)"

lemmas fs_calls = sys_open_def sys_close_def sys_read_def sys_write_def sys_lseek_def
  sys_dup_def sys_dup2_def sys_stat_def sys_fcntl_getfl_def

definition ret_count :: "string option \<Rightarrow> int" where
  "ret_count r = (case r of None \<Rightarrow> -1 | Some bs \<Rightarrow> int (length bs))"

section \<open>The view of a file system\<close>

record ofd =
  o_path :: string
  o_off :: nat
  o_flags :: "32 word"

record fs =
  files :: "string \<rightharpoonup> string"
  ofds :: "nat \<rightharpoonup> ofd"
  fdt :: "int \<rightharpoonup> nat"

definition fs_ofd :: "int \<Rightarrow> fs \<Rightarrow> ofd option" where
  "fs_ofd fd s = (case fdt s fd of None \<Rightarrow> None | Some i \<Rightarrow> ofds s i)"

definition fs_content :: "string \<Rightarrow> fs \<Rightarrow> string" where
  "fs_content p s = (case files s p of None \<Rightarrow> [] | Some c \<Rightarrow> c)"

definition fs_open :: "string \<Rightarrow> 32 word \<Rightarrow> int \<Rightarrow> nat \<Rightarrow> fs \<Rightarrow> fs" where
  "fs_open p fl fd i s = s\<lparr>
     files := (if fl AND O_TRUNC \<noteq> 0 \<or> files s p = None then (files s)(p \<mapsto> []) else files s),
     ofds := (ofds s)(i \<mapsto> \<lparr>o_path = p, o_off = 0, o_flags = fl AND O_ACCMODE\<rparr>),
     fdt := (fdt s)(fd \<mapsto> i)\<rparr>"

definition overwrite :: "nat \<Rightarrow> string \<Rightarrow> string \<Rightarrow> string" where
  "overwrite off bs c = take off c @ replicate (off - length c) NUL @ bs @ drop (off + length bs) c"

definition fs_write :: "int \<Rightarrow> string \<Rightarrow> fs \<Rightarrow> fs" where
  "fs_write fd bs s = (case fdt s fd of None \<Rightarrow> s | Some i \<Rightarrow>
     (case ofds s i of None \<Rightarrow> s | Some d \<Rightarrow>
       s\<lparr>files := (files s)(o_path d \<mapsto> overwrite (o_off d) bs (fs_content (o_path d) s)),
         ofds := (ofds s)(i \<mapsto> d\<lparr>o_off := o_off d + length bs\<rparr>)\<rparr>))"

definition fs_seek :: "int \<Rightarrow> nat \<Rightarrow> fs \<Rightarrow> fs" where
  "fs_seek fd off s = (case fdt s fd of None \<Rightarrow> s | Some i \<Rightarrow>
     (case ofds s i of None \<Rightarrow> s | Some d \<Rightarrow> s\<lparr>ofds := (ofds s)(i \<mapsto> d\<lparr>o_off := off\<rparr>)\<rparr>))"

definition fs_rest :: "int \<Rightarrow> fs \<Rightarrow> string" where
  "fs_rest fd s = (case fs_ofd fd s of None \<Rightarrow> [] | Some d \<Rightarrow> drop (o_off d) (fs_content (o_path d) s))"

definition fs_advance :: "int \<Rightarrow> nat \<Rightarrow> fs \<Rightarrow> fs" where
  "fs_advance fd n s = (case fs_ofd fd s of None \<Rightarrow> s | Some d \<Rightarrow> fs_seek fd (o_off d + n) s)"

definition fs_target :: "int \<Rightarrow> int \<Rightarrow> whence \<Rightarrow> fs \<Rightarrow> int" where
  "fs_target fd off wh s = (case wh of SEEK_SET \<Rightarrow> off
     | SEEK_END \<Rightarrow> (case fs_ofd fd s of None \<Rightarrow> -1 | Some d \<Rightarrow> int (length (fs_content (o_path d) s)) + off))"

definition fs_close :: "int \<Rightarrow> fs \<Rightarrow> fs" where
  "fs_close fd s = s\<lparr>fdt := (fdt s)(fd := None)\<rparr>"

definition fs_alias :: "int \<Rightarrow> int \<Rightarrow> fs \<Rightarrow> fs" where
  "fs_alias old new s = s\<lparr>fdt := (fdt s)(new := fdt s old)\<rparr>"

definition fs_accmode :: "int \<Rightarrow> fs \<Rightarrow> 32 word" where
  "fs_accmode fd s = (case fs_ofd fd s of None \<Rightarrow> 0 | Some d \<Rightarrow> o_flags d AND O_ACCMODE)"

section \<open>The contract\<close>

text \<open>
  What the manual pages promise. A call that fails leaves the view as it is. A transfer may be
  short, but \<^verbatim>\<open>read\<close> gives no byte only at the end of the file.
\<close>

locale posix_fs =
  fixes K :: "'k fs_kernel" and view :: "'k \<Rightarrow> fs"
  assumes open_spec: "k_open K p fl m k = (r, k') \<Longrightarrow>
      r = -1 \<and> view k' = view k \<or>
      0 \<le> r \<and> fdt (view k) r = None \<and> (files (view k) p \<noteq> None \<or> fl AND O_CREAT \<noteq> 0) \<and>
        (\<exists>i. ofds (view k) i = None \<and> view k' = fs_open p fl r i (view k))"
    and close_spec: "k_close K fd k = (r, k') \<Longrightarrow>
      fdt (view k) fd = None \<and> r = -1 \<and> view k' = view k \<or>
      fdt (view k) fd \<noteq> None \<and> view k' = fs_close fd (view k)"
    and read_spec: "k_read K fd n k = (got, k') \<Longrightarrow>
      (case got of None \<Rightarrow> view k' = view k
       | Some bs \<Rightarrow> length bs \<le> n \<and> bs = take (length bs) (fs_rest fd (view k)) \<and>
           (bs = [] \<longrightarrow> n = 0 \<or> fs_rest fd (view k) = []) \<and>
           view k' = fs_advance fd (length bs) (view k))"
    and write_spec: "k_write K fd bs k = (r, k') \<Longrightarrow>
      r = -1 \<and> view k' = view k \<or>
      0 \<le> r \<and> r \<le> int (length bs) \<and> fdt (view k) fd \<noteq> None \<and> view k' = fs_write fd (take (nat r) bs) (view k)"
    and lseek_spec: "k_lseek K fd off wh k = (r, k') \<Longrightarrow>
      r = -1 \<and> view k' = view k \<or>
      0 \<le> r \<and> r = fs_target fd off wh (view k) \<and> view k' = fs_seek fd (nat r) (view k)"
    and dup_spec: "k_dup K fd k = (r, k') \<Longrightarrow>
      r = -1 \<and> view k' = view k \<or>
      0 \<le> r \<and> fdt (view k) r = None \<and> fdt (view k) fd \<noteq> None \<and> view k' = fs_alias fd r (view k)"
    and dup2_spec: "k_dup2 K old new k = (r, k') \<Longrightarrow>
      r = -1 \<and> view k' = view k \<or>
      r = new \<and> fdt (view k) old \<noteq> None \<and> view k' = fs_alias old new (view k)"
    and stat_spec: "k_stat K p k = (st, k') \<Longrightarrow> view k' = view k \<and>
      (case st of None \<Rightarrow> True | Some sb \<Rightarrow> \<exists>c. files (view k) p = Some c \<and> st_size sb = int (length c))"
    and getfl_spec: "k_getfl K fd k = (r, k') \<Longrightarrow> view k' = view k \<and>
      (r = -1 \<or> (word_of_int r :: 32 word) AND O_ACCMODE = fs_accmode fd (view k))"

section \<open>A kernel that keeps the contract\<close>

fun lowest_free :: "(int \<rightharpoonup> nat) \<Rightarrow> nat \<Rightarrow> int \<Rightarrow> int option" where
  "lowest_free t 0 fd = None"
| "lowest_free t (Suc n) fd = (if t fd = None then Some fd else lowest_free t n (fd + 1))"

fun unused :: "(nat \<rightharpoonup> ofd) \<Rightarrow> nat \<Rightarrow> nat \<Rightarrow> nat option" where
  "unused t 0 i = None"
| "unused t (Suc n) i = (if t i = None then Some i else unused t n (i + 1))"

text \<open>The process may have 16 descriptors and 16 open file descriptions.\<close>

definition ref_open :: "string \<Rightarrow> 32 word \<Rightarrow> nat \<Rightarrow> fs \<Rightarrow> int \<times> fs" where
  "ref_open p fl m s =
     (if files s p = None \<and> fl AND O_CREAT = 0 then (-1, s)
      else case lowest_free (fdt s) 16 0 of None \<Rightarrow> (-1, s)
        | Some fd \<Rightarrow> (case unused (ofds s) 16 0 of None \<Rightarrow> (-1, s)
          | Some i \<Rightarrow> (fd, fs_open p fl fd i s)))"

definition ref_close :: "int \<Rightarrow> fs \<Rightarrow> int \<times> fs" where
  "ref_close fd s = (if fdt s fd = None then (-1, s) else (0, fs_close fd s))"

definition ref_read :: "int \<Rightarrow> nat \<Rightarrow> fs \<Rightarrow> string option \<times> fs" where
  "ref_read fd n s = (case fs_ofd fd s of None \<Rightarrow> (None, s)
     | Some d \<Rightarrow> (let bs = take n (fs_rest fd s) in (Some bs, fs_advance fd (length bs) s)))"

definition ref_write :: "int \<Rightarrow> string \<Rightarrow> fs \<Rightarrow> int \<times> fs" where
  "ref_write fd bs s = (case fs_ofd fd s of None \<Rightarrow> (-1, s) | Some d \<Rightarrow> (int (length bs), fs_write fd bs s))"

definition ref_lseek :: "int \<Rightarrow> int \<Rightarrow> whence \<Rightarrow> fs \<Rightarrow> int \<times> fs" where
  "ref_lseek fd off wh s =
     (let t = fs_target fd off wh s in if fs_ofd fd s = None \<or> t < 0 then (-1, s) else (t, fs_seek fd (nat t) s))"

definition ref_dup :: "int \<Rightarrow> fs \<Rightarrow> int \<times> fs" where
  "ref_dup fd s = (if fdt s fd = None then (-1, s)
     else case lowest_free (fdt s) 16 0 of None \<Rightarrow> (-1, s) | Some r \<Rightarrow> (r, fs_alias fd r s))"

definition ref_dup2 :: "int \<Rightarrow> int \<Rightarrow> fs \<Rightarrow> int \<times> fs" where
  "ref_dup2 old new s = (if fdt s old = None then (-1, s) else (new, fs_alias old new s))"

definition ref_stat :: "string \<Rightarrow> fs \<Rightarrow> stat option \<times> fs" where
  "ref_stat p s = (case files s p of None \<Rightarrow> (None, s)
     | Some c \<Rightarrow> (Some \<lparr>st_ino = 1, st_size = int (length c), st_blocks = 8, st_blksize = 4096,
         st_nlink = 1, st_mode = 0x81A4, st_mtime = 0\<rparr>, s))"

definition ref_getfl :: "int \<Rightarrow> fs \<Rightarrow> int \<times> fs" where
  "ref_getfl fd s = (case fs_ofd fd s of None \<Rightarrow> (-1, s) | Some d \<Rightarrow> (uint (o_flags d AND O_ACCMODE), s))"

definition ref_kernel :: "fs fs_kernel" where
  "ref_kernel = \<lparr>k_open = ref_open, k_close = ref_close, k_read = ref_read, k_write = ref_write,
     k_lseek = ref_lseek, k_dup = ref_dup, k_dup2 = ref_dup2, k_stat = ref_stat, k_getfl = ref_getfl,
     k_ctime = (\<lambda>_. ''Thu Jan  1 00:00:00 1970\<newline>'')\<rparr>"

lemma ref_kernel_sel [simp]:
  "k_open ref_kernel = ref_open"
  "k_close ref_kernel = ref_close"
  "k_read ref_kernel = ref_read"
  "k_write ref_kernel = ref_write"
  "k_lseek ref_kernel = ref_lseek"
  "k_dup ref_kernel = ref_dup"
  "k_dup2 ref_kernel = ref_dup2"
  "k_stat ref_kernel = ref_stat"
  "k_getfl ref_kernel = ref_getfl"
  "k_ctime ref_kernel t = ''Thu Jan  1 00:00:00 1970\<newline>''"
  by (simp_all add: ref_kernel_def)

lemma lowest_free_sound: "lowest_free t n fd = Some r \<Longrightarrow> t r = None \<and> fd \<le> r"
  by (induction t n fd rule: lowest_free.induct) (auto split: if_splits)

lemma unused_sound: "unused t n i = Some r \<Longrightarrow> t r = None"
  by (induction t n i rule: unused.induct) (auto split: if_splits)

lemma fs_ofd_fdt: "fs_ofd fd s = Some d \<Longrightarrow> fdt s fd \<noteq> None"
  by (auto simp: fs_ofd_def split: option.splits)

interpretation ref_fs: posix_fs ref_kernel "\<lambda>s. s"
proof
  fix p fl m k r k'
  assume "k_open ref_kernel p fl m k = (r, k')"
  then show "r = -1 \<and> k' = k \<or>
      0 \<le> r \<and> fdt k r = None \<and> (files k p \<noteq> None \<or> fl AND O_CREAT \<noteq> 0) \<and>
        (\<exists>i. ofds k i = None \<and> k' = fs_open p fl r i k)"
    by (auto simp: ref_open_def dest: lowest_free_sound unused_sound split: if_splits option.splits)
next
  fix fd off wh k r k'
  assume "k_lseek ref_kernel fd off wh k = (r, k')"
  then show "r = -1 \<and> k' = k \<or> 0 \<le> r \<and> r = fs_target fd off wh k \<and> k' = fs_seek fd (nat r) k"
    by (auto simp: ref_lseek_def Let_def split: if_splits)
next
  fix fd n k got k'
  assume "k_read ref_kernel fd n k = (got, k')"
  then show "case got of None \<Rightarrow> k' = k
       | Some bs \<Rightarrow> length bs \<le> n \<and> bs = take (length bs) (fs_rest fd k) \<and>
           (bs = [] \<longrightarrow> n = 0 \<or> fs_rest fd k = []) \<and> k' = fs_advance fd (length bs) k"
    by (auto simp: ref_read_def Let_def min_def split: option.splits)
next
  fix fd k r k'
  assume "k_getfl ref_kernel fd k = (r, k')"
  then show "k' = k \<and> (r = -1 \<or> (word_of_int r :: 32 word) AND O_ACCMODE = fs_accmode fd k)"
    by (auto simp: ref_getfl_def fs_accmode_def split: option.splits)
qed (auto simp: ref_close_def ref_write_def ref_dup_def ref_dup2_def ref_stat_def
       dest: lowest_free_sound fs_ofd_fdt split: if_splits option.splits)

end
