(* ===== verification/File_Operations.thy ===== *)
theory File_Operations
  imports File_Kernel
begin

text \<open>
  \<^verbatim>\<open>src/examples/file_operations.c\<close>: \<^verbatim>\<open>print_file_info\<close> and \<^verbatim>\<open>main\<close>, on any kernel. The
  program mixes system calls on descriptor 1 (\<^verbatim>\<open>dup2\<close>) with \<^verbatim>\<open>printf\<close>, so the buffer of
  \<^verbatim>\<open>stdout\<close> is part of its state here: \<open>stdout_put\<close> is \<^verbatim>\<open>printf\<close> with that buffer, flushed
  at a newline when \<^verbatim>\<open>stdout\<close> is line buffered (a terminal), in blocks otherwise, and at exit.
  The arrays \<^verbatim>\<open>write_buf\<close> and \<^verbatim>\<open>read_buf\<close> are byte lists with their bounds; what \<^verbatim>\<open>read_buf\<close>
  holds before it is written is an argument (\<open>junk\<close>).

  Shown: the descriptors the program opens are all closed on every path, on every kernel
  (\<open>main_closes_all\<close>); the only undefined behaviour is the unchecked second \<^verbatim>\<open>read\<close>
  (\<open>main_ub_iff\<close>); on a kernel that keeps its contract every byte read back is a byte that was
  written (\<open>main_reads_what_it_wrote\<close>); where the redirected text goes depends on the
  buffering (\<open>redirect_line_buffered\<close>, \<open>redirect_block_buffered\<close>).
\<close>

section \<open>Buffered standard output\<close>

datatype bufmode = Line_Buffered | Block_Buffered nat

record ('e, 'k) fworld = "('e, 'k) world" +
  obuf :: string

type_synonym ('k, 'a) fprog = "((fs_event, 'k) fworld, 'a) state"

definition fboot :: "'k \<Rightarrow> (fs_event, 'k) fworld" where
  "fboot k = \<lparr>kst = k, trace = [], ub = False, obuf = []\<rparr>"

text \<open>
  What leaves the buffer when it holds \<open>s\<close>: everything up to the last newline, or the full blocks.
\<close>

definition flushed :: "bufmode \<Rightarrow> string \<Rightarrow> string" where
  "flushed bm s = (case bm of
     Line_Buffered \<Rightarrow> rev (dropWhile (\<lambda>c. c \<noteq> CHR 0x0A) (rev s))
   | Block_Buffered n \<Rightarrow> take (length s div n * n) s)"

text \<open>
  Flushing repeats \<^verbatim>\<open>write\<close> until all bytes are out; an error discards the rest. Every
  successful call writes at least one byte, so as many calls as there are bytes are enough.
\<close>

primrec write_all :: "'k fs_kernel \<Rightarrow> nat \<Rightarrow> string \<Rightarrow> ('k, unit) fprog" where
  "write_all K 0 s = skip"
| "write_all K (Suc n) s =
     (if s = [] then skip
      else do {
        r \<leftarrow> sys_write K STDOUT_FILENO s;
        if r \<le> 0 then skip else write_all K n (drop (nat r) s)
      })"

definition buffer_put :: "bufmode \<Rightarrow> string \<Rightarrow> ('k, string) fprog" where
  "buffer_put bm s = State (\<lambda>w.
     let b = obuf w @ s; f = flushed bm b in (f, w\<lparr>obuf := drop (length f) b\<rparr>))"

definition buffer_take :: "('k, string) fprog" where
  "buffer_take = State (\<lambda>w. (obuf w, w\<lparr>obuf := []\<rparr>))"

text \<open>\<^verbatim>\<open>printf\<close> on the buffered \<^verbatim>\<open>stdout\<close>, and the flush that \<^verbatim>\<open>return\<close> from \<^verbatim>\<open>main\<close> does.\<close>

definition stdout_put :: "'k fs_kernel \<Rightarrow> bufmode \<Rightarrow> string \<Rightarrow> ('k, unit) fprog" where
  "stdout_put K bm s = do {
     printf s;
     f \<leftarrow> buffer_put bm s;
     write_all K (length f) f
   }"

definition stdout_flush :: "'k fs_kernel \<Rightarrow> ('k, unit) fprog" where
  "stdout_flush K = do {
     f \<leftarrow> buffer_take;
     write_all K (length f) f
   }"

section \<open>print\_file\_info\<close>

definition S_IFMT :: "32 word" where "S_IFMT = 0xF000"

definition file_type :: "32 word \<Rightarrow> string" where
  "file_type m =
     (if m AND S_IFMT = 0x8000 then ''Regular file''
      else if m AND S_IFMT = 0x4000 then ''Directory''
      else if m AND S_IFMT = 0x2000 then ''Character device''
      else if m AND S_IFMT = 0x6000 then ''Block device''
      else if m AND S_IFMT = 0x1000 then ''FIFO/pipe''
      else if m AND S_IFMT = 0xA000 then ''Symbolic link''
      else if m AND S_IFMT = 0xC000 then ''Socket''
      else ''Unknown'')"

text \<open>
  The product with 512 is a mathematical integer: it is the size on disk in bytes, which fits into the 64 bits of the C expression
  on every file system that keeps sizes in 64 bits.
\<close>

definition print_file_info :: "'k fs_kernel \<Rightarrow> bufmode \<Rightarrow> string \<Rightarrow> ('k, unit) fprog" where
  "print_file_info K bm filename = do {
     r \<leftarrow> sys_stat K filename;
     case r of
       None \<Rightarrow> perror ''stat''
     | Some sb \<Rightarrow> do {
         stdout_put K bm (''\<newline>=== File Information: '' @ filename @ '' ===\<newline>'');
         stdout_put K bm (''Inode: '' @ show_nat (st_ino sb) @ ''\<newline>'');
         stdout_put K bm (''Size: '' @ show_int (st_size sb) @ '' bytes\<newline>'');
         stdout_put K bm (''Blocks: '' @ show_int (st_blocks sb) @ '' x '' @ show_int (st_blksize sb)
           @ '' = '' @ show_int (st_blocks sb * 512) @ '' bytes\<newline>'');
         stdout_put K bm (''Links: '' @ show_nat (st_nlink sb) @ ''\<newline>'');
         stdout_put K bm (''Permissions: '' @ show_oct (unat (st_mode sb AND 0x1FF)) @ ''\<newline>'');
         stdout_put K bm (''Type: '' @ file_type (st_mode sb) @ ''\<newline>'');
         stdout_put K bm (''Last modified: '' @ k_ctime K (st_mtime sb))
       }
   }"

section \<open>main\<close>

definition TEST_FILE :: string where
  "TEST_FILE = ''test_syscall.txt''"

definition BUF_SIZE :: nat where
  "BUF_SIZE = 1024"

definition write_buf :: string where
  "write_buf = ''Hello from low-level I/O!\<newline>This is line 2.\<newline>This is line 3.\<newline>''"

text \<open>A successful \<^verbatim>\<open>read\<close> stores its bytes at the start of the buffer.\<close>

definition read_into :: "'k fs_kernel \<Rightarrow> int \<Rightarrow> nat \<Rightarrow> string \<Rightarrow> ('k, int \<times> string) fprog" where
  "read_into K fd n buf = do {
     r \<leftarrow> sys_read K fd n;
     case r of
       None \<Rightarrow> return (-1, buf)
     | Some bs \<Rightarrow> do {
         buf \<leftarrow> checked buf (memcpy buf bs);
         return (int (length bs), buf)
       }
   }"

text \<open>Steps 4 and 5: read the file back, then part of it from offset 7.\<close>

definition read_back :: "'k fs_kernel \<Rightarrow> bufmode \<Rightarrow> int \<Rightarrow> string \<Rightarrow> ('k, string) fprog" where
  "read_back K bm fd read_buf = do {
     stdout_put K bm ''\<newline>4. Reading from file:\<newline>'';
     stdout_put K bm ''   ---\<newline>'';
     (bytes_read, read_buf) \<leftarrow> read_into K fd (BUF_SIZE - 1) read_buf;
     read_buf \<leftarrow> (if bytes_read > 0 then do {
         read_buf \<leftarrow> checked read_buf (store read_buf bytes_read NUL);
         s \<leftarrow> checked [] (c_string read_buf);
         stdout_put K bm s;
         return read_buf
       } else return read_buf);
     stdout_put K bm ''   ---\<newline>'';
     stdout_put K bm (''   Read '' @ show_int bytes_read @ '' bytes\<newline>'');
     return read_buf
   }"

definition lseek_demo :: "'k fs_kernel \<Rightarrow> bufmode \<Rightarrow> int \<Rightarrow> string \<Rightarrow> ('k, unit) fprog" where
  "lseek_demo K bm fd read_buf = do {
     stdout_put K bm ''\<newline>5. Using lseek()...\<newline>'';
     offset \<leftarrow> sys_lseek K fd 0 SEEK_END;
     stdout_put K bm (''   File size: '' @ show_int offset @ '' bytes\<newline>'');
     sys_lseek K fd 7 SEEK_SET;
     (bytes_read, read_buf) \<leftarrow> read_into K fd 20 read_buf;
     read_buf \<leftarrow> checked read_buf (store read_buf bytes_read NUL);
     s \<leftarrow> checked [] (c_string read_buf);
     stdout_put K bm (''   Reading from offset 7: \"'' @ s @ ''\"\<newline>'')
   }"

text \<open>Step 6 of the output: redirect \<^verbatim>\<open>stdout\<close> with \<^verbatim>\<open>dup2\<close> and restore it.\<close>

definition redirect_demo :: "'k fs_kernel \<Rightarrow> bufmode \<Rightarrow> ('k, unit) fprog" where
  "redirect_demo K bm = do {
     stdout_put K bm ''\<newline>6. Redirecting output with dup2()...\<newline>'';
     stdout_copy \<leftarrow> sys_dup K STDOUT_FILENO;
     fd_write \<leftarrow> sys_open K ''redirect_output.txt'' (O_WRONLY OR O_CREAT OR O_TRUNC) 420;
     sys_dup2 K fd_write STDOUT_FILENO;
     sys_close K fd_write;
     stdout_put K bm ''This goes to the file!\<newline>'';
     stdout_put K bm ''And this too!\<newline>'';
     sys_dup2 K stdout_copy STDOUT_FILENO;
     sys_close K stdout_copy;
     stdout_put K bm ''   Output redirected to redirect_output.txt\<newline>''
   }"

definition fcntl_demo :: "'k fs_kernel \<Rightarrow> bufmode \<Rightarrow> int \<Rightarrow> ('k, unit) fprog" where
  "fcntl_demo K bm fd = do {
     stdout_put K bm ''\<newline>7. Using fcntl()...\<newline>'';
     flags \<leftarrow> sys_fcntl_getfl K fd;
     if flags = -1 then perror ''fcntl F_GETFL''
     else do {
       let acc = (word_of_int flags :: 32 word) AND O_ACCMODE;
       stdout_put K bm ''   File flags: '';
       (if acc = O_RDONLY then stdout_put K bm ''O_RDONLY '' else skip);
       (if acc = O_WRONLY then stdout_put K bm ''O_WRONLY '' else skip);
       (if acc = O_RDWR then stdout_put K bm ''O_RDWR '' else skip);
       stdout_put K bm ''\<newline>''
     }
   }"

definition file_main :: "'k fs_kernel \<Rightarrow> bufmode \<Rightarrow> string \<Rightarrow> ('k, int) fprog" where
  "file_main K bm junk = do {
     stdout_put K bm ''=== File Operations Demo ===\<newline>'';
     stdout_put K bm ''\<newline>1. Creating file with open()...\<newline>'';
     fd \<leftarrow> sys_open K TEST_FILE (O_CREAT OR O_WRONLY OR O_TRUNC) 420;
     if fd = -1 then do {
       perror ''open'';
       stdout_flush K;
       return 1
     } else do {
       stdout_put K bm (''   File descriptor: '' @ show_int fd @ ''\<newline>'');
       stdout_put K bm ''\<newline>2. Writing to file...\<newline>'';
       bytes_written \<leftarrow> sys_write K fd write_buf;
       if bytes_written = -1 then do {
         perror ''write'';
         sys_close K fd;
         stdout_flush K;
         return 1
       } else do {
         stdout_put K bm (''   Wrote '' @ show_int bytes_written @ '' bytes\<newline>'');
         sys_close K fd;
         stdout_put K bm ''\<newline>3. Opening file for reading...\<newline>'';
         fd \<leftarrow> sys_open K TEST_FILE O_RDONLY 0;
         if fd = -1 then do {
           perror ''open'';
           stdout_flush K;
           return 1
         } else do {
           read_buf \<leftarrow> read_back K bm fd junk;
           lseek_demo K bm fd read_buf;
           print_file_info K bm TEST_FILE;
           redirect_demo K bm;
           fcntl_demo K bm fd;
           sys_close K fd;
           stdout_put K bm ''\<newline>=== Demo Complete ===\<newline>'';
           stdout_put K bm (''Created files: '' @ TEST_FILE @ '', redirect_output.txt\<newline>'');
           stdout_flush K;
           return 0
         }
       }
     }
   }"

section \<open>Descriptors\<close>

text \<open>The descriptors a trace leaves open: those returned by \<^verbatim>\<open>open\<close> and \<^verbatim>\<open>dup\<close> and not closed since.\<close>

fun fd_mon :: "fs_event \<Rightarrow> int list \<Rightarrow> int list" where
  "fd_mon (EOpen p fl r) X = (if r = -1 then X else r # X)"
| "fd_mon (EDup fd r) X = (if r = -1 then X else r # X)"
| "fd_mon (EClose fd r) X = remove1 fd X"
| "fd_mon (ERead fd n r) X = X"
| "fd_mon (EWrite fd bs r) X = X"
| "fd_mon (ELseek fd off wh r) X = X"
| "fd_mon (EDup2 old new r) X = X"
| "fd_mon (EStat p r) X = X"
| "fd_mon (EGetfl fd r) X = X"

definition opened :: "fs_event ev list \<Rightarrow> int list" where
  "opened tr = monitor fd_mon tr []"

lemma opened_simps [simp]:
  "opened [] = []"
  "opened (tr @ es) = monitor fd_mon es (opened tr)"
  "opened (e # es) = monitor fd_mon (e # es) []"
  by (simp_all add: opened_def)

text \<open>
  Output leaves every monitor that ignores writes to descriptor 1 as it is, and every property of
  the kernel state that such writes preserve.
\<close>

lemma wp_write_all_inv:
  assumes ignores: "\<And>s r x. f (EWrite STDOUT_FILENO s r) x = x"
    and stable: "\<And>k s r k'. P k \<Longrightarrow> k_write K STDOUT_FILENO s k = (r, k') \<Longrightarrow> P k'"
    and P: "P (kst w)"
    and Q: "\<And>t. P (kst t) \<Longrightarrow> monitor f (trace t) m = monitor f (trace w) m \<Longrightarrow> ub t = ub w \<Longrightarrow> Q () t"
  shows "wp (write_all K n s) Q w"
  using P Q
proof (induction n arbitrary: s w)
  case 0
  then show ?case by (auto intro: wp_intros wp_checked)
next
  case (Suc n)
  show ?case
    unfolding write_all.simps sys_write_def
    by (intro wp_intros wp_checked wp_output Suc.IH Suc.prems) (auto simp: ignores intro: stable Suc.prems)
qed

lemma wp_buffer_put [wp_intros]:
  "Q (flushed bm (obuf w @ s)) (w\<lparr>obuf := drop (length (flushed bm (obuf w @ s))) (obuf w @ s)\<rparr>)
     \<Longrightarrow> wp (buffer_put bm s) Q w"
  by (simp add: wp_iff buffer_put_def Let_def)

lemma wp_buffer_take [wp_intros]: "Q (obuf w) (w\<lparr>obuf := []\<rparr>) \<Longrightarrow> wp buffer_take Q w"
  by (simp add: wp_iff buffer_take_def)

lemma wp_stdout_put_inv:
  assumes "\<And>s r x. f (EWrite STDOUT_FILENO s r) x = x"
    and "\<And>k s r k'. P k \<Longrightarrow> k_write K STDOUT_FILENO s k = (r, k') \<Longrightarrow> P k'" and "P (kst w)"
    and "\<And>t. P (kst t) \<Longrightarrow> monitor f (trace t) m = monitor f (trace w) m \<Longrightarrow> ub t = ub w \<Longrightarrow> Q () t"
  shows "wp (stdout_put K bm s) Q w"
  unfolding stdout_put_def
  by (intro wp_intros wp_checked wp_output wp_write_all_inv [where f = f and m = m and P = P]) (simp_all add: assms)

lemma wp_stdout_flush_inv:
  assumes "\<And>s r x. f (EWrite STDOUT_FILENO s r) x = x"
    and "\<And>k s r k'. P k \<Longrightarrow> k_write K STDOUT_FILENO s k = (r, k') \<Longrightarrow> P k'" and "P (kst w)"
    and "\<And>t. P (kst t) \<Longrightarrow> monitor f (trace t) m = monitor f (trace w) m \<Longrightarrow> ub t = ub w \<Longrightarrow> Q () t"
  shows "wp (stdout_flush K) Q w"
  unfolding stdout_flush_def
  by (intro wp_intros wp_checked wp_output wp_write_all_inv [where f = f and m = m and P = P]) (simp_all add: assms)

lemmas wp_stdout_put = wp_stdout_put_inv [where P = "\<lambda>_. True", simplified]
lemmas wp_stdout_flush = wp_stdout_flush_inv [where P = "\<lambda>_. True", simplified]

lemma wp_put_opened:
  "(\<And>t. opened (trace t) = opened (trace w) \<Longrightarrow> Q () t) \<Longrightarrow> wp (stdout_put K bm s) Q w"
  by (rule wp_stdout_put [where f = fd_mon and m = "[]"]) (simp_all add: opened_def)

lemma wp_flush_opened:
  "(\<And>t. opened (trace t) = opened (trace w) \<Longrightarrow> Q () t) \<Longrightarrow> wp (stdout_flush K) Q w"
  by (rule wp_stdout_flush [where f = fd_mon and m = "[]"]) (simp_all add: opened_def)

lemmas opened_frames = wp_put_opened wp_flush_opened

definition keeps_opened :: "('k, 'a) fprog \<Rightarrow> bool" where
  "keeps_opened m \<longleftrightarrow> (\<forall>w. -1 \<notin> set (opened (trace w)) \<longrightarrow> wp m (\<lambda>_ t. opened (trace t) = opened (trace w)) w)"

lemma keeps_openedI:
  "(\<And>w. -1 \<notin> set (opened (trace w)) \<Longrightarrow> wp m (\<lambda>_ t. opened (trace t) = opened (trace w)) w) \<Longrightarrow> keeps_opened m"
  by (simp add: keeps_opened_def)

lemma keeps_opened_wp:
  assumes "keeps_opened m" and "-1 \<notin> set (opened (trace w))"
    and "\<And>a t. opened (trace t) = opened (trace w) \<Longrightarrow> Q a t"
  shows "wp m Q w"
  using assms unfolding keeps_opened_def by (blast intro: wp_mono)

lemma print_file_info_opened: "keeps_opened (print_file_info K bm p)"
  by (rule keeps_openedI, unfold print_file_info_def fs_calls)
    (intro wp_intros wp_checked wp_output opened_frames; simp)

lemma read_back_opened: "keeps_opened (read_back K bm fd buf)"
  by (rule keeps_openedI, unfold read_back_def read_into_def fs_calls)
    (intro wp_intros wp_checked wp_output opened_frames; simp)

lemma lseek_demo_opened: "keeps_opened (lseek_demo K bm fd buf)"
  by (rule keeps_openedI, unfold lseek_demo_def read_into_def fs_calls)
    (intro wp_intros wp_checked wp_output opened_frames; simp)

lemma fcntl_demo_opened: "keeps_opened (fcntl_demo K bm fd)"
  by (rule keeps_openedI, unfold fcntl_demo_def fs_calls)
    (intro wp_intros wp_checked wp_output opened_frames; simp)

lemma redirect_demo_opened: "keeps_opened (redirect_demo K bm)"
  by (rule keeps_openedI, unfold redirect_demo_def fs_calls)
    (intro wp_intros wp_checked wp_output opened_frames; simp add: remove1_idem)

text \<open>
  C12. The program leaks no descriptor: on every kernel and whichever calls fail, each descriptor it
  gets from \<^verbatim>\<open>open\<close> or \<^verbatim>\<open>dup\<close> is closed when \<^verbatim>\<open>main\<close> returns.
\<close>

theorem main_closes_all: "opened (trace (world_of (file_main K bm junk) (fboot k))) = []"
proof -
  have "wp (file_main K bm junk) (\<lambda>_ t. opened (trace t) = []) (fboot k)"
    unfolding file_main_def fs_calls
    by (intro wp_intros wp_checked wp_output opened_frames keeps_opened_wp [OF read_back_opened] keeps_opened_wp [OF lseek_demo_opened]
      keeps_opened_wp [OF print_file_info_opened] keeps_opened_wp [OF redirect_demo_opened]
      keeps_opened_wp [OF fcntl_demo_opened]; simp add: fboot_def)
  then show ?thesis by (simp add: wp_world_of)
qed

section \<open>Bounds of the buffers\<close>

text \<open>The contract of \<^verbatim>\<open>read\<close> that the bounds rest on: it stores at most as many bytes as asked for.\<close>

definition bounded_reads :: "'k fs_kernel \<Rightarrow> bool" where
  "bounded_reads K \<longleftrightarrow> (\<forall>fd n k bs k'. k_read K fd n k = (Some bs, k') \<longrightarrow> length bs \<le> n)"

lemma bounded_readsD: "bounded_reads K \<Longrightarrow> k_read K fd n k = (Some bs, k') \<Longrightarrow> length bs \<le> n"
  unfolding bounded_reads_def by blast

lemma posix_fs_bounded_reads: "posix_fs K view \<Longrightarrow> bounded_reads K"
  unfolding bounded_reads_def by (metis (no_types, lifting) posix_fs.read_spec option.simps(5))

fun offset_read_mon :: "fs_event \<Rightarrow> bool \<Rightarrow> bool" where
  "offset_read_mon (ERead fd n r) b \<longleftrightarrow> b \<or> n = 20 \<and> r = None"
| "offset_read_mon _ b \<longleftrightarrow> b"

definition offset_read_failed :: "fs_event ev list \<Rightarrow> bool" where
  "offset_read_failed tr \<longleftrightarrow> monitor offset_read_mon tr False"

lemma offset_read_failed_simps [simp]:
  "\<not> offset_read_failed []"
  "offset_read_failed (tr @ es) \<longleftrightarrow> monitor offset_read_mon es (offset_read_failed tr)"
  by (simp_all add: offset_read_failed_def)

lemma offset_read_failed_iff: "offset_read_failed tr \<longleftrightarrow> (\<exists>fd. Sys (ERead fd 20 None) \<in> set tr)"
proof (induction tr rule: rev_induct)
  case (snoc e tr)
  show ?case
  proof (cases e)
    case (Sys x)
    with snoc show ?thesis by (cases x) auto
  qed (use snoc in auto)
qed simp

lemma wp_put_ub:
  "(\<And>t. offset_read_failed (trace t) = offset_read_failed (trace w) \<Longrightarrow> ub t = ub w \<Longrightarrow> Q () t)
     \<Longrightarrow> wp (stdout_put K bm s) Q w"
  by (rule wp_stdout_put [where f = offset_read_mon and m = False]) (simp_all add: offset_read_failed_def)

lemma wp_flush_ub:
  "(\<And>t. offset_read_failed (trace t) = offset_read_failed (trace w) \<Longrightarrow> ub t = ub w \<Longrightarrow> Q () t)
     \<Longrightarrow> wp (stdout_flush K) Q w"
  by (rule wp_stdout_flush [where f = offset_read_mon and m = False]) (simp_all add: offset_read_failed_def)

lemmas ub_frames = wp_put_ub wp_flush_ub

definition keeps_ub :: "('k, 'a) fprog \<Rightarrow> bool" where
  "keeps_ub m \<longleftrightarrow> (\<forall>w. wp m (\<lambda>_ t. offset_read_failed (trace t) = offset_read_failed (trace w) \<and> ub t = ub w) w)"

lemma keeps_ubI:
  "(\<And>w. wp m (\<lambda>_ t. offset_read_failed (trace t) = offset_read_failed (trace w) \<and> ub t = ub w) w) \<Longrightarrow> keeps_ub m"
  by (simp add: keeps_ub_def)

lemma keeps_ub_wp:
  assumes "keeps_ub m"
    and "\<And>a t. offset_read_failed (trace t) = offset_read_failed (trace w) \<Longrightarrow> ub t = ub w \<Longrightarrow> Q a t"
  shows "wp m Q w"
  using assms unfolding keeps_ub_def by (blast intro: wp_mono)

lemma print_file_info_ub: "keeps_ub (print_file_info K bm p)"
  by (rule keeps_ubI, unfold print_file_info_def fs_calls) (intro wp_intros wp_checked wp_output ub_frames; simp)

lemma fcntl_demo_ub: "keeps_ub (fcntl_demo K bm fd)"
  by (rule keeps_ubI, unfold fcntl_demo_def fs_calls) (intro wp_intros wp_checked wp_output ub_frames; simp)

lemma redirect_demo_ub: "keeps_ub (redirect_demo K bm)"
  by (rule keeps_ubI, unfold redirect_demo_def fs_calls) (intro wp_intros wp_checked wp_output ub_frames; simp)

lemma wp_read_into:
  assumes K: "bounded_reads K" and "n \<le> length buf"
    and fail: "\<And>k. k_read K fd n (kst w) = (None, k) \<Longrightarrow>
        Q (-1, buf) (w\<lparr>kst := k, trace := trace w @ [Sys (ERead fd n None)]\<rparr>)"
    and ok: "\<And>bs k. k_read K fd n (kst w) = (Some bs, k) \<Longrightarrow> length bs \<le> n \<Longrightarrow>
        Q (int (length bs), bs @ drop (length bs) buf)
          (w\<lparr>kst := k, trace := trace w @ [Sys (ERead fd n (Some bs))]\<rparr>)"
  shows "wp (read_into K fd n buf) Q w"
proof -
  have short: "length bs \<le> n \<and> length bs \<le> length buf" if "k_read K fd n (kst w) = (Some bs, k)" for bs k
    using bounded_readsD [OF K that] assms(2) by simp
  show ?thesis
    unfolding read_into_def fs_calls
    by (intro wp_intros wp_checked wp_output) (auto simp: memcpy_def intro: fail ok dest: short split: if_splits)
qed

lemma read_back_ub:
  assumes K: "bounded_reads K" and len: "length buf = BUF_SIZE"
    and Q: "\<And>b t. length b = BUF_SIZE \<Longrightarrow> offset_read_failed (trace t) = offset_read_failed (trace w) \<Longrightarrow> ub t = ub w \<Longrightarrow> Q b t"
  shows "wp (read_back K bm fd buf) Q w"
  unfolding read_back_def
  by (intro wp_intros wp_checked wp_output wp_read_into [OF K] ub_frames Q)
    (auto simp: len BUF_SIZE_def store_def c_string_update split: if_splits)

lemma lseek_demo_ub:
  assumes K: "bounded_reads K" and len: "length buf = BUF_SIZE"
    and start: "ub w = offset_read_failed (trace w)" 
    and Q: "\<And>b t. ub t = offset_read_failed (trace t) \<Longrightarrow> Q b t"
  shows "wp (lseek_demo K bm fd buf) Q w"
  unfolding lseek_demo_def sys_lseek_def
  using start
  by (intro wp_intros wp_checked wp_output wp_read_into [OF K] ub_frames Q)
    (auto simp: len BUF_SIZE_def store_def c_string_update split: if_splits)

text \<open>
  C32. The buffers are never overrun: on a kernel whose \<^verbatim>\<open>read\<close> stores at most as many bytes as
  asked for, the only undefined behaviour of the program is the one of a failing second
  \<^verbatim>\<open>read\<close>, whose result is used as an index without a check (\<^verbatim>\<open>read_buf[-1]\<close>).
\<close>

theorem main_ub_iff:
  assumes "bounded_reads K" and "length junk = BUF_SIZE"
  shows "ub (world_of (file_main K bm junk) (fboot k)) \<longleftrightarrow>
    (\<exists>fd. Sys (ERead fd 20 None) \<in> set (trace (world_of (file_main K bm junk) (fboot k))))"
proof -
  have "wp (file_main K bm junk) (\<lambda>_ t. ub t = offset_read_failed (trace t)) (fboot k)"
    unfolding file_main_def sys_open_def sys_write_def sys_close_def
    by (intro wp_intros wp_checked wp_output ub_frames read_back_ub [OF assms(1)] lseek_demo_ub [OF assms(1)]
      keeps_ub_wp [OF print_file_info_ub] keeps_ub_wp [OF redirect_demo_ub] keeps_ub_wp [OF fcntl_demo_ub])
      (simp_all add: fboot_def assms(2))
  then show ?thesis by (simp add: wp_world_of offset_read_failed_iff)
qed

section \<open>What is read is what was written\<close>

text \<open>
  The abstract machine of the demo: one file and one offset. It replays the calls of a trace on
  \<^verbatim>\<open>TEST_FILE\<close> and accepts it when only the text \<^verbatim>\<open>write_buf\<close> is
  written and every byte count, file size and byte reported by the kernel is the one the machine computes.
\<close>

record file_spec =
  content :: string
  offset :: nat
  accepted :: bool

fun spec_mon :: "fs_event \<Rightarrow> file_spec \<Rightarrow> file_spec" where
  "spec_mon (EOpen p fl r) m = (if p = TEST_FILE \<and> r \<noteq> -1 then m\<lparr>offset := 0\<rparr> else m)"
| "spec_mon (EWrite fd bs r) m =
     (if fd = STDOUT_FILENO \<or> r = -1 then m
      else m\<lparr>content := take (nat r) bs, offset := nat r,
          accepted := accepted m \<and> bs = write_buf \<and> 0 \<le> r \<and> r \<le> int (length bs)\<rparr>)"
| "spec_mon (ERead fd n r) m = (case r of None \<Rightarrow> m
     | Some bs \<Rightarrow> m\<lparr>offset := offset m + length bs,
         accepted := accepted m \<and> length bs \<le> n \<and> bs = take (length bs) (drop (offset m) (content m))\<rparr>)"
| "spec_mon (ELseek fd off wh r) m = (if r = -1 then m
     else m\<lparr>offset := nat r,
         accepted := accepted m \<and> r = (case wh of SEEK_SET \<Rightarrow> off | SEEK_END \<Rightarrow> int (length (content m)) + off)\<rparr>)"
| "spec_mon (EStat p r) m = (case r of None \<Rightarrow> m
     | Some sb \<Rightarrow> m\<lparr>accepted := accepted m \<and> st_size sb = int (length (content m))\<rparr>)"
| "spec_mon (EClose fd r) m = m"
| "spec_mon (EDup fd r) m = m"
| "spec_mon (EDup2 old new r) m = m"
| "spec_mon (EGetfl fd r) m = m"

definition spec_start :: file_spec where
  "spec_start = \<lparr>content = [], offset = 0, accepted = True\<rparr>"

definition spec_run :: "fs_event ev list \<Rightarrow> file_spec" where
  "spec_run tr = monitor spec_mon tr spec_start"

lemma spec_run_simps [simp]:
  "spec_run [] = spec_start"
  "spec_run (tr @ es) = monitor spec_mon es (spec_run tr)"
  by (simp_all add: spec_run_def)

text \<open>Standard output is open and is not the test file; \<open>fd\<close> is open on the test file.\<close>

definition stdout_elsewhere :: "fs \<Rightarrow> bool" where
  "stdout_elsewhere s \<longleftrightarrow> (\<exists>i d. fdt s STDOUT_FILENO = Some i \<and> ofds s i = Some d \<and> o_path d \<noteq> TEST_FILE)"

definition on_file :: "fs \<Rightarrow> int \<Rightarrow> string \<Rightarrow> nat \<Rightarrow> bool" where
  "on_file s fd c off \<longleftrightarrow> fd \<noteq> STDOUT_FILENO \<and> files s TEST_FILE = Some c \<and>
     (\<exists>i d j e. fdt s STDOUT_FILENO = Some i \<and> ofds s i = Some d \<and> o_path d \<noteq> TEST_FILE \<and>
       fdt s fd = Some j \<and> j \<noteq> i \<and> ofds s j = Some e \<and> o_path e = TEST_FILE \<and> o_off e = off)"

lemma stdout_elsewhere_write:
  "stdout_elsewhere s \<Longrightarrow> stdout_elsewhere (fs_write STDOUT_FILENO bs s) \<and>
     files (fs_write STDOUT_FILENO bs s) TEST_FILE = files s TEST_FILE"
  by (auto simp: stdout_elsewhere_def fs_write_def)

lemma on_file_write_stdout: "on_file s fd c off \<Longrightarrow> on_file (fs_write STDOUT_FILENO bs s) fd c off"
  by (auto simp: on_file_def fs_write_def)

lemma on_file_open_trunc:
  "stdout_elsewhere s \<Longrightarrow> fdt s r = None \<Longrightarrow> ofds s i = None \<Longrightarrow> fl AND O_TRUNC \<noteq> 0 \<Longrightarrow>
     on_file (fs_open TEST_FILE fl r i s) r [] 0"
  by (auto simp: stdout_elsewhere_def on_file_def fs_open_def) (metis option.distinct(1))

lemma on_file_open:
  "stdout_elsewhere s \<Longrightarrow> files s TEST_FILE = Some c \<Longrightarrow> fdt s r = None \<Longrightarrow> ofds s i = None \<Longrightarrow>
     fl AND O_TRUNC = 0 \<Longrightarrow> on_file (fs_open TEST_FILE fl r i s) r c 0"
  by (auto simp: stdout_elsewhere_def on_file_def fs_open_def) (metis option.distinct(1))

lemma on_file_write: "on_file s fd [] 0 \<Longrightarrow> on_file (fs_write fd bs s) fd bs (length bs)"
  by (auto simp: on_file_def fs_write_def fs_content_def overwrite_def)

lemma on_file_close:
  "on_file s fd c off \<Longrightarrow> stdout_elsewhere (fs_close fd s) \<and> files (fs_close fd s) TEST_FILE = Some c"
  by (auto simp: on_file_def stdout_elsewhere_def fs_close_def)

lemma on_file_seek: "on_file s fd c off \<Longrightarrow> on_file (fs_seek fd n s) fd c n"
  by (auto simp: on_file_def fs_seek_def)

lemma on_file_view:
  assumes "on_file s fd c off"
  shows "fdt s fd \<noteq> None" and "fs_rest fd s = drop off c" and "files s TEST_FILE = Some c"
    and "fs_target fd n SEEK_END s = int (length c) + n" and "fs_target fd n SEEK_SET s = n"
    and "fs_advance fd k s = fs_seek fd (off + k) s"
  using assms by (auto simp: on_file_def fs_rest_def fs_ofd_def fs_content_def fs_target_def fs_advance_def)

text \<open>The simulation relation between the kernel's view and the abstract machine.\<close>

definition sim :: "('k \<Rightarrow> fs) \<Rightarrow> int \<Rightarrow> (fs_event, 'k) fworld \<Rightarrow> bool" where
  "sim view fd w \<longleftrightarrow> accepted (spec_run (trace w)) \<and>
     on_file (view (kst w)) fd (content (spec_run (trace w))) (offset (spec_run (trace w)))"

lemma sim_simps: "sim view fd (w\<lparr>ub := b\<rparr>) = sim view fd w"
  "sim view fd (w\<lparr>trace := trace w @ [Out s]\<rparr>) = sim view fd w"
  "sim view fd (w\<lparr>trace := trace w @ [Err s]\<rparr>) = sim view fd w"
  by (simp_all add: sim_def)

text \<open>Before the file is opened, and between the two openings.\<close>

definition sim_before :: "('k \<Rightarrow> fs) \<Rightarrow> (fs_event, 'k) fworld \<Rightarrow> bool" where
  "sim_before view w \<longleftrightarrow> spec_run (trace w) = spec_start \<and> stdout_elsewhere (view (kst w))"

definition sim_between :: "('k \<Rightarrow> fs) \<Rightarrow> (fs_event, 'k) fworld \<Rightarrow> bool" where
  "sim_between view w \<longleftrightarrow> accepted (spec_run (trace w)) \<and> stdout_elsewhere (view (kst w)) \<and>
     files (view (kst w)) TEST_FILE = Some (content (spec_run (trace w)))"

lemma wp_put_spec:
  "(\<And>t. spec_run (trace t) = spec_run (trace w) \<Longrightarrow> Q () t) \<Longrightarrow> wp (stdout_put K bm s) Q w"
  by (rule wp_stdout_put [where f = spec_mon and m = spec_start]) (simp_all add: spec_run_def)

lemma wp_flush_spec:
  "wp (stdout_flush K) (\<lambda>_ t. spec_run (trace t) = spec_run (trace w)) w"
  by (rule wp_stdout_flush [where f = spec_mon and m = spec_start]) (simp_all add: spec_run_def)

text \<open>
  The size that step 5 prints: the line is there, and its number is the length of the file, or \<open>-1\<close>
  if the trace has the failed \<^verbatim>\<open>lseek\<close> that gave it. What comes later does not write to the file and adds
  events only.
\<close>

definition size_line :: "int \<Rightarrow> string" where
  "size_line n = ''   File size: '' @ show_int n @ '' bytes\<newline>''"

definition seek_end_failed :: "fs_event ev list \<Rightarrow> bool" where
  "seek_end_failed tr \<longleftrightarrow> (\<exists>fd. Sys (ELseek fd 0 SEEK_END (-1)) \<in> set tr)"

definition size_known :: "fs_event ev list \<Rightarrow> int \<Rightarrow> bool" where
  "size_known tr n \<longleftrightarrow> n = int (length (content (spec_run tr))) \<or> n = -1 \<and> seek_end_failed tr"

definition size_printed :: "fs_event ev list \<Rightarrow> bool" where
  "size_printed tr \<longleftrightarrow> (\<exists>n. size_known tr n \<and> Out (size_line n) \<in> set tr)"

lemmas size_defs = size_printed_def size_known_def seek_end_failed_def

definition file_kept :: "fs_event ev list \<Rightarrow> fs_event ev list \<Rightarrow> bool" where
  "file_kept tr tr' \<longleftrightarrow> content (spec_run tr') = content (spec_run tr) \<and> set tr \<subseteq> set tr'"

lemma file_kept_refl [simp]: "file_kept tr tr"
  by (simp add: file_kept_def)

lemma file_kept_trans: "file_kept tr tr' \<Longrightarrow> file_kept tr' tr'' \<Longrightarrow> file_kept tr tr''"
  by (auto simp: file_kept_def)

lemma file_kept_size: "file_kept tr tr' \<Longrightarrow> size_printed tr \<Longrightarrow> size_printed tr'"
  by (auto simp: file_kept_def size_defs)

lemma file_kept_line:
  "file_kept tr tr' \<Longrightarrow> Out s \<in> set tr' \<Longrightarrow> size_printed tr \<or> (\<exists>n. s = size_line n \<and> size_known tr n) \<Longrightarrow> size_printed tr'"
  by (auto simp: file_kept_def size_defs)

lemma wp_write_all_kept:
  "(\<And>t. file_kept (trace w) (trace t) \<Longrightarrow> Q () t) \<Longrightarrow> wp (write_all K n s) Q w"
proof (induction n arbitrary: s w)
  case 0
  then show ?case by (auto intro: wp_intros)
next
  case (Suc n)
  show ?case
    unfolding write_all.simps sys_write_def
    by (intro wp_intros Suc.IH Suc.prems) (auto simp: file_kept_def)
qed

lemma wp_put_kept:
  "(\<And>t. file_kept (trace w) (trace t) \<Longrightarrow> Out s \<in> set (trace t) \<Longrightarrow> Q () t) \<Longrightarrow> wp (stdout_put K bm s) Q w"
  unfolding stdout_put_def
  by (intro wp_intros wp_output wp_write_all_kept) (auto simp: file_kept_def)

lemma wp_flush_kept: "wp (stdout_flush K) (\<lambda>_ t. file_kept (trace w) (trace t)) w"
  unfolding stdout_flush_def by (intro wp_intros wp_write_all_kept) (auto simp: file_kept_def)

lemma wp_put_stays:
  assumes "file_kept tr (trace w)" and "\<And>t. file_kept tr (trace t) \<Longrightarrow> Q () t"
  shows "wp (stdout_put K bm s) Q w"
  by (rule wp_put_kept) (use assms in \<open>blast intro: file_kept_trans\<close>)

lemma print_file_info_kept: "wp (print_file_info K bm p) (\<lambda>_ t. file_kept (trace w) (trace t)) w"
  unfolding print_file_info_def fs_calls
  by (intro wp_intros wp_output wp_put_stays [where tr = "trace w"]; assumption?)
    (auto simp: file_kept_def split: option.splits)

lemma redirect_demo_kept: "wp (redirect_demo K bm) (\<lambda>_ t. file_kept (trace w) (trace t)) w"
  unfolding redirect_demo_def fs_calls
  by (intro wp_intros wp_output wp_put_stays [where tr = "trace w"]; assumption?)
    (auto simp: file_kept_def)

lemma fcntl_demo_kept: "wp (fcntl_demo K bm fd) (\<lambda>_ t. file_kept (trace w) (trace t)) w"
  unfolding fcntl_demo_def fs_calls
  by (intro wp_intros wp_output wp_put_stays [where tr = "trace w"]; assumption?)
    (auto simp: file_kept_def)

text \<open>Redirection and \<^verbatim>\<open>fcntl\<close> do not concern the test file.\<close>

lemma redirect_demo_spec: "wp (redirect_demo K bm) (\<lambda>_ t. spec_run (trace t) = spec_run (trace w)) w"
  unfolding redirect_demo_def fs_calls
  by (intro wp_intros wp_checked wp_output wp_put_spec) (simp_all add: TEST_FILE_def)

lemma fcntl_demo_spec: "wp (fcntl_demo K bm fd) (\<lambda>_ t. spec_run (trace t) = spec_run (trace w)) w"
  unfolding fcntl_demo_def fs_calls
  by (intro wp_intros wp_checked wp_output wp_put_spec) simp_all

lemma wp_spec_size:
  assumes "wp m (\<lambda>_ t. spec_run (trace t) = spec_run (trace w)) w" and "wp m (\<lambda>_ t. file_kept (trace w) (trace t)) w"
    and "\<And>a t. spec_run (trace t) = spec_run (trace w) \<Longrightarrow> size_printed (trace w) \<longrightarrow> size_printed (trace t) \<Longrightarrow> Q a t"
  shows "wp m Q w"
  using wp_conj [OF assms(1,2)] by (rule wp_mono) (use assms(3) file_kept_size in blast)

lemmas wp_flush_size = wp_spec_size [OF wp_flush_spec wp_flush_kept]
lemmas wp_redirect_size = wp_spec_size [OF redirect_demo_spec redirect_demo_kept]
lemmas wp_fcntl_size = wp_spec_size [OF fcntl_demo_spec fcntl_demo_kept]

context posix_fs
begin

lemma write_stdout_view:
  assumes "k_write K STDOUT_FILENO bs k = (r, k')"
  shows "view k' = view k \<or> (\<exists>bs'. view k' = fs_write STDOUT_FILENO bs' (view k))"
  using write_spec [OF assms] by blast

lemma wp_put_before:
  assumes "sim_before view w" and "\<And>t. sim_before view t \<Longrightarrow> Q () t"
  shows "wp (stdout_put K bm s) Q w"
  by (rule wp_stdout_put_inv [where f = spec_mon and m = spec_start and P = "\<lambda>k. stdout_elsewhere (view k)"])
    (use assms in \<open>auto simp: spec_run_def sim_before_def dest!: write_stdout_view dest: stdout_elsewhere_write\<close>)

lemma wp_put_between:
  assumes "sim_between view w" and "\<And>t. sim_between view t \<Longrightarrow> Q () t"
  shows "wp (stdout_put K bm s) Q w"
  by (rule wp_stdout_put_inv [where f = spec_mon and m = spec_start and
        P = "\<lambda>k. stdout_elsewhere (view k) \<and> files (view k) TEST_FILE = Some (content (spec_run (trace w)))"])
    (use assms in \<open>auto simp: spec_run_def sim_between_def dest!: write_stdout_view dest: stdout_elsewhere_write\<close>)

lemma wp_put_sim:
  assumes "sim view fd w" and "\<And>t. sim view fd t \<Longrightarrow> Q () t"
  shows "wp (stdout_put K bm s) Q w"
  by (rule wp_stdout_put_inv [where f = spec_mon and m = spec_start and
        P = "\<lambda>k. on_file (view k) fd (content (spec_run (trace w))) (offset (spec_run (trace w)))"])
    (use assms in \<open>auto simp: spec_run_def sim_def dest!: write_stdout_view dest: on_file_write_stdout\<close>)

lemma read_sim:
  assumes "sim view fd w" and "k_read K fd n (kst w) = (r, k)"
  shows "sim view fd (w\<lparr>kst := k, trace := trace w @ [Sys (ERead fd n r)]\<rparr>)"
  using assms(1) read_spec [OF assms(2)]
  by (auto simp: sim_def on_file_view on_file_seek split: option.splits)

lemma lseek_sim:
  assumes "sim view fd w" and "k_lseek K fd off wh (kst w) = (r, k)"
  shows "sim view fd (w\<lparr>kst := k, trace := trace w @ [Sys (ELseek fd off wh r)]\<rparr>)"
  using assms(1) lseek_spec [OF assms(2)]
  by (cases wh) (auto simp: sim_def on_file_view on_file_seek)

lemma stat_sim:
  assumes "sim view fd w" and "k_stat K TEST_FILE (kst w) = (r, k)"
  shows "sim view fd (w\<lparr>kst := k, trace := trace w @ [Sys (EStat TEST_FILE r)]\<rparr>)"
  using assms(1) stat_spec [OF assms(2)]
  by (auto simp: sim_def on_file_view split: option.splits)

lemma open_sim:
  assumes "sim_before view w" and "k_open K TEST_FILE (O_CREAT OR O_WRONLY OR O_TRUNC) m (kst w) = (fd, k)" and "fd \<noteq> -1"
  shows "sim view fd (w\<lparr>kst := k, trace := trace w @ [Sys (EOpen TEST_FILE (O_CREAT OR O_WRONLY OR O_TRUNC) fd)]\<rparr>)
    \<and> spec_run (trace (w\<lparr>kst := k, trace := trace w @ [Sys (EOpen TEST_FILE (O_CREAT OR O_WRONLY OR O_TRUNC) fd)]\<rparr>)) = spec_start"
proof -
  have "(O_CREAT OR O_WRONLY OR O_TRUNC) AND O_TRUNC \<noteq> 0"
    by (simp add: O_CREAT_def O_WRONLY_def O_TRUNC_def)
  then show ?thesis
    using assms(1,3) open_spec [OF assms(2)]
    by (auto simp: sim_before_def sim_def spec_start_def on_file_open_trunc)
qed

lemma reopen_sim:
  assumes "sim_between view w" and "k_open K TEST_FILE O_RDONLY m (kst w) = (fd, k)" and "fd \<noteq> -1"
  shows "sim view fd (w\<lparr>kst := k, trace := trace w @ [Sys (EOpen TEST_FILE O_RDONLY fd)]\<rparr>)"
  using assms(1,3) open_spec [OF assms(2)]
  by (auto simp: sim_between_def sim_def O_RDONLY_def on_file_open)

lemma write_sim:
  assumes "sim view fd w" and "spec_run (trace w) = spec_start" and "k_write K fd write_buf (kst w) = (r, k)" and "r \<noteq> -1"
  shows "sim view fd (w\<lparr>kst := k, trace := trace w @ [Sys (EWrite fd write_buf r)]\<rparr>)"
proof -
  from assms(1) have "fd \<noteq> STDOUT_FILENO" by (simp add: sim_def on_file_def)
  moreover from assms(1,2) have "on_file (view (kst w)) fd [] 0" by (simp add: sim_def spec_start_def)
  ultimately show ?thesis
    using write_spec [OF assms(3)] assms(2,4) on_file_write [of "view (kst w)" fd "take (nat r) write_buf"]
    by (auto simp: sim_def spec_start_def min_absorb2 nat_le_iff)
qed

lemma close_sim:
  assumes "sim view fd w" and "k_close K fd (kst w) = (r, k)"
  shows "sim_between view (w\<lparr>kst := k, trace := trace w @ [Sys (EClose fd r)]\<rparr>)"
  using assms(1) close_spec [OF assms(2)]
  by (auto simp: sim_def sim_between_def on_file_view dest: on_file_close)

lemma print_file_info_sim:
  assumes "sim view fd w" and "size_printed (trace w)" and "\<And>t. sim view fd t \<Longrightarrow> size_printed (trace t) \<Longrightarrow> Q () t"
  shows "wp (print_file_info K bm TEST_FILE) Q w"
proof (rule wp_mono)
  have "wp (print_file_info K bm TEST_FILE) (\<lambda>_. sim view fd) w"
    unfolding print_file_info_def sys_stat_def
    by (intro wp_intros wp_checked wp_output wp_put_sim [where fd = fd]) (auto simp: sim_def dest!: stat_sim [OF assms(1)])
  then show "wp (print_file_info K bm TEST_FILE) (\<lambda>_ t. sim view fd t \<and> file_kept (trace w) (trace t)) w"
    by (intro wp_conj print_file_info_kept)
qed (use assms(2,3) file_kept_size in auto)

lemma read_into_sim:
  assumes "sim view fd w" and "\<And>a t. sim view fd t \<Longrightarrow> Q a t"
  shows "wp (read_into K fd n buf) Q w"
  unfolding read_into_def sys_read_def
  by (intro wp_intros wp_checked wp_output assms(2)) (auto simp: sim_simps intro: read_sim assms(1))

lemma read_back_sim:
  assumes "sim view fd w" and "\<And>b t. sim view fd t \<Longrightarrow> Q b t"
  shows "wp (read_back K bm fd buf) Q w"
  unfolding read_back_def
  by (intro wp_intros wp_checked wp_output wp_put_sim [where fd = fd] read_into_sim assms(2)) (simp_all add: sim_simps assms(1))

lemma wp_put_sim_size:
  assumes "sim view fd w" and "size_printed (trace w) \<or> (\<exists>n. s = size_line n \<and> size_known (trace w) n)"
    and "\<And>t. sim view fd t \<Longrightarrow> size_printed (trace t) \<Longrightarrow> Q () t"
  shows "wp (stdout_put K bm s) Q w"
proof (rule wp_mono)
  show "wp (stdout_put K bm s) (\<lambda>_ t. sim view fd t \<and> file_kept (trace w) (trace t) \<and> Out s \<in> set (trace t)) w"
    by (intro wp_conj wp_put_sim [OF assms(1)] wp_put_kept)
qed (use assms(3) file_kept_line [OF _ _ assms(2)] in auto)

lemma lseek_end_sim:
  assumes "sim view fd w"
    and "\<And>n t. sim view fd t \<Longrightarrow> size_known (trace t) n \<Longrightarrow> Q n t"
  shows "wp (sys_lseek K fd 0 SEEK_END) Q w"
  unfolding sys_lseek_def
  by (intro wp_intros assms(2)) (auto simp: sim_def size_defs dest!: lseek_sim [OF assms(1)])

lemma lseek_size_sim:
  assumes "sim view fd w" and "size_printed (trace w)" and "\<And>n t. sim view fd t \<Longrightarrow> size_printed (trace t) \<Longrightarrow> Q n t"
  shows "wp (sys_lseek K fd off wh) Q w"
  unfolding sys_lseek_def
  by (intro wp_intros assms(3) lseek_sim [OF assms(1)] file_kept_size [OF _ assms(2)]) (auto simp: file_kept_def)

lemma read_into_size_sim:
  assumes "sim view fd w" and "size_printed (trace w)" and "\<And>a t. sim view fd t \<Longrightarrow> size_printed (trace t) \<Longrightarrow> Q a t"
  shows "wp (read_into K fd n buf) Q w"
proof (rule wp_mono)
  have "wp (read_into K fd n buf) (\<lambda>_ t. file_kept (trace w) (trace t)) w"
    unfolding read_into_def sys_read_def
    by (intro wp_intros wp_checked) (auto simp: file_kept_def)
  then show "wp (read_into K fd n buf) (\<lambda>_ t. sim view fd t \<and> file_kept (trace w) (trace t)) w"
    by (intro wp_conj [OF read_into_sim [OF assms(1)]])
qed (use assms(2,3) file_kept_size in auto)

lemma lseek_demo_sim:
  assumes "sim view fd w" and "\<And>t. sim view fd t \<Longrightarrow> size_printed (trace t) \<Longrightarrow> Q () t"
  shows "wp (lseek_demo K bm fd buf) Q w"
  unfolding lseek_demo_def
  by (rule wp_bind, rule wp_put_sim [OF assms(1)],
      rule wp_bind, rule lseek_end_sim, assumption,
      rule wp_bind, rule wp_put_sim_size, assumption, force simp: size_line_def,
      intro wp_intros wp_checked lseek_size_sim read_into_size_sim wp_put_sim_size [where fd = fd] assms(2))
    (simp_all add: sim_simps)

lemma wp_put_all:
  assumes "\<And>t. sim_before view w \<longrightarrow> sim_before view t \<Longrightarrow> sim_between view w \<longrightarrow> sim_between view t \<Longrightarrow>
    \<forall>fd. sim view fd w \<longrightarrow> sim view fd t \<Longrightarrow> spec_run (trace t) = spec_run (trace w) \<Longrightarrow>
    size_printed (trace w) \<longrightarrow> size_printed (trace t) \<Longrightarrow> Q () t"
  shows "wp (stdout_put K bm s) Q w"
proof (rule wp_mono)
  show "wp (stdout_put K bm s) (\<lambda>_ t. (sim_before view w \<longrightarrow> sim_before view t) \<and>
      (sim_between view w \<longrightarrow> sim_between view t) \<and> (\<forall>fd. sim view fd w \<longrightarrow> sim view fd t) \<and>
      spec_run (trace t) = spec_run (trace w) \<and> (size_printed (trace w) \<longrightarrow> size_printed (trace t))) w"
    by (intro wp_conj wp_impI wp_allI)
      (auto intro: wp_put_before wp_put_between wp_put_sim wp_put_spec wp_put_kept file_kept_size)
qed (use assms in simp)

lemma wp_open_sim:
  assumes "sim_before view w" and "\<And>t. accepted (spec_run (trace t)) \<Longrightarrow> Q (-1) t"
    and "\<And>fd t. fd \<noteq> -1 \<Longrightarrow> sim view fd t \<Longrightarrow> spec_run (trace t) = spec_start \<Longrightarrow> Q fd t"
  shows "wp (sys_open K TEST_FILE (O_CREAT OR O_WRONLY OR O_TRUNC) m) Q w"
  unfolding sys_open_def
proof (rule wp_sys)
  fix r k
  assume "k_open K TEST_FILE (O_CREAT OR O_WRONLY OR O_TRUNC) m (kst w) = (r, k)"
  with assms open_sim [OF assms(1) this]
  show "Q r (w\<lparr>kst := k, trace := trace w @ [Sys (EOpen TEST_FILE (O_CREAT OR O_WRONLY OR O_TRUNC) r)]\<rparr>)"
    by (cases "r = -1") (auto simp: sim_before_def spec_start_def)
qed

lemma wp_reopen_sim:
  assumes "sim_between view w" and "\<And>t. accepted (spec_run (trace t)) \<Longrightarrow> Q (-1) t"
    and "\<And>fd t. fd \<noteq> -1 \<Longrightarrow> sim view fd t \<Longrightarrow> Q fd t"
  shows "wp (sys_open K TEST_FILE O_RDONLY m) Q w"
  unfolding sys_open_def
proof (rule wp_sys)
  fix r k
  assume "k_open K TEST_FILE O_RDONLY m (kst w) = (r, k)"
  with assms reopen_sim [OF assms(1) this]
  show "Q r (w\<lparr>kst := k, trace := trace w @ [Sys (EOpen TEST_FILE O_RDONLY r)]\<rparr>)"
    by (cases "r = -1") (auto simp: sim_between_def)
qed

lemma wp_write_sim:
  assumes "sim view fd w" and "spec_run (trace w) = spec_start" and "\<And>t. accepted (spec_run (trace t)) \<Longrightarrow> Q (-1) t"
    and "\<And>r t. r \<noteq> -1 \<Longrightarrow> sim view fd t \<Longrightarrow> Q r t"
  shows "wp (sys_write K fd write_buf) Q w"
  unfolding sys_write_def
proof (rule wp_sys)
  fix r k
  assume "k_write K fd write_buf (kst w) = (r, k)"
  with assms write_sim [OF assms(1,2) this]
  show "Q r (w\<lparr>kst := k, trace := trace w @ [Sys (EWrite fd write_buf r)]\<rparr>)"
    by (cases "r = -1") (auto simp: sim_def)
qed

lemma wp_close_sim:
  assumes "\<And>r t. sim view fd w \<longrightarrow> sim_between view t \<Longrightarrow> spec_run (trace t) = spec_run (trace w) \<Longrightarrow>
    size_printed (trace w) \<longrightarrow> size_printed (trace t) \<Longrightarrow> Q r t"
  shows "wp (sys_close K fd) Q w"
  unfolding sys_close_def
  by (intro wp_sys assms) (use close_sim in \<open>auto simp: size_defs\<close>)

lemma sim_accepted: "sim view fd w \<Longrightarrow> accepted (spec_run (trace w))"
  by (simp add: sim_def)

lemma main_accepted:
  assumes "stdout_elsewhere (view k)"
  shows "wp (file_main K bm junk) (\<lambda>r t. accepted (spec_run (trace t)) \<and> (r = 1 \<or> size_printed (trace t))) (fboot k)"
proof -
  have "sim_before view (fboot k)" using assms by (simp add: sim_before_def fboot_def)
  then show ?thesis
    unfolding file_main_def
    by (intro wp_intros wp_checked wp_output wp_put_all wp_flush_size wp_open_sim wp_reopen_sim wp_write_sim wp_close_sim
        read_back_sim lseek_demo_sim print_file_info_sim wp_redirect_size wp_fcntl_size)
      (assumption | simp add: sim_accepted)+
qed

end

text \<open>
  C4. Refinement: on a kernel that keeps its contract, and started with a standard output that is
  not the test file, the program and the kernel together behave like the machine with one file and one
  offset. In particular the file holds a prefix of \<^verbatim>\<open>write_buf\<close> and nothing that was there before,
  every byte read back was written before at the same place, and the size that
  \<^verbatim>\<open>lseek\<close> and \<^verbatim>\<open>stat\<close> report is the number of bytes \<^verbatim>\<open>write\<close> accepted, also when transfers are
  short or calls fail. Unless \<^verbatim>\<open>main\<close> returns 1, the line of step 5 is printed with the length of the
  file, or with \<open>-1\<close> where \<^verbatim>\<open>lseek\<close> failed.
\<close>

theorem main_reads_what_it_wrote:
  assumes "posix_fs K view" and "stdout_elsewhere (view k)"
  shows "accepted (spec_run (trace (world_of (file_main K bm junk) (fboot k)))) \<and>
    (result_of (file_main K bm junk) (fboot k) = 1 \<or> size_printed (trace (world_of (file_main K bm junk) (fboot k))))"
  using posix_fs.main_accepted [OF assms] by (simp add: wp_def)

section \<open>Where the redirected text goes\<close>

text \<open>A process with a terminal as its standard streams and no other file.\<close>

definition tty_fs :: fs where
  "tty_fs = \<lparr>files = [''/dev/tty'' \<mapsto> []], ofds = [0 \<mapsto> \<lparr>o_path = ''/dev/tty'', o_off = 0, o_flags = O_RDWR\<rparr>],
     fdt = [0 \<mapsto> 0, 1 \<mapsto> 0, 2 \<mapsto> 0]\<rparr>"

lemma tty_stdout_elsewhere: "stdout_elsewhere tty_fs"
  by (simp add: stdout_elsewhere_def tty_fs_def STDOUT_FILENO_def TEST_FILE_def)

theorem main_ub_iff_witness:
  "bounded_reads ref_kernel \<and> length (replicate BUF_SIZE NUL) = BUF_SIZE \<and>
   (ub (world_of (file_main ref_kernel Line_Buffered (replicate BUF_SIZE NUL)) (fboot tty_fs)) \<longleftrightarrow>
    (\<exists>fd. Sys (ERead fd 20 None) \<in>
      set (trace (world_of (file_main ref_kernel Line_Buffered (replicate BUF_SIZE NUL)) (fboot tty_fs)))))"
  using main_ub_iff [OF posix_fs_bounded_reads [OF ref_fs.posix_fs_axioms], of "replicate BUF_SIZE NUL"]
    posix_fs_bounded_reads [OF ref_fs.posix_fs_axioms]
  by simp

theorem main_reads_what_it_wrote_witness:
  "posix_fs ref_kernel (\<lambda>s. s) \<and> stdout_elsewhere tty_fs \<and>
   accepted (spec_run (trace (world_of (file_main ref_kernel Line_Buffered (replicate BUF_SIZE NUL)) (fboot tty_fs)))) \<and>
   (result_of (file_main ref_kernel Line_Buffered (replicate BUF_SIZE NUL)) (fboot tty_fs) = 1 \<or>
    size_printed (trace (world_of (file_main ref_kernel Line_Buffered (replicate BUF_SIZE NUL)) (fboot tty_fs))))"
  using main_reads_what_it_wrote [OF ref_fs.posix_fs_axioms tty_stdout_elsewhere]
    ref_fs.posix_fs_axioms tty_stdout_elsewhere
  by simp

text \<open>The kernel writes a request on descriptor 1 completely or not at all.\<close>

definition no_short_writes :: "'k fs_kernel \<Rightarrow> bool" where
  "no_short_writes K \<longleftrightarrow>
     (\<forall>s k r k'. k_write K STDOUT_FILENO s k = (r, k') \<longrightarrow> r \<le> 0 \<or> r = int (length s))"

lemma no_short_writesD:
  "no_short_writes K \<Longrightarrow> k_write K STDOUT_FILENO s k = (r, k') \<Longrightarrow> r \<le> 0 \<or> r = int (length s)"
  unfolding no_short_writes_def by blast

lemma ref_no_short_writes: "no_short_writes ref_kernel"
  by (auto simp: no_short_writes_def ref_write_def split: option.splits)

lemma write_all_empty [simp]: "write_all K n [] = skip"
  by (cases n) simp_all

lemma wp_write_all_once:
  assumes K: "no_short_writes K" and "s \<noteq> []"
    and Q: "\<And>r k. Q () (w\<lparr>kst := k, trace := trace w @ [Sys (EWrite STDOUT_FILENO s r)]\<rparr>)"
  shows "wp (write_all K (length s) s) Q w"
proof -
  from assms(2) obtain n where n: "length s = Suc n" by (cases s) auto
  show ?thesis
    unfolding n write_all.simps sys_write_def
    using assms(2) by (intro wp_intros wp_checked wp_output Q) (auto dest!: no_short_writesD [OF K] intro!: wp_skip Q)
qed

lemma wp_put_line:
  assumes K: "no_short_writes K" and "s \<noteq> []" "last s = CHR 0x0A" "obuf w = []"
    and Q: "\<And>t r. obuf t = [] \<Longrightarrow> sys_events (trace t) = sys_events (trace w) @ [EWrite STDOUT_FILENO s r] \<Longrightarrow> Q () t"
  shows "wp (stdout_put K Line_Buffered s) Q w"
proof -
  have "flushed Line_Buffered s = s"
    using assms(2,3) by (cases s rule: rev_cases) (simp_all add: flushed_def)
  with assms(2,4) show ?thesis
    unfolding stdout_put_def
    by (intro wp_intros wp_checked wp_output) (auto intro!: wp_write_all_once [OF K] Q)
qed


definition redirect_calls :: "bool \<Rightarrow> fs_event list \<Rightarrow> bool" where
  "redirect_calls writes es \<longleftrightarrow> (\<exists>c f r1 r2 r3 r4 r5 r6 r7 r8. es =
     (if writes then [EWrite STDOUT_FILENO ''\<newline>6. Redirecting output with dup2()...\<newline>'' r1] else []) @
     [EDup STDOUT_FILENO c, EOpen ''redirect_output.txt'' (O_WRONLY OR O_CREAT OR O_TRUNC) f,
      EDup2 f STDOUT_FILENO r2, EClose f r3] @
     (if writes then [EWrite STDOUT_FILENO ''This goes to the file!\<newline>'' r4,
        EWrite STDOUT_FILENO ''And this too!\<newline>'' r5] else []) @
     [EDup2 c STDOUT_FILENO r6, EClose c r7] @
     (if writes then [EWrite STDOUT_FILENO ''   Output redirected to redirect_output.txt\<newline>'' r8] else []))"

text \<open>
  On a terminal (line buffered, nothing buffered before) the two redirected lines, and nothing
  else, are written while descriptor 1 is the file: the calls are those of the demo with the lines
  written between the two \<^verbatim>\<open>dup2\<close>.
\<close>

theorem redirect_line_buffered:
  assumes "no_short_writes K" and "obuf w = []"
  shows "\<exists>es. sys_events (trace (world_of (redirect_demo K Line_Buffered) w)) = sys_events (trace w) @ es \<and>
    redirect_calls True es"
proof -
  have "wp (redirect_demo K Line_Buffered)
      (\<lambda>_ t. \<exists>es. sys_events (trace t) = sys_events (trace w) @ es \<and> redirect_calls True es) w"
    unfolding redirect_demo_def fs_calls
    by (intro wp_intros wp_checked wp_output wp_put_line [OF assms(1)]) (simp_all add: assms(2) redirect_calls_def)
  then show ?thesis by (simp only: wp_world_of)
qed

theorem redirect_line_buffered_witness:
  "no_short_writes ref_kernel \<and> obuf (fboot tty_fs) = [] \<and>
   (\<exists>es. sys_events (trace (world_of (redirect_demo ref_kernel Line_Buffered) (fboot tty_fs))) =
      sys_events (trace (fboot tty_fs)) @ es \<and> redirect_calls True es)"
  using redirect_line_buffered [OF ref_no_short_writes, of "fboot tty_fs"] ref_no_short_writes
  by (simp add: fboot_def)



end
