(* ===== verification/Socket_Kernel.thy ===== *)
theory Socket_Kernel
  imports Posix "HOL-Library.Word"
begin

text \<open>
  The socket calls of \<^verbatim>\<open>tcp_server.c\<close> and \<^verbatim>\<open>tcp_client.c\<close>: the kernel as a parameter, the events of
  a trace, byte order of ports, the conversion of the port argument, and the monitor of the open
  sockets of a trace.
\<close>

unbundle bit_operations_syntax

section \<open>Addresses\<close>

text \<open>An IPv4 address is its four bytes in memory order; a port is kept in network byte order.\<close>

type_synonym in_addr = "8 word \<times> 8 word \<times> 8 word \<times> 8 word"

record sockaddr_in =
  sin_addr :: in_addr
  sin_port :: "16 word"

definition INADDR_ANY :: in_addr where
  "INADDR_ANY = (0, 0, 0, 0)"

text \<open>Both conversions swap the two bytes on a little-endian machine.\<close>

definition htons :: "16 word \<Rightarrow> 16 word" where
  "htons x = (push_bit 8 x) OR (drop_bit 8 x)"

definition ntohs :: "16 word \<Rightarrow> 16 word" where
  "ntohs x = (push_bit 8 x) OR (drop_bit 8 x)"

definition inet_ntop :: "in_addr \<Rightarrow> string" where
  "inet_ntop ip = (case ip of (a, b, c, d) \<Rightarrow>
     show_nat (unat a) @ ''.'' @ show_nat (unat b) @ ''.'' @ show_nat (unat c) @ ''.'' @ show_nat (unat d))"

lemma ntohs_htons [simp]: "ntohs (htons x) = x"
proof (rule bit_word_eqI)
  fix n
  assume "n < LENGTH(16)"
  then show "bit (ntohs (htons x)) n = bit x n"
    by (auto simp: ntohs_def htons_def bit_simps)
qed

text \<open>The port the kernel sees when the program passes the \<^verbatim>\<open>int\<close> \<open>p\<close> to \<^verbatim>\<open>htons\<close>.\<close>

lemma uint_port: "uint (ntohs (htons (word_of_int p))) = p mod 65536"
  by (simp add: uint_word_of_int)

section \<open>The kernel as a parameter\<close>

definition EINTR :: int where "EINTR = 4"

text \<open>
  \<^verbatim>\<open>accept\<close> gives the error number or the descriptor with the address of the client; \<^verbatim>\<open>recv\<close>
  gives \<open>None\<close> on failure and otherwise the bytes stored. \<open>k_inet_pton\<close> is the address parser
  of the C library.
\<close>

record 'k net_kernel =
  k_socket :: "'k \<Rightarrow> int \<times> 'k"
  k_setsockopt :: "int \<Rightarrow> 'k \<Rightarrow> int \<times> 'k"
  k_bind :: "int \<Rightarrow> sockaddr_in \<Rightarrow> 'k \<Rightarrow> int \<times> 'k"
  k_listen :: "int \<Rightarrow> int \<Rightarrow> 'k \<Rightarrow> int \<times> 'k"
  k_accept :: "int \<Rightarrow> 'k \<Rightarrow> (int + int \<times> sockaddr_in) \<times> 'k"
  k_connect :: "int \<Rightarrow> sockaddr_in \<Rightarrow> 'k \<Rightarrow> int \<times> 'k"
  k_recv :: "int \<Rightarrow> nat \<Rightarrow> 'k \<Rightarrow> string option \<times> 'k"
  k_send :: "int \<Rightarrow> string \<Rightarrow> 'k \<Rightarrow> int \<times> 'k"
  k_sclose :: "int \<Rightarrow> 'k \<Rightarrow> int \<times> 'k"
  k_inet_pton :: "string \<Rightarrow> in_addr option"

datatype net_event =
    ESocket int
  | ESetsockopt int int
  | EBind int sockaddr_in int
  | EListen int int int
  | EAccept int "int + int \<times> sockaddr_in"
  | EConnect int sockaddr_in int
  | ERecv int nat "string option"
  | ESend int string int
  | ESclose int int

definition sys_socket where
  "sys_socket K = sys (k_socket K) ESocket"

definition sys_setsockopt where
  "sys_setsockopt K fd = sys (k_setsockopt K fd) (ESetsockopt fd)"

definition sys_bind where
  "sys_bind K fd a = sys (k_bind K fd a) (EBind fd a)"

definition sys_listen where
  "sys_listen K fd n = sys (k_listen K fd n) (EListen fd n)"

definition sys_accept where
  "sys_accept K fd = sys (k_accept K fd) (EAccept fd)"

definition sys_connect where
  "sys_connect K fd a = sys (k_connect K fd a) (EConnect fd a)"

definition sys_recv where
  "sys_recv K fd n = sys (k_recv K fd n) (ERecv fd n)"

definition sys_send where
  "sys_send K fd bs = sys (k_send K fd bs) (ESend fd bs)"

definition sys_sclose where
  "sys_sclose K fd = sys (k_sclose K fd) (ESclose fd)"

lemmas net_calls = sys_socket_def sys_setsockopt_def sys_bind_def sys_listen_def sys_accept_def
  sys_connect_def sys_recv_def sys_send_def sys_sclose_def

definition BUFFER_SIZE :: nat where "BUFFER_SIZE = 1024"

definition DEFAULT_PORT :: int where "DEFAULT_PORT = 8080"

text \<open>\<^verbatim>\<open>port = atoi(argv[i])\<close>: a number that is no \<^verbatim>\<open>int\<close> is undefined behaviour of \<^verbatim>\<open>atoi\<close>.\<close>

definition port_argument :: "string list \<Rightarrow> nat \<Rightarrow> ('e, 'k, 'z, int) prog" where
  "port_argument argv i = (if i < length argv
     then checked 0 (if int_range (atoi (argv ! i)) then Some (atoi (argv ! i)) else None)
     else return DEFAULT_PORT)"

definition port_ok :: "string list \<Rightarrow> nat \<Rightarrow> bool" where
  "port_ok argv i \<longleftrightarrow> (i < length argv \<longrightarrow> int_range (atoi (argv ! i)))"

lemma wp_port_argument:
  "(\<And>p. Q p w) \<Longrightarrow> (\<And>p. \<not> port_ok argv i \<Longrightarrow> Q p (w\<lparr>ub := True\<rparr>)) \<Longrightarrow> wp (port_argument argv i) Q w"
  unfolding port_argument_def port_ok_def
  by (intro wp_intros wp_checked) (auto split: if_splits)

section \<open>Open sockets of a trace\<close>

fun sock_mon :: "net_event \<Rightarrow> int list \<Rightarrow> int list" where
  "sock_mon (ESocket r) X = (if r = -1 then X else r # X)"
| "sock_mon (EAccept fd r) X = (case r of Inl e \<Rightarrow> X | Inr (c, a) \<Rightarrow> c # X)"
| "sock_mon (ESclose fd r) X = remove1 fd X"
| "sock_mon (ESetsockopt fd r) X = X"
| "sock_mon (EBind fd a r) X = X"
| "sock_mon (EListen fd n r) X = X"
| "sock_mon (EConnect fd a r) X = X"
| "sock_mon (ERecv fd n r) X = X"
| "sock_mon (ESend fd bs r) X = X"

definition open_sockets :: "net_event ev list \<Rightarrow> int list" where
  "open_sockets tr = monitor sock_mon tr []"

lemma open_sockets_simps [simp]:
  "open_sockets [] = []"
  "open_sockets (tr @ es) = monitor sock_mon es (open_sockets tr)"
  "open_sockets (e # es) = monitor sock_mon (e # es) []"
  by (simp_all add: open_sockets_def)

section \<open>Bounds\<close>

text \<open>The contract of \<^verbatim>\<open>recv\<close>: at most as many bytes as asked for are stored.\<close>

definition bounded_recv :: "'k net_kernel \<Rightarrow> bool" where
  "bounded_recv K \<longleftrightarrow> (\<forall>fd n k bs k'. k_recv K fd n k = (Some bs, k') \<longrightarrow> length bs \<le> n)"

lemma bounded_recvD: "bounded_recv K \<Longrightarrow> k_recv K fd n k = (Some bs, k') \<Longrightarrow> length bs \<le> n"
  unfolding bounded_recv_def by blast

text \<open>\<^verbatim>\<open>recv\<close> into the start of a buffer: the count and the new buffer.\<close>

definition recv_into :: "'k net_kernel \<Rightarrow> int \<Rightarrow> nat \<Rightarrow> string \<Rightarrow> (net_event, 'k, 'z, int \<times> string) prog" where
  "recv_into K fd n buf = do {
     r \<leftarrow> sys_recv K fd n;
     case r of
       None \<Rightarrow> return (-1, buf)
     | Some bs \<Rightarrow> do {
         buf \<leftarrow> checked buf (memcpy buf bs);
         return (int (length bs), buf)
       }
   }"

lemma wp_recv_into:
  assumes K: "bounded_recv K" and "n \<le> length buf"
    and fail: "\<And>k. k_recv K fd n (kst w) = (None, k) \<Longrightarrow>
        Q (-1, buf) (w\<lparr>kst := k, trace := trace w @ [Sys (ERecv fd n None)]\<rparr>)"
    and ok: "\<And>bs k. k_recv K fd n (kst w) = (Some bs, k) \<Longrightarrow> length bs \<le> n \<Longrightarrow>
        Q (int (length bs), bs @ drop (length bs) buf)
          (w\<lparr>kst := k, trace := trace w @ [Sys (ERecv fd n (Some bs))]\<rparr>)"
  shows "wp (recv_into K fd n buf) Q w"
proof -
  have short: "length bs \<le> n \<and> length bs \<le> length buf" if "k_recv K fd n (kst w) = (Some bs, k)" for bs k
    using bounded_recvD [OF K that] assms(2) by simp
  show ?thesis
    unfolding recv_into_def net_calls
    by (intro wp_intros wp_checked) (auto simp: memcpy_def intro: fail ok dest: short split: if_splits)
qed

end
