(* ===== verification/Tcp_Server.thy ===== *)
theory Tcp_Server
  imports Socket_Kernel
begin

text \<open>
  \<^verbatim>\<open>src/examples/tcp_server.c\<close>. The two nested \<^verbatim>\<open>while (1)\<close> loops never end by themselves, so the
  server is a machine whose step is one iteration of the accept loop or of the echo loop;
  \<open>server_run K sfd n\<close> executes \<open>n\<close> iterations and every theorem holds for every \<open>n\<close>, that is for
  every prefix of the infinite execution. \<open>tcp_server_main\<close> returns \<open>Some\<close> exit code when the
  set-up fails and \<open>None\<close> as long as the server is in its loops.

  Shown, for every kernel: at most one client is connected at any time and no socket is leaked
  (\<open>server_sockets\<close>); for every kernel that respects the length given to \<^verbatim>\<open>recv\<close>: the buffer is
  never overrun (\<open>server_no_ub\<close>), and every chunk received is sent back unchanged, on the same
  connection and before the next one is received (\<open>server_echoes\<close>).
\<close>

section \<open>The accept loop and the echo loop\<close>

datatype spc = Accepting | Echoing int string int

definition client_tag :: "string \<Rightarrow> int \<Rightarrow> string" where
  "client_tag ip port = ''[Client '' @ ip @ '':'' @ show_int port @ ''] ''"

text \<open>Lines 77 to 95: one iteration of the accept loop up to its inner loop.\<close>

definition accept_iteration :: "'k net_kernel \<Rightarrow> int \<Rightarrow> (net_event, 'k, 'z, spc) prog" where
  "accept_iteration K server_fd = do {
     r \<leftarrow> sys_accept K server_fd;
     case r of
       Inl errno \<Rightarrow>
         if errno = EINTR then return Accepting
         else do {
           perror ''accept'';
           return Accepting
         }
     | Inr (client_fd, client_addr) \<Rightarrow> do {
         let client_ip = inet_ntop (sin_addr client_addr);
         let client_port = uint (ntohs (sin_port client_addr));
         printf (client_tag client_ip client_port @ ''Connected\<newline>'');
         return (Echoing client_fd client_ip client_port)
       }
   }"

text \<open>Lines 125 to 127: after the inner loop.\<close>

definition close_client :: "'k net_kernel \<Rightarrow> int \<Rightarrow> string \<Rightarrow> int \<Rightarrow> (net_event, 'k, 'z, spc) prog" where
  "close_client K client_fd client_ip client_port = do {
     sys_sclose K client_fd;
     printf (client_tag client_ip client_port @ ''Connection closed\<newline>\<newline>'');
     return Accepting
   }"

text \<open>Lines 97 to 123: one iteration of the echo loop.\<close>

definition echo_iteration ::
  "'k net_kernel \<Rightarrow> int \<Rightarrow> string \<Rightarrow> int \<Rightarrow> string \<Rightarrow> (net_event, 'k, 'z, spc \<times> string) prog" where
  "echo_iteration K client_fd client_ip client_port buffer = do {
     (bytes_read, buffer) \<leftarrow> recv_into K client_fd (BUFFER_SIZE - 1) buffer;
     if bytes_read \<le> 0 then do {
       (if bytes_read = 0 then printf (client_tag client_ip client_port @ ''Disconnected\<newline>'')
        else perror ''recv'');
       pc \<leftarrow> close_client K client_fd client_ip client_port;
       return (pc, buffer)
     } else do {
       buffer \<leftarrow> checked buffer (store buffer bytes_read NUL);
       text \<leftarrow> checked [] (c_string buffer);
       printf (client_tag client_ip client_port @ ''Received '' @ show_int bytes_read @ '' bytes: '' @ text);
       bytes_sent \<leftarrow> sys_send K client_fd (take (nat bytes_read) buffer);
       if bytes_sent = -1 then do {
         perror ''send'';
         pc \<leftarrow> close_client K client_fd client_ip client_port;
         return (pc, buffer)
       } else do {
         printf (client_tag client_ip client_port @ ''Echoed '' @ show_int bytes_sent @ '' bytes\<newline>'');
         return (Echoing client_fd client_ip client_port, buffer)
       }
     }
   }"

fun server_step :: "'k net_kernel \<Rightarrow> int \<Rightarrow> spc \<times> string \<Rightarrow> (net_event, 'k, 'z, spc \<times> string) prog" where
  "server_step K sfd (Accepting, buf) = do { pc \<leftarrow> accept_iteration K sfd; return (pc, buf) }"
| "server_step K sfd (Echoing fd ip port, buf) = echo_iteration K fd ip port buf"

primrec server_run ::
  "'k net_kernel \<Rightarrow> int \<Rightarrow> nat \<Rightarrow> spc \<times> string \<Rightarrow> (net_event, 'k, 'z, spc \<times> string) prog" where
  "server_run K sfd 0 st = return st"
| "server_run K sfd (Suc n) st = do { st \<leftarrow> server_step K sfd st; server_run K sfd n st }"

section \<open>main\<close>

definition BACKLOG :: int where "BACKLOG = 5"

definition tcp_server_main ::
  "'k net_kernel \<Rightarrow> string list \<Rightarrow> string \<Rightarrow> nat \<Rightarrow> (net_event, 'k, 'z, int option) prog" where
  "tcp_server_main K argv buffer n = do {
     port \<leftarrow> port_argument argv 1;
     printf ''=== TCP Echo Server ===\<newline>'';
     server_fd \<leftarrow> sys_socket K;
     if server_fd = -1 then do {
       perror ''socket'';
       return (Some 1)
     } else do {
       printf ''[Server] Socket created\<newline>'';
       r \<leftarrow> sys_setsockopt K server_fd;
       (if r = -1 then perror ''setsockopt'' else skip);
       let server_addr = \<lparr>sin_addr = INADDR_ANY, sin_port = htons (word_of_int port)\<rparr>;
       r \<leftarrow> sys_bind K server_fd server_addr;
       if r = -1 then do {
         perror ''bind'';
         sys_sclose K server_fd;
         return (Some 1)
       } else do {
         printf (''[Server] Bound to port '' @ show_int port @ ''\<newline>'');
         r \<leftarrow> sys_listen K server_fd BACKLOG;
         if r = -1 then do {
           perror ''listen'';
           sys_sclose K server_fd;
           return (Some 1)
         } else do {
           printf ''[Server] Listening for connections...\<newline>'';
           printf ''[Server] Press Ctrl+C to stop\<newline>\<newline>'';
           server_run K server_fd n (Accepting, buffer);
           return None
         }
       }
     }
   }"

section \<open>Proof rules for the loops\<close>

text \<open>
  An invariant of the server: a predicate on the program point, the buffer and the world that
  every iteration keeps.
\<close>

locale server_invariant =
  fixes K :: "'k net_kernel" and sfd :: int and I :: "spc \<Rightarrow> string \<Rightarrow> (net_event, 'k, 'z) world_scheme \<Rightarrow> bool"
  assumes accept_inv: "I Accepting buf w \<Longrightarrow> wp (accept_iteration K sfd) (\<lambda>pc t. I pc buf t) w"
    and echo_inv: "I (Echoing fd ip port) buf w \<Longrightarrow>
      wp (echo_iteration K fd ip port buf) (\<lambda>r t. I (fst r) (snd r) t) w"
begin

lemma step_inv:
  assumes "I (fst st) (snd st) w"
  shows "wp (server_step K sfd st) (\<lambda>st t. I (fst st) (snd st) t) w"
proof (cases st)
  case (Pair pc buf)
  with assms show ?thesis
    by (cases pc) (auto intro!: wp_call [OF accept_inv] wp_return echo_inv)
qed

lemma run_inv:
  assumes "I (fst st) (snd st) w"
  shows "wp (server_run K sfd n st) (\<lambda>st t. I (fst st) (snd st) t) w"
  using assms
proof (induction n arbitrary: st w)
  case 0
  then show ?case by (auto intro: wp_intros wp_checked)
next
  case (Suc n)
  then show ?case by (auto intro: wp_call step_inv)
qed

end

section \<open>Sockets\<close>

definition sockets_inv :: "int \<Rightarrow> spc \<Rightarrow> string \<Rightarrow> (net_event, 'k, 'z) world_scheme \<Rightarrow> bool" where
  "sockets_inv sfd pc buf w \<longleftrightarrow> open_sockets (trace w) =
     (case pc of Accepting \<Rightarrow> [sfd] | Echoing fd ip port \<Rightarrow> [fd, sfd])"

interpretation server_sockets_sys: server_invariant K sfd "sockets_inv sfd"
proof
  show "wp (accept_iteration K sfd) (\<lambda>pc t. sockets_inv sfd pc buf t) w"
    if "sockets_inv sfd Accepting buf w" for buf w
    using that unfolding accept_iteration_def net_calls
    by (intro wp_intros wp_checked wp_quiet) (auto simp: sockets_inv_def open_sockets_def monitor_def split: sum.splits intro!: wp_intros wp_checked wp_quiet)
  show "wp (echo_iteration K fd ip port buf) (\<lambda>r t. sockets_inv sfd (fst r) (snd r) t) w"
    if "sockets_inv sfd (Echoing fd ip port) buf w" for fd ip port buf w
    using that unfolding echo_iteration_def close_client_def recv_into_def net_calls
    by (intro wp_intros wp_checked wp_quiet) (auto simp: sockets_inv_def open_sockets_def monitor_def)
qed

text \<open>
  C15. On every kernel and after any number of iterations: if the set-up fails, the exit code is 1
  and no socket is left open; otherwise \<^verbatim>\<open>main\<close> has not returned, and the sockets open are the
  listening one and at most one connection, so every connection is closed before the next is accepted.
\<close>

theorem server_sockets:
  "case result_of (tcp_server_main K argv buffer n) (boot k) of
     Some code \<Rightarrow> code = 1 \<and> open_sockets (trace (world_of (tcp_server_main K argv buffer n) (boot k))) = []
   | None \<Rightarrow> \<exists>sfd c. open_sockets (trace (world_of (tcp_server_main K argv buffer n) (boot k))) \<in> {[sfd], [c, sfd]}"
proof -
  have "wp (tcp_server_main K argv buffer n) (\<lambda>r t. case r of
     Some code \<Rightarrow> code = 1 \<and> open_sockets (trace t) = []
   | None \<Rightarrow> \<exists>sfd c. open_sockets (trace t) \<in> {[sfd], [c, sfd]}) (boot k)"
    unfolding tcp_server_main_def net_calls
    by (intro wp_intros wp_checked wp_quiet wp_port_argument wp_mono [OF server_sockets_sys.run_inv])
      (auto simp: boot_def sockets_inv_def open_sockets_def monitor_def split: spc.splits)
  then show ?thesis by (simp only: wp_def)
qed

section \<open>Bounds of the buffer\<close>

definition buffer_inv :: "spc \<Rightarrow> string \<Rightarrow> (net_event, 'k, 'z) world_scheme \<Rightarrow> bool" where
  "buffer_inv pc buf w \<longleftrightarrow> \<not> ub w \<and> length buf = BUFFER_SIZE"

lemma accept_buffer_inv:
  "buffer_inv Accepting buf w \<Longrightarrow> wp (accept_iteration K sfd) (\<lambda>pc t. buffer_inv pc buf t) w"
  unfolding accept_iteration_def net_calls
  by (intro wp_intros wp_checked wp_quiet) (auto simp: buffer_inv_def)

lemma echo_buffer_inv:
  assumes "bounded_recv K" and "buffer_inv (Echoing fd ip port) buf w"
  shows "wp (echo_iteration K fd ip port buf) (\<lambda>r t. buffer_inv (fst r) (snd r) t) w"
  using assms(2) unfolding echo_iteration_def close_client_def sys_send_def sys_sclose_def
  by (intro wp_intros wp_checked wp_quiet wp_recv_into [OF assms(1)])
    (auto simp: buffer_inv_def BUFFER_SIZE_def store_def c_string_update split: if_splits)

text \<open>
  C33. On a kernel that respects the length given to \<^verbatim>\<open>recv\<close>, with a port argument in the range of
  \<^verbatim>\<open>int\<close>, the server never accesses its buffer out of bounds, whatever clients send and however
  long it runs.
\<close>

theorem server_no_ub:
  assumes "bounded_recv K" and "port_ok argv 1" and "length buffer = BUFFER_SIZE"
  shows "\<not> ub (world_of (tcp_server_main K argv buffer n) (boot k))"
proof -
  have *: "server_invariant K sfd buffer_inv" for sfd
    by unfold_locales (simp_all add: accept_buffer_inv echo_buffer_inv [OF assms(1)])
  have "wp (tcp_server_main K argv buffer n) (\<lambda>_ t. \<not> ub t) (boot k)"
    unfolding tcp_server_main_def net_calls
    by (intro wp_intros wp_checked wp_quiet wp_port_argument wp_mono [OF server_invariant.run_inv [OF *]])
      (use assms in \<open>auto simp: boot_def buffer_inv_def\<close>)
  then show ?thesis by (simp add: wp_world_of)
qed

section \<open>Echo\<close>

text \<open>
  The specification of an echo server with one client at a time. \<open>pending\<close> is the chunk received
  and not yet sent back; \<open>received\<close> and \<open>echoed\<close> are the bytes of the current connection.
\<close>

record echo_spec =
  conn :: "int option"
  pending :: "string option"
  received :: string
  echoed :: string
  conforms :: bool

fun echo_mon :: "net_event \<Rightarrow> echo_spec \<Rightarrow> echo_spec" where
  "echo_mon (EAccept fd r) m = (case r of Inl e \<Rightarrow> m
     | Inr (c, a) \<Rightarrow> m\<lparr>conn := Some c, received := [], echoed := [], conforms := conforms m \<and> conn m = None\<rparr>)"
| "echo_mon (ERecv fd n r) m = (case r of None \<Rightarrow> m
     | Some bs \<Rightarrow> m\<lparr>pending := (if bs = [] then None else Some bs), received := received m @ bs,
         conforms := conforms m \<and> conn m = Some fd \<and> pending m = None\<rparr>)"
| "echo_mon (ESend fd bs r) m = m\<lparr>pending := None, echoed := echoed m @ take (nat r) bs,
     conforms := conforms m \<and> conn m = Some fd \<and> pending m = Some bs\<rparr>"
| "echo_mon (ESclose fd r) m = (if conn m = Some fd then m\<lparr>conn := None\<rparr> else m)"
| "echo_mon (ESocket r) m = m"
| "echo_mon (ESetsockopt fd r) m = m"
| "echo_mon (EBind fd a r) m = m"
| "echo_mon (EListen fd n r) m = m"
| "echo_mon (EConnect fd a r) m = m"

definition echo_start :: echo_spec where
  "echo_start = \<lparr>conn = None, pending = None, received = [], echoed = [], conforms = True\<rparr>"

definition echo_run :: "net_event ev list \<Rightarrow> echo_spec" where
  "echo_run tr = monitor echo_mon tr echo_start"

lemma echo_run_simps [simp]:
  "echo_run [] = echo_start"
  "echo_run (tr @ es) = monitor echo_mon es (echo_run tr)"
  "echo_run (e # es) = monitor echo_mon (e # es) echo_start"
  by (simp_all add: echo_run_def)

text \<open>The kernel sends a request completely or reports an error.\<close>

definition full_sends :: "'k net_kernel \<Rightarrow> bool" where
  "full_sends K \<longleftrightarrow> (\<forall>fd bs k r k'. k_send K fd bs k = (r, k') \<longrightarrow> r = -1 \<or> r = int (length bs))"

lemma full_sendsD: "full_sends K \<Longrightarrow> k_send K fd bs k = (r, k') \<Longrightarrow> r = -1 \<or> r = int (length bs)"
  unfolding full_sends_def by blast

definition echo_inv :: "bool \<Rightarrow> spc \<Rightarrow> string \<Rightarrow> (net_event, 'k, 'z) world_scheme \<Rightarrow> bool" where
  "echo_inv full pc buf w \<longleftrightarrow> length buf = BUFFER_SIZE \<and>
     (let m = echo_run (trace w) in conforms m \<and> pending m = None \<and>
       (case pc of Accepting \<Rightarrow> conn m = None \<and> (full \<longrightarrow> (\<exists>rest. received m = echoed m @ rest))
        | Echoing fd ip port \<Rightarrow> conn m = Some fd \<and> (full \<longrightarrow> echoed m = received m)))"

lemma accept_echo_inv:
  "echo_inv full Accepting buf w \<Longrightarrow> wp (accept_iteration K sfd) (\<lambda>pc t. echo_inv full pc buf t) w"
  unfolding accept_iteration_def net_calls
  by (intro wp_intros wp_checked wp_quiet) (auto simp: echo_inv_def echo_run_def monitor_def Let_def)

lemma echo_echo_inv:
  assumes "bounded_recv K" and "full \<Longrightarrow> full_sends K" and "echo_inv full (Echoing fd ip port) buf w"
  shows "wp (echo_iteration K fd ip port buf) (\<lambda>r t. echo_inv full (fst r) (snd r) t) w"
  using assms(3) unfolding echo_iteration_def close_client_def sys_send_def sys_sclose_def
  by (intro wp_intros wp_checked wp_quiet wp_recv_into [OF assms(1)])
    (auto simp: echo_inv_def echo_run_def monitor_def BUFFER_SIZE_def store_def c_string_update Let_def
      split: if_splits dest!: assms(2) dest: full_sendsD)

text \<open>
  C3. The server is an echo server: on a kernel that respects the length given to \<^verbatim>\<open>recv\<close>, after any
  number of iterations, everything it has sent is a chunk it had just received on the same
  connection, sent back unchanged before the next chunk is received; and if the kernel
  never sends a chunk partially, the bytes echoed are all the bytes received while the connection is
  served, and a prefix of them once it is closed.
\<close>

theorem server_echoes:
  assumes "bounded_recv K" and "length buffer = BUFFER_SIZE"
    and "m = echo_run (trace (world_of (tcp_server_main K argv buffer n) (boot k)))"
  shows "conforms m \<and> pending m = None \<and>
    (full_sends K \<longrightarrow> (\<exists>rest. received m = echoed m @ rest \<and> (conn m = None \<or> rest = [])))"
proof -
  have *: "server_invariant K sfd (echo_inv (full_sends K))" for sfd
    by unfold_locales (simp_all add: accept_echo_inv echo_echo_inv [OF assms(1)])
  have "wp (tcp_server_main K argv buffer n) (\<lambda>_ t. let m = echo_run (trace t) in conforms m \<and> pending m = None \<and>
    (full_sends K \<longrightarrow> (\<exists>rest. received m = echoed m @ rest \<and> (conn m = None \<or> rest = [])))) (boot k)"
    unfolding tcp_server_main_def net_calls
    by (intro wp_intros wp_checked wp_quiet wp_port_argument wp_mono [OF server_invariant.run_inv [OF *]])
      (use assms(2) in \<open>auto simp: boot_def echo_run_def monitor_def echo_inv_def echo_start_def Let_def split: spc.splits\<close>)
  then show ?thesis by (simp add: wp_world_of assms(3) Let_def)
qed

section \<open>A scripted network\<close>

text \<open>
  A kernel for concrete runs: clients connect one after the other and each sends the given chunks;
  when there is no client left, \<^verbatim>\<open>accept\<close> is interrupted.
\<close>

record net_script =
  clients :: "string list list"
  chunks :: "string list"
  sent :: string

definition script_recv :: "int \<Rightarrow> nat \<Rightarrow> net_script \<Rightarrow> string option \<times> net_script" where
  "script_recv fd n s = (case chunks s of [] \<Rightarrow> (Some [], s)
     | c # cs \<Rightarrow> (Some (take n c), s\<lparr>chunks := (if length c \<le> n then cs else drop n c # cs)\<rparr>))"

definition script_accept :: "int \<Rightarrow> net_script \<Rightarrow> (int + int \<times> sockaddr_in) \<times> net_script" where
  "script_accept fd s = (case clients s of [] \<Rightarrow> (Inl EINTR, s)
     | c # cs \<Rightarrow> (Inr (4, \<lparr>sin_addr = (127, 0, 0, 1), sin_port = htons 5000\<rparr>), s\<lparr>clients := cs, chunks := c\<rparr>))"

definition script_kernel :: "net_script net_kernel" where
  "script_kernel = \<lparr>
     k_socket = (\<lambda>s. (3, s)),
     k_setsockopt = (\<lambda>fd s. (0, s)),
     k_bind = (\<lambda>fd a s. (0, s)),
     k_listen = (\<lambda>fd b s. (0, s)),
     k_accept = script_accept,
     k_connect = (\<lambda>fd a s. (0, s)),
     k_recv = script_recv,
     k_send = (\<lambda>fd bs s. (int (length bs), s\<lparr>sent := sent s @ bs\<rparr>)),
     k_sclose = (\<lambda>fd s. (0, s)),
     k_inet_pton = (\<lambda>h. if h = ''127.0.0.1'' then Some (127, 0, 0, 1) else None)\<rparr>"

lemma script_bounded_recv: "bounded_recv script_kernel"
  by (auto simp: bounded_recv_def script_kernel_def script_recv_def split: list.splits)

lemma script_full_sends: "full_sends script_kernel"
  by (auto simp: full_sends_def script_kernel_def)

definition two_clients :: net_script where
  "two_clients = \<lparr>clients = [[''hello\<newline>'', ''world\<newline>''], [''bye\<newline>'']], chunks = [], sent = []\<rparr>"

theorem server_no_ub_witness:
  "bounded_recv script_kernel \<and> port_ok [''tcp_server'', ''8080''] 1 \<and> length (replicate BUFFER_SIZE NUL) = BUFFER_SIZE \<and>
   \<not> ub (world_of (tcp_server_main script_kernel [''tcp_server'', ''8080''] (replicate BUFFER_SIZE NUL) 7) (boot two_clients))"
proof -
  have "atoi ''8080'' = 8080" using atoi_show_nat [of 8080] by (simp add: show_eval)
  then have "port_ok [''tcp_server'', ''8080''] 1" by (simp add: port_ok_def int_range_def)
  then show ?thesis
    using server_no_ub [OF script_bounded_recv, of "[''tcp_server'', ''8080'']" "replicate BUFFER_SIZE NUL"] script_bounded_recv
    by simp
qed

theorem server_echoes_witness:
  "bounded_recv script_kernel \<and> full_sends script_kernel \<and> length (replicate BUFFER_SIZE NUL) = BUFFER_SIZE \<and>
   (\<exists>m. m = echo_run (trace (world_of (tcp_server_main script_kernel [''tcp_server''] (replicate BUFFER_SIZE NUL) 7) (boot two_clients))) \<and>
     conforms m \<and> (\<exists>rest. received m = echoed m @ rest \<and> (conn m = None \<or> rest = [])))"
  using server_echoes [OF script_bounded_recv length_replicate refl, of "[''tcp_server'']" NUL 7 two_clients]
    script_bounded_recv script_full_sends length_replicate [of BUFFER_SIZE NUL]
  by blast

end
