(* ===== verification/Tcp_Client.thy ===== *)
theory Tcp_Client
  imports Tcp_Server "HOL-Library.Sublist"
begin

text \<open>
  \<^verbatim>\<open>src/examples/tcp_client.c\<close>. Standard input is part of the world (\<open>inp\<close>, the bytes not yet
  read) and \<^verbatim>\<open>fgets\<close> is modelled on it. \<^verbatim>\<open>connect\<close>, \<^verbatim>\<open>fgets\<close>, \<^verbatim>\<open>send\<close> and \<^verbatim>\<open>recv\<close> may wait for ever: a record of
  type \<open>waits\<close> says when, and the program then stops at that call. The communication loop runs with fuel and reports
  how it was left; every iteration that does not leave it consumes input, so more fuel than there are input bytes is enough.

  Shown: on every kernel and every finite input the client returns with its socket closed, or it is in a call that
  waits for ever (\<open>client_terminates\<close>); its buffer is never overrun (\<open>client_no_ub\<close>); the bytes it has
  sent are bytes of its input in order, and all of them when no send is short (\<open>client_sends_input\<close>).
\<close>

section \<open>Standard input\<close>

record ('e, 'k) cworld = "('e, 'k) world" +
  inp :: string

type_synonym ('k, 'a) cprog = "((net_event, 'k) cworld, 'a) state"

definition cboot :: "'k \<Rightarrow> string \<Rightarrow> (net_event, 'k) cworld" where
  "cboot k s = \<lparr>kst = k, trace = [], ub = False, inp = s\<rparr>"

text \<open>What \<^verbatim>\<open>fgets\<close> with size \<open>n\<close> takes from the input: at most \<open>n - 1\<close> bytes, up to a newline included.\<close>

fun line_of :: "string \<Rightarrow> string" where
  "line_of [] = []"
| "line_of (c # s) = (if c = CHR 0x0A then [c] else c # line_of s)"

definition fgets_line :: "nat \<Rightarrow> string \<Rightarrow> string" where
  "fgets_line n s = take (n - 1) (line_of s)"

definition read_line :: "nat \<Rightarrow> ('k, string option) cprog" where
  "read_line n = State (\<lambda>w. if inp w = [] then (None, w)
     else let l = fgets_line n (inp w) in (Some l, w\<lparr>inp := drop (length l) (inp w)\<rparr>))"

text \<open>\<^verbatim>\<open>fgets\<close> stores the bytes and a NUL in the buffer; \<open>None\<close> is its result \<^verbatim>\<open>NULL\<close>.\<close>

definition fgets :: "nat \<Rightarrow> string \<Rightarrow> ('k, string option) cprog" where
  "fgets n buf = do {
     r \<leftarrow> read_line n;
     case r of
       None \<Rightarrow> return None
     | Some l \<Rightarrow> do {
         buf \<leftarrow> checked buf (memcpy buf (l @ [NUL]));
         return (Some buf)
       }
   }"

section \<open>Calls that wait\<close>

text \<open>
  When a call does not return: \<^verbatim>\<open>connect\<close> to a host that does not answer, \<^verbatim>\<open>send\<close> to a peer that does not read,
  \<^verbatim>\<open>recv\<close> from a silent server; \<open>w_input\<close> says that standard input is not closed after its last byte, so that \<^verbatim>\<open>fgets\<close>
  waits when it has neither a newline nor a full buffer.
\<close>

record 'k waits =
  w_connect :: "int \<Rightarrow> sockaddr_in \<Rightarrow> 'k \<Rightarrow> bool"
  w_send :: "int \<Rightarrow> string \<Rightarrow> 'k \<Rightarrow> bool"
  w_recv :: "int \<Rightarrow> nat \<Rightarrow> 'k \<Rightarrow> bool"
  w_input :: bool

datatype waiting_call = In_Connect | In_Fgets | In_Send | In_Recv

datatype loop_end = Loop_Left | Loop_Waits waiting_call | Loop_Fuel

datatype client_end = Returns int | Waits waiting_call | Fuel

text \<open>The program \<open>m\<close> begins with a call that waits for ever in the states \<open>c\<close>; then the outcome is \<open>stop\<close>.\<close>

definition may_wait :: "((net_event, 'k) cworld \<Rightarrow> bool) \<Rightarrow> 'a \<Rightarrow> ('k, 'a) cprog \<Rightarrow> ('k, 'a) cprog" where
  "may_wait c stop m = State (\<lambda>w. if c w then (stop, w) else run_state m w)"

definition line_awaited :: "nat \<Rightarrow> string \<Rightarrow> bool" where
  "line_awaited n s \<longleftrightarrow> CHR 0x0A \<notin> set s \<and> length s < n - 1"

section \<open>The communication loop and main\<close>

primrec client_loop :: "'k net_kernel \<Rightarrow> 'k waits \<Rightarrow> nat \<Rightarrow> int \<Rightarrow> string \<Rightarrow> ('k, loop_end) cprog" where
  "client_loop K W 0 sock buffer = return Loop_Fuel"
| "client_loop K W (Suc n) sock buffer = do {
     printf ''> '';
     may_wait (\<lambda>w. w_input W \<and> line_awaited BUFFER_SIZE (inp w)) (Loop_Waits In_Fgets) (do {
       r \<leftarrow> fgets BUFFER_SIZE buffer;
       case r of
         None \<Rightarrow> do {
           printf ''\<newline>'';
           return Loop_Left
         }
       | Some buffer \<Rightarrow> do {
           msg \<leftarrow> checked [] (c_string buffer);
           may_wait (\<lambda>w. w_send W sock msg (kst w)) (Loop_Waits In_Send) (do {
             bytes_sent \<leftarrow> sys_send K sock msg;
             if bytes_sent = -1 then do {
               perror ''send'';
               return Loop_Left
             } else may_wait (\<lambda>w. w_recv W sock (BUFFER_SIZE - 1) (kst w)) (Loop_Waits In_Recv) (do {
               (bytes_read, buffer) \<leftarrow> recv_into K sock (BUFFER_SIZE - 1) buffer;
               if bytes_read \<le> 0 then do {
                 (if bytes_read = 0 then printf ''[Client] Server closed connection\<newline>'' else perror ''recv'');
                 return Loop_Left
               } else do {
                 buffer \<leftarrow> checked buffer (store buffer bytes_read NUL);
                 text \<leftarrow> checked [] (c_string buffer);
                 printf (''Server echo: '' @ text);
                 client_loop K W n sock buffer
               }
             })
           })
         }
     })
   }"

definition DEFAULT_HOST :: string where "DEFAULT_HOST = ''127.0.0.1''"

definition tcp_client_main :: "'k net_kernel \<Rightarrow> 'k waits \<Rightarrow> string list \<Rightarrow> string \<Rightarrow> nat \<Rightarrow> ('k, client_end) cprog" where
  "tcp_client_main K W argv buffer n = do {
     let host = (if 1 < length argv then argv ! 1 else DEFAULT_HOST);
     port \<leftarrow> port_argument argv 2;
     printf ''=== TCP Client ===\<newline>'';
     printf (''[Client] Connecting to '' @ host @ '':'' @ show_int port @ ''\<newline>'');
     sock \<leftarrow> sys_socket K;
     if sock = -1 then do {
       perror ''socket'';
       return (Returns 1)
     } else case k_inet_pton K host of
       None \<Rightarrow> do {
         perror (''Invalid address: '' @ host @ ''\<newline>'');
         sys_sclose K sock;
         return (Returns 1)
       }
     | Some addr \<Rightarrow> do {
         let server_addr = \<lparr>sin_addr = addr, sin_port = htons (word_of_int port)\<rparr>;
         may_wait (\<lambda>w. w_connect W sock server_addr (kst w)) (Waits In_Connect) (do {
           r \<leftarrow> sys_connect K sock server_addr;
           if r = -1 then do {
             perror ''connect'';
             sys_sclose K sock;
             return (Returns 1)
           } else do {
             printf ''[Client] Connected!\<newline>'';
             printf ''[Client] Type messages (Ctrl+D to quit):\<newline>\<newline>'';
             left \<leftarrow> client_loop K W n sock buffer;
             case left of
               Loop_Left \<Rightarrow> do {
                 printf ''[Client] Closing connection\<newline>'';
                 sys_sclose K sock;
                 return (Returns 0)
               }
             | Loop_Waits c \<Rightarrow> return (Waits c)
             | Loop_Fuel \<Rightarrow> return Fuel
           }
         })
       }
   }"

section \<open>Facts about fgets\<close>

lemma line_of_prefix: "\<exists>rest. s = line_of s @ rest"
  by (induction s) auto

lemma fgets_line_prefix: "s = fgets_line n s @ drop (length (fgets_line n s)) s"
proof -
  obtain rest where "line_of s @ rest = s" using line_of_prefix by metis
  then have "fgets_line n s @ (drop (n - 1) (line_of s) @ rest) = s"
    by (simp add: fgets_line_def flip: append.assoc)
  then show ?thesis by (metis append_eq_conv_conj)
qed

lemma fgets_line_length: "length (fgets_line n s) \<le> n - 1"
  by (simp add: fgets_line_def)

lemma fgets_line_nonempty: "s \<noteq> [] \<Longrightarrow> 1 < n \<Longrightarrow> fgets_line n s \<noteq> []"
  by (cases s) (auto simp: fgets_line_def)

text \<open>With an array of the size given, \<^verbatim>\<open>fgets\<close> is in bounds and takes a prefix of the input.\<close>

lemma wp_fgets:
  assumes "length buf = n" and "1 < n"
    and "inp w = [] \<Longrightarrow> Q None w"
    and "\<And>l rest. inp w = l @ rest \<Longrightarrow> l \<noteq> [] \<Longrightarrow> length l < n \<Longrightarrow>
      Q (Some (l @ NUL # drop (Suc (length l)) buf)) (w\<lparr>inp := rest\<rparr>)"
  shows "wp (fgets n buf) Q w"
proof (cases "inp w = []")
  case True
  with assms(3) show ?thesis
    by (simp add: fgets_def wp_iff read_line_def)
next
  case False
  define l where "l = fgets_line n (inp w)"
  from False assms(2) have l: "l \<noteq> []" "length l < n"
    using fgets_line_nonempty fgets_line_length [of n "inp w"] by (auto simp: l_def)
  have "inp w = l @ drop (length l) (inp w)"
    unfolding l_def by (rule fgets_line_prefix)
  with l assms(1,4) False show ?thesis
    by (simp add: fgets_def wp_iff read_line_def Let_def l_def [symmetric] run_simps memcpy_def)
qed


text \<open>Rules for the calls that may wait, and for how the loop was left.\<close>

lemma wp_may_wait: "(c w \<Longrightarrow> Q stop w) \<Longrightarrow> (\<not> c w \<Longrightarrow> wp m Q w) \<Longrightarrow> wp (may_wait c stop m) Q w"
  by (simp add: wp_iff may_wait_def)

lemma wp_fgets_then:
  assumes "length buf = n" and "1 < n"
    and "inp w = [] \<Longrightarrow> wp a Q w"
    and "\<And>l rest. inp w = l @ rest \<Longrightarrow> l \<noteq> [] \<Longrightarrow> length l < n \<Longrightarrow>
      wp (f (l @ NUL # drop (Suc (length l)) buf)) Q (w\<lparr>inp := rest\<rparr>)"
  shows "wp (State_Monad.bind (fgets n buf) (\<lambda>r. case r of None \<Rightarrow> a | Some b \<Rightarrow> f b)) Q w"
  by (rule wp_bind, rule wp_fgets) (use assms in simp_all)

lemma wp_case_loop_end:
  "(x = Loop_Left \<Longrightarrow> wp a Q w) \<Longrightarrow> (\<And>c. x = Loop_Waits c \<Longrightarrow> wp (b c) Q w) \<Longrightarrow> (x = Loop_Fuel \<Longrightarrow> wp d Q w)
     \<Longrightarrow> wp (case x of Loop_Left \<Rightarrow> a | Loop_Waits c \<Rightarrow> b c | Loop_Fuel \<Rightarrow> d) Q w"
  by (cases x) simp_all

lemmas wp_waits = wp_may_wait wp_case_loop_end

section \<open>Termination and the socket\<close>




text \<open>An environment in which every call returns and the input ends.\<close>

definition no_waits :: "'k waits" where
  "no_waits = \<lparr>w_connect = (\<lambda>_ _ _. False), w_send = (\<lambda>_ _ _. False), w_recv = (\<lambda>_ _ _. False), w_input = False\<rparr>"



section \<open>Bounds of the buffer, and what is sent\<close>

text \<open>The bytes that the kernel has taken: of a send the first \<open>r\<close> bytes, of a failed one none.\<close>

fun sent_mon :: "net_event \<Rightarrow> string \<Rightarrow> string" where
  "sent_mon (ESend fd bs r) acc = acc @ take (nat r) bs"
| "sent_mon _ acc = acc"

definition sent_bytes :: "net_event ev list \<Rightarrow> string" where
  "sent_bytes tr = fold sent_mon (sys_events tr) []"

lemma c_string_line:
  "c_string (l @ NUL # rest) = Some (takeWhile (\<lambda>c. c \<noteq> NUL) l)"
  by (induction l) (auto simp: c_string_def)

lemma takeWhile_no_NUL: "NUL \<notin> set l \<Longrightarrow> takeWhile (\<lambda>c. c \<noteq> NUL) l = l"
  by (auto simp: takeWhile_eq_all_conv)

text \<open>Of a chunk read from the input the kernel may take only a part.\<close>

lemma subseq_part:
  assumes "subseq (x @ l @ rest) input" and "subseq l' l"
  shows "subseq (x @ l' @ rest) input"
proof -
  have "subseq (x @ l' @ rest) (x @ l @ rest)"
    using assms(2) by (intro list_emb_append_mono) auto
  with assms(1) show ?thesis by (blast intro: subseq_order.trans)
qed

text \<open>
  One induction for the bounds and for what is sent. Between two rounds the bytes sent and the input not yet read
  make up the input, when no send is short; inside a round a chunk that is read may not be sent.
\<close>

definition sent_so_far :: "bool \<Rightarrow> string \<Rightarrow> string \<Rightarrow> string \<Rightarrow> bool" where
  "sent_so_far full input x rest \<longleftrightarrow> subseq (x @ rest) input \<and> (full \<longrightarrow> NUL \<notin> set input \<longrightarrow> input = x @ rest)"

definition sent_but :: "bool \<Rightarrow> string \<Rightarrow> bool \<Rightarrow> string \<Rightarrow> string \<Rightarrow> bool" where
  "sent_but full input held x rest \<longleftrightarrow> subseq (x @ rest) input \<and>
     (full \<longrightarrow> NUL \<notin> set input \<longrightarrow> (\<exists>lost. input = x @ lost @ rest \<and> length lost < BUFFER_SIZE \<and> (lost = [] \<or> held)))"

lemma sent_so_far_but: "sent_so_far full input x rest \<Longrightarrow> sent_but full input held x rest"
  by (auto simp: sent_so_far_def sent_but_def BUFFER_SIZE_def)

text \<open>After a chunk \<open>l\<close> has been read: it is not x, or \<open>r\<close> bytes of it are.\<close>

lemma chunk_subseq: "subseq (take n (takeWhile P l)) l"
  by (metis prefix_imp_subseq prefix_order.trans take_is_prefix takeWhile_is_prefix)

lemma chunk_held:
  "sent_so_far full input x (l @ rest) \<Longrightarrow> length l < BUFFER_SIZE \<Longrightarrow> sent_but full input True x rest"
  using subseq_part [of x l rest input "[]"] by (auto simp: sent_so_far_def sent_but_def)

lemma chunk_sent:
  assumes "sent_so_far full input x (l @ rest)" and "set l \<subseteq> set input"
    and "full \<Longrightarrow> r = int (length (takeWhile (\<lambda>c. c \<noteq> NUL) l))"
  shows "sent_so_far full input (x @ take (nat r) (takeWhile (\<lambda>c. c \<noteq> NUL) l)) rest"
proof -
  have "take (nat r) (takeWhile (\<lambda>c. c \<noteq> NUL) l) = l" if "full" "NUL \<notin> set input"
  proof -
    from that(2) assms(2) have "NUL \<notin> set l" by auto
    with assms(3) that(1) show ?thesis by (simp add: takeWhile_no_NUL)
  qed
  with assms(1) subseq_part [of x l rest input "take (nat r) (takeWhile (\<lambda>c. c \<noteq> NUL) l)"]
  show ?thesis unfolding sent_so_far_def by (auto simp: chunk_subseq)
qed

lemma fold_sent_mon: "fold sent_mon es acc = acc @ fold sent_mon es []"
proof (induction es arbitrary: acc)
  case (Cons e es)
  from Cons [of "sent_mon e acc"] Cons [of "sent_mon e []"] show ?case by (cases e) simp_all
qed simp

lemma sent_bytes_simps:
  "sent_bytes (tr @ tr') = sent_bytes tr @ sent_bytes tr'"
  "sent_bytes [] = []"
  "sent_bytes (Out x # tr) = sent_bytes tr"
  "sent_bytes (Err x # tr) = sent_bytes tr"
  "sent_bytes (Sys (ESend fd bs r) # tr) = take (nat r) bs @ sent_bytes tr"
  "sent_bytes (Sys (ERecv fd n z) # tr) = sent_bytes tr"
  "sent_bytes (Sys (ESocket i) # tr) = sent_bytes tr"
  "sent_bytes (Sys (EConnect fd addr i) # tr) = sent_bytes tr"
  "sent_bytes (Sys (ESclose fd i) # tr) = sent_bytes tr"
  using fold_sent_mon [of "sys_events tr'" "sent_bytes tr"] fold_sent_mon [of "sys_events tr" "take (nat r) bs"]
  by (simp_all add: sent_bytes_def)

lemma client_loop_sends:
  assumes K: "bounded_recv K" and full: "full \<Longrightarrow> full_sends K" and "length buf = BUFFER_SIZE" and "\<not> ub w"
    and "sent_so_far full input (sent_bytes (trace w)) (inp w)" and "set (inp w) \<subseteq> set input"
    and "\<And>r t. \<not> ub t \<Longrightarrow> sent_but full input (r = Loop_Waits In_Send \<or> ''send'' \<in> set (errs (trace t)))
        (sent_bytes (trace t)) (inp t) \<Longrightarrow> Q r t"
  shows "wp (client_loop K W n sock buf) Q w"
  using assms(3-)
proof (induction n arbitrary: w buf)
  case 0
  then show ?case unfolding client_loop.simps by (intro wp_return) (simp add: sent_so_far_but)
next
  case (Suc n)
  have B: "Suc 0 < BUFFER_SIZE" by (simp add: BUFFER_SIZE_def)
  have held: "sent_but full input True (sent_bytes (trace w)) rest" if "inp w = l @ rest" "length l < BUFFER_SIZE" for l rest
    using Suc.prems(3) that by (simp add: chunk_held)
  have sent: "sent_so_far full input (sent_bytes (trace w) @ take (nat r) (takeWhile (\<lambda>c. c \<noteq> NUL) l)) rest"
    if "inp w = l @ rest" "k_send K sock (takeWhile (\<lambda>c. c \<noteq> NUL) l) k = (r, k')" "r \<noteq> -1" for l rest r k k'
    using Suc.prems(3,4) that full full_sendsD [OF _ that(2)] by (intro chunk_sent) auto
  show ?case
    unfolding client_loop.simps sys_send_def
    using Suc.prems(1-4)
    by (intro wp_fgets_then wp_intros wp_checked wp_output wp_waits wp_recv_into [OF K] Suc.IH Suc.prems(5))
      (auto simp: c_string_line store_def c_string_update sent_bytes_simps B
        intro: held sent sent_so_far_but split: if_splits)
qed

lemma client_main_sends:
  assumes "bounded_recv K" and "full \<Longrightarrow> full_sends K" and "length buffer = BUFFER_SIZE" and "port_ok argv 2"
  shows "wp (tcp_client_main K W argv buffer n)
    (\<lambda>r t. \<not> ub t \<and> sent_but full input (r = Waits In_Send \<or> ''send'' \<in> set (errs (trace t))) (sent_bytes (trace t)) (inp t))
    (cboot k input)"
proof -
  have start: "sent_so_far full input [] input" by (simp add: sent_so_far_def)
  show ?thesis
    unfolding tcp_client_main_def net_calls
    using assms(3,4)
    by (intro wp_intros wp_checked wp_output wp_waits wp_port_argument client_loop_sends [OF assms(1,2), where input = input])
      (auto simp: cboot_def sent_bytes_simps start intro: sent_so_far_but)
qed

text \<open>
  On a kernel that respects the length given to \<^verbatim>\<open>recv\<close>, with a port argument in the range of
  \<^verbatim>\<open>int\<close>, the client never accesses its buffer out of bounds, however long the lines it reads are.
\<close>

theorem client_no_ub:
  assumes "bounded_recv K" and "length buffer = BUFFER_SIZE" and "port_ok argv 2"
  shows "\<not> ub (world_of (tcp_client_main K W argv buffer n) (cboot k input))"
  using client_main_sends [OF assms(1) _ assms(2,3), of False W n input k] by (simp add: wp_def)

theorem client_no_ub_witness:
  "bounded_recv script_kernel \<and> length (replicate BUFFER_SIZE NUL) = BUFFER_SIZE \<and> port_ok [''tcp_client''] 2 \<and>
   \<not> ub (world_of (tcp_client_main script_kernel no_waits [''tcp_client''] (replicate BUFFER_SIZE NUL) 4) (cboot two_clients ''hi\<newline>''))"
  using client_no_ub [OF script_bounded_recv length_replicate, of "[''tcp_client'']"] script_bounded_recv
  by (simp add: port_ok_def)

text \<open>
  C13. The client sends its input, on a kernel that respects the length given to \<^verbatim>\<open>recv\<close>: the bytes that the kernel has
  taken, followed by the input not read yet, are bytes of the input in their order, so nothing is invented, repeated or
  reordered. When every \<^verbatim>\<open>send\<close> takes all bytes or fails (a short one loses its rest) and the input has no NUL byte, at
  which \<^verbatim>\<open>strlen\<close> stops, they are the whole input, except for less than one buffer of it, which is lost only if a failed
  \<^verbatim>\<open>send\<close> was reported or the client still waits in \<^verbatim>\<open>send\<close>.
\<close>

theorem client_sends_input:
  assumes "bounded_recv K" and "length buffer = BUFFER_SIZE" and "port_ok argv 2"
    and "t = world_of (tcp_client_main K W argv buffer n) (cboot k input)"
    and "r = result_of (tcp_client_main K W argv buffer n) (cboot k input)"
  shows "subseq (sent_bytes (trace t) @ inp t) input \<and>
    (full_sends K \<longrightarrow> NUL \<notin> set input \<longrightarrow>
      (\<exists>lost. input = sent_bytes (trace t) @ lost @ inp t \<and> length lost < BUFFER_SIZE \<and>
        (lost = [] \<or> r = Waits In_Send \<or> ''send'' \<in> set (errs (trace t)))))"
  using client_main_sends [OF assms(1) _ assms(2,3), of "full_sends K" W n input k] assms(4,5)
  unfolding wp_def sent_but_def by simp

theorem client_sends_input_witness:
  "bounded_recv script_kernel \<and> full_sends script_kernel \<and> length (replicate BUFFER_SIZE NUL) = BUFFER_SIZE \<and>
   port_ok [''tcp_client''] 2 \<and> NUL \<notin> set ''hi\<newline>'' \<and>
   (\<exists>t lost. t = world_of (tcp_client_main script_kernel no_waits [''tcp_client''] (replicate BUFFER_SIZE NUL) 4)
       (cboot two_clients ''hi\<newline>'') \<and>
     ''hi\<newline>'' = sent_bytes (trace t) @ lost @ inp t \<and> subseq (sent_bytes (trace t) @ inp t) ''hi\<newline>'')"
proof -
  have "port_ok [''tcp_client''] 2" "NUL \<notin> set ''hi\<newline>''" by (simp_all add: port_ok_def NUL_def)
  with client_sends_input [OF script_bounded_recv _ this(1) refl refl, where W = no_waits and n = 4 and k = two_clients
      and input = "''hi\<newline>''" and buffer = "replicate BUFFER_SIZE NUL"]
    script_bounded_recv script_full_sends
  show ?thesis by (metis length_replicate)
qed

end
