(* ===== verification/Memory_Kernel.thy ===== *)
theory Memory_Kernel
  imports Posix
begin

text \<open>
  Memory obtained from the kernel, for \<^verbatim>\<open>memory_demo.c\<close>. A pointer into such memory is a base
  address and an offset. The record \<open>mem_kernel\<close> holds the system and library calls of the program
  and the two accesses of the machine to mapped memory, \<open>k_load\<close> and \<open>k_store\<close>, which give
  \<open>None\<close> when the access faults (not mapped, out of range, not writable). The locale \<open>posix_mem\<close>
  states the documented behaviour over a view of regions and files; \<open>ref_mem\<close> is a kernel that
  keeps it.
\<close>

section \<open>The kernel as a parameter\<close>

datatype sysconf_name = SC_PAGESIZE | SC_PHYS_PAGES | SC_AVPHYS_PAGES

record 'k mem_kernel =
  k_sbrk :: "int \<Rightarrow> 'k \<Rightarrow> int \<times> 'k"
  k_mmap_anon :: "int \<Rightarrow> 'k \<Rightarrow> int \<times> 'k"
  k_mmap_file :: "int \<Rightarrow> int \<Rightarrow> 'k \<Rightarrow> int \<times> 'k"
  k_munmap :: "int \<Rightarrow> int \<Rightarrow> 'k \<Rightarrow> int \<times> 'k"
  k_msync :: "int \<Rightarrow> int \<Rightarrow> 'k \<Rightarrow> int \<times> 'k"
  k_mprotect_read :: "int \<Rightarrow> int \<Rightarrow> 'k \<Rightarrow> int \<times> 'k"
  k_sysconf :: "sysconf_name \<Rightarrow> 'k \<Rightarrow> int \<times> 'k"
  k_fopen_w :: "string \<Rightarrow> 'k \<Rightarrow> int \<times> 'k"
  k_fwrite :: "int \<Rightarrow> string \<Rightarrow> 'k \<Rightarrow> int \<times> 'k"
  k_fclose :: "int \<Rightarrow> 'k \<Rightarrow> int \<times> 'k"
  k_open_rdwr :: "string \<Rightarrow> 'k \<Rightarrow> int \<times> 'k"
  k_fstat_size :: "int \<Rightarrow> 'k \<Rightarrow> int option \<times> 'k"
  k_close_fd :: "int \<Rightarrow> 'k \<Rightarrow> int \<times> 'k"
  k_load :: "int \<Rightarrow> int \<Rightarrow> 'k \<Rightarrow> char option"
  k_store :: "int \<Rightarrow> int \<Rightarrow> char \<Rightarrow> 'k \<Rightarrow> 'k option"

text \<open>
  \<^verbatim>\<open>(void *)-1\<close> (\<^verbatim>\<open>MAP_FAILED\<close>) and \<^verbatim>\<open>NULL\<close> for \<^verbatim>\<open>fopen\<close> are the results \<open>-1\<close> and \<open>0\<close>.
\<close>

datatype mem_event =
    ESbrk int int
  | EMmap int int
  | EMmap_File int int int
  | EMunmap int int int
  | EMsync int int int
  | EMprotect_Read int int int
  | ESysconf sysconf_name int
  | EFopen string int
  | EFwrite int string int
  | EFclose int int
  | EOpen_Rdwr string int
  | EFstat int "int option"
  | EClose_Fd int int

type_synonym ('k, 'a) mprog = "((mem_event, 'k) world, 'a) state"

definition sys_sbrk where "sys_sbrk K n = sys (k_sbrk K n) (ESbrk n)"
definition sys_mmap where "sys_mmap K n = sys (k_mmap_anon K n) (EMmap n)"
definition sys_mmap_file where "sys_mmap_file K fd n = sys (k_mmap_file K fd n) (EMmap_File fd n)"
definition sys_munmap where "sys_munmap K a n = sys (k_munmap K a n) (EMunmap a n)"
definition sys_msync where "sys_msync K a n = sys (k_msync K a n) (EMsync a n)"
definition sys_mprotect where "sys_mprotect K a n = sys (k_mprotect_read K a n) (EMprotect_Read a n)"
definition sys_sysconf where "sys_sysconf K c = sys (k_sysconf K c) (ESysconf c)"
definition sys_fopen where "sys_fopen K p = sys (k_fopen_w K p) (EFopen p)"
definition sys_fwrite where "sys_fwrite K h s = sys (k_fwrite K h s) (EFwrite h s)"
definition sys_fclose where "sys_fclose K h = sys (k_fclose K h) (EFclose h)"
definition sys_open_rdwr where "sys_open_rdwr K p = sys (k_open_rdwr K p) (EOpen_Rdwr p)"
definition sys_fstat where "sys_fstat K fd = sys (k_fstat_size K fd) (EFstat fd)"
definition sys_close_fd where "sys_close_fd K fd = sys (k_close_fd K fd) (EClose_Fd fd)"

lemmas mem_calls = sys_sbrk_def sys_mmap_def sys_mmap_file_def sys_munmap_def sys_msync_def sys_mprotect_def
  sys_sysconf_def sys_fopen_def sys_fwrite_def sys_fclose_def sys_open_rdwr_def sys_fstat_def sys_close_fd_def

section \<open>Memory accesses of the program\<close>

text \<open>An access that faults is undefined behaviour.\<close>

definition load_byte :: "'k mem_kernel \<Rightarrow> int \<Rightarrow> int \<Rightarrow> ('k, char) mprog" where
  "load_byte K a i = State (\<lambda>w. case k_load K a i (kst w) of
     None \<Rightarrow> (NUL, w\<lparr>ub := True\<rparr>) | Some c \<Rightarrow> (c, w))"

definition store_byte :: "'k mem_kernel \<Rightarrow> int \<Rightarrow> int \<Rightarrow> char \<Rightarrow> ('k, unit) mprog" where
  "store_byte K a i c = State (\<lambda>w. case k_store K a i c (kst w) of
     None \<Rightarrow> ((), w\<lparr>ub := True\<rparr>) | Some k \<Rightarrow> ((), w\<lparr>kst := k\<rparr>))"

fun store_bytes :: "'k mem_kernel \<Rightarrow> int \<Rightarrow> int \<Rightarrow> string \<Rightarrow> ('k, unit) mprog" where
  "store_bytes K a i [] = skip"
| "store_bytes K a i (c # cs) = do { store_byte K a i c; store_bytes K a (i + 1) cs }"

text \<open>\<^verbatim>\<open>strcpy(a, s)\<close>.\<close>

definition strcpy_to :: "'k mem_kernel \<Rightarrow> int \<Rightarrow> string \<Rightarrow> ('k, unit) mprog" where
  "strcpy_to K a s = store_bytes K a 0 (s @ [NUL])"

text \<open>
  The string at \<open>a + i\<close>, read up to its NUL or at most \<open>n\<close> bytes: \<^verbatim>\<open>%s\<close> with a bound \<open>n\<close> beyond which
  there is no memory, or \<^verbatim>\<open>%.*s\<close> with precision \<open>n\<close>.
\<close>

fun load_string :: "'k mem_kernel \<Rightarrow> int \<Rightarrow> int \<Rightarrow> nat \<Rightarrow> ('k, string) mprog" where
  "load_string K a i 0 = return []"
| "load_string K a i (Suc n) = do {
     c \<leftarrow> load_byte K a i;
     if c = NUL then return []
     else do { s \<leftarrow> load_string K a (i + 1) n; return (c # s) }
   }"

lemma wp_load_byte:
  "(\<And>c. k_load K a i (kst w) = Some c \<Longrightarrow> Q c w) \<Longrightarrow> (k_load K a i (kst w) = None \<Longrightarrow> Q NUL (w\<lparr>ub := True\<rparr>))
     \<Longrightarrow> wp (load_byte K a i) Q w"
  by (simp add: wp_iff load_byte_def split: option.splits)

lemma wp_store_byte:
  "(\<And>k. k_store K a i c (kst w) = Some k \<Longrightarrow> Q () (w\<lparr>kst := k\<rparr>)) \<Longrightarrow>
   (k_store K a i c (kst w) = None \<Longrightarrow> Q () (w\<lparr>ub := True\<rparr>)) \<Longrightarrow> wp (store_byte K a i c) Q w"
  by (simp add: wp_iff store_byte_def split: option.splits)

text \<open>When only the calls matter: an access may fault, and a store changes the kernel's state.\<close>

lemma wp_load_byte_quiet:
  assumes "\<And>c u. Q c (w\<lparr>ub := u\<rparr>)"
  shows "wp (load_byte K a i) Q w"
proof -
  have "Q c w" for c using assms [of c "ub w"] by simp
  then show ?thesis by (intro wp_load_byte assms)
qed

lemma wp_store_byte_quiet:
  assumes "\<And>k u. Q () (w\<lparr>kst := k, ub := u\<rparr>)"
  shows "wp (store_byte K a i c) Q w"
proof -
  have "Q () (w\<lparr>kst := k\<rparr>)" for k using assms [where k = k and u = "ub w"] by simp
  moreover have "Q () (w\<lparr>ub := True\<rparr>)" using assms [where k = "kst w" and u = True] by simp
  ultimately show ?thesis by (intro wp_store_byte)
qed

lemma wp_load_string_quiet:
  assumes "\<And>s u. Q s (w\<lparr>ub := u\<rparr>)"
  shows "wp (load_string K a i n) Q w"
  using assms
proof (induction n arbitrary: w Q i)
  case 0
  from 0 [of "[]" "ub w"] show ?case by (auto intro: wp_return)
next
  case (Suc n)
  then show ?case
    unfolding load_string.simps by (intro wp_intros wp_load_byte_quiet Suc.IH) simp_all
qed

lemma wp_store_bytes_quiet:
  assumes "\<And>k u. Q () (w\<lparr>kst := k, ub := u\<rparr>)"
  shows "wp (store_bytes K a i s) Q w"
  using assms
proof (induction s arbitrary: w i)
  case Nil
  from Nil [where k = "kst w" and u = "ub w"] show ?case by (auto intro: wp_skip)
next
  case (Cons c s)
  then show ?case
    unfolding store_bytes.simps by (intro wp_intros wp_store_byte_quiet Cons.IH) simp_all
qed

lemmas access_quiet = wp_checked_quiet wp_load_byte_quiet wp_store_byte_quiet wp_load_string_quiet wp_store_bytes_quiet

section \<open>Regions, files and the contract\<close>

record region =
  bytes :: string
  writable :: bool
  backing :: "string option"

text \<open>
  \<open>streams\<close> are the open \<^verbatim>\<open>FILE\<close>s with their path and the bytes written so far, \<open>fdpath\<close> the open
  descriptors.
\<close>

record mem_view =
  regs :: "int \<rightharpoonup> region"
  brk :: int
  mfiles :: "string \<rightharpoonup> string"
  streams :: "int \<rightharpoonup> string \<times> string"
  fdpath :: "int \<rightharpoonup> string"

definition zeros :: "int \<Rightarrow> string" where
  "zeros n = replicate (nat n) NUL"

definition view_map :: "int \<Rightarrow> region \<Rightarrow> mem_view \<Rightarrow> mem_view" where
  "view_map a r v = v\<lparr>regs := (regs v)(a \<mapsto> r)\<rparr>"

definition view_store :: "int \<Rightarrow> int \<Rightarrow> char \<Rightarrow> mem_view \<Rightarrow> mem_view" where
  "view_store a i c v = (case regs v a of None \<Rightarrow> v | Some r \<Rightarrow>
     v\<lparr>regs := (regs v)(a \<mapsto> r\<lparr>bytes := (bytes r)[nat i := c]\<rparr>),
       mfiles := (case backing r of None \<Rightarrow> mfiles v | Some p \<Rightarrow> (mfiles v)(p \<mapsto> (bytes r)[nat i := c]))\<rparr>)"

definition in_region :: "mem_view \<Rightarrow> int \<Rightarrow> int \<Rightarrow> bool" where
  "in_region v a i \<longleftrightarrow> (case regs v a of None \<Rightarrow> False | Some r \<Rightarrow> 0 \<le> i \<and> i < int (length (bytes r)))"

locale posix_mem =
  fixes K :: "'k mem_kernel" and view :: "'k \<Rightarrow> mem_view"
  assumes sbrk_spec: "k_sbrk K n k = (r, k') \<Longrightarrow>
      r = -1 \<and> n \<noteq> 0 \<and> view k' = view k \<or>
      r = brk (view k) \<and>
        view k' = (if n = 0 then view k else (view_map r \<lparr>bytes = zeros n, writable = True, backing = None\<rparr> (view k))\<lparr>brk := r + n\<rparr>)"
    and mmap_spec: "k_mmap_anon K n k = (r, k') \<Longrightarrow>
      r = -1 \<and> view k' = view k \<or>
      0 < r \<and> regs (view k) r = None \<and> view k' = view_map r \<lparr>bytes = zeros n, writable = True, backing = None\<rparr> (view k)"
    and mmap_file_spec: "k_mmap_file K fd n k = (r, k') \<Longrightarrow>
      r = -1 \<and> view k' = view k \<or>
      0 < r \<and> regs (view k) r = None \<and>
        (\<exists>p c. fdpath (view k) fd = Some p \<and> mfiles (view k) p = Some c \<and> n = int (length c) \<and>
          view k' = view_map r \<lparr>bytes = c, writable = True, backing = Some p\<rparr> (view k))"
    and munmap_spec: "k_munmap K a n k = (r, k') \<Longrightarrow>
      r = -1 \<and> view k' = view k \<or> r = 0 \<and> view k' = (view k)\<lparr>regs := (regs (view k))(a := None)\<rparr>"
    and msync_spec: "k_msync K a n k = (r, k') \<Longrightarrow> view k' = view k"
    and mprotect_spec: "k_mprotect_read K a n k = (r, k') \<Longrightarrow>
      r = -1 \<and> view k' = view k \<or>
      (\<exists>reg. regs (view k) a = Some reg \<and> view k' = view_map a (reg\<lparr>writable := False\<rparr>) (view k))"
    and sysconf_spec: "k_sysconf K name k = (r, k') \<Longrightarrow> view k' = view k \<and> (name = SC_PAGESIZE \<longrightarrow> 4096 \<le> r \<and> r < 2 ^ 63)"
    and fopen_spec: "k_fopen_w K p k = (r, k') \<Longrightarrow>
      r = 0 \<and> view k' = view k \<or>
      r \<noteq> 0 \<and> view k' = (view k)\<lparr>mfiles := (mfiles (view k))(p \<mapsto> []), streams := (streams (view k))(r \<mapsto> (p, []))\<rparr>"
    and fwrite_spec: "k_fwrite K h s k = (r, k') \<Longrightarrow> streams (view k) h = Some (p, b) \<Longrightarrow>
      (\<exists>m \<le> length s. view k' = (view k)\<lparr>streams := (streams (view k))(h \<mapsto> (p, b @ take m s))\<rparr>)"
    and fclose_spec: "k_fclose K h k = (r, k') \<Longrightarrow> streams (view k) h = Some (p, b) \<Longrightarrow>
      (\<exists>m \<le> length b. view k' = (view k)\<lparr>mfiles := (mfiles (view k))(p \<mapsto> take m b), streams := (streams (view k))(h := None)\<rparr>)"
    and open_spec: "k_open_rdwr K p k = (r, k') \<Longrightarrow>
      r = -1 \<and> view k' = view k \<or>
      0 \<le> r \<and> mfiles (view k) p \<noteq> None \<and> view k' = (view k)\<lparr>fdpath := (fdpath (view k))(r \<mapsto> p)\<rparr>"
    and fstat_spec: "k_fstat_size K fd k = (sz, k') \<Longrightarrow> view k' = view k \<and>
      (case sz of None \<Rightarrow> True | Some n \<Rightarrow> \<exists>p c. fdpath (view k) fd = Some p \<and> mfiles (view k) p = Some c \<and> n = int (length c))"
    and close_fd_spec: "k_close_fd K fd k = (r, k') \<Longrightarrow>
      view k' = (view k)\<lparr>fdpath := (fdpath (view k))(fd := None)\<rparr>"
    and load_spec: "regs (view k) a = Some reg \<Longrightarrow> 0 \<le> i \<Longrightarrow> i < int (length (bytes reg)) \<Longrightarrow>
      k_load K a i k = Some (bytes reg ! nat i)"
    and store_spec: "regs (view k) a = Some reg \<Longrightarrow> writable reg \<Longrightarrow> 0 \<le> i \<Longrightarrow> i < int (length (bytes reg)) \<Longrightarrow>
      \<exists>k'. k_store K a i ch k = Some k' \<and> view k' = view_store a i ch (view k)"

section \<open>A kernel that keeps the contract\<close>

text \<open>
  The state is a view. A new mapping is placed at a fixed address and fails when that is taken;
  stream 1 and descriptor 3 are the only ones given out.
\<close>

definition map_at :: "int \<Rightarrow> region \<Rightarrow> mem_view \<Rightarrow> int \<times> mem_view" where
  "map_at a r v = (if regs v a = None then (a, view_map a r v) else (-1, v))"

definition ref_sbrk :: "int \<Rightarrow> mem_view \<Rightarrow> int \<times> mem_view" where
  "ref_sbrk n v = (brk v, if n = 0 then v
     else (view_map (brk v) \<lparr>bytes = zeros n, writable = True, backing = None\<rparr> v)\<lparr>brk := brk v + n\<rparr>)"

definition ref_mmap_file :: "int \<Rightarrow> int \<Rightarrow> mem_view \<Rightarrow> int \<times> mem_view" where
  "ref_mmap_file fd n v = (case fdpath v fd of None \<Rightarrow> (-1, v)
     | Some p \<Rightarrow> (case mfiles v p of None \<Rightarrow> (-1, v)
       | Some c \<Rightarrow> if n = int (length c) then map_at 0x20000 \<lparr>bytes = c, writable = True, backing = Some p\<rparr> v else (-1, v)))"

definition ref_mprotect :: "int \<Rightarrow> int \<Rightarrow> mem_view \<Rightarrow> int \<times> mem_view" where
  "ref_mprotect a n v = (case regs v a of None \<Rightarrow> (-1, v) | Some r \<Rightarrow> (0, view_map a (r\<lparr>writable := False\<rparr>) v))"

definition ref_fwrite :: "int \<Rightarrow> string \<Rightarrow> mem_view \<Rightarrow> int \<times> mem_view" where
  "ref_fwrite h s v = (case streams v h of None \<Rightarrow> (0, v)
     | Some (p, b) \<Rightarrow> (int (length s), v\<lparr>streams := (streams v)(h \<mapsto> (p, b @ s))\<rparr>))"

definition ref_fclose :: "int \<Rightarrow> mem_view \<Rightarrow> int \<times> mem_view" where
  "ref_fclose h v = (case streams v h of None \<Rightarrow> (-1, v)
     | Some (p, b) \<Rightarrow> (0, v\<lparr>mfiles := (mfiles v)(p \<mapsto> b), streams := (streams v)(h := None)\<rparr>))"

definition ref_fstat :: "int \<Rightarrow> mem_view \<Rightarrow> int option \<times> mem_view" where
  "ref_fstat fd v = (case fdpath v fd of None \<Rightarrow> (None, v)
     | Some p \<Rightarrow> (map_option (\<lambda>c. int (length c)) (mfiles v p), v))"

definition ref_load :: "int \<Rightarrow> int \<Rightarrow> mem_view \<Rightarrow> char option" where
  "ref_load a i v = (case regs v a of None \<Rightarrow> None
     | Some r \<Rightarrow> if 0 \<le> i \<and> i < int (length (bytes r)) then Some (bytes r ! nat i) else None)"

definition ref_store :: "int \<Rightarrow> int \<Rightarrow> char \<Rightarrow> mem_view \<Rightarrow> mem_view option" where
  "ref_store a i c v = (case regs v a of None \<Rightarrow> None
     | Some r \<Rightarrow> if writable r \<and> 0 \<le> i \<and> i < int (length (bytes r)) then Some (view_store a i c v) else None)"

definition ref_mem :: "mem_view mem_kernel" where
  "ref_mem = \<lparr>
     k_sbrk = ref_sbrk,
     k_mmap_anon = (\<lambda>n. map_at 0x10000 \<lparr>bytes = zeros n, writable = True, backing = None\<rparr>),
     k_mmap_file = ref_mmap_file,
     k_munmap = (\<lambda>a n v. (0, v\<lparr>regs := (regs v)(a := None)\<rparr>)),
     k_msync = (\<lambda>a n v. (0, v)),
     k_mprotect_read = ref_mprotect,
     k_sysconf = (\<lambda>c v. (4096, v)),
     k_fopen_w = (\<lambda>p v. (1, v\<lparr>mfiles := (mfiles v)(p \<mapsto> []), streams := (streams v)(1 \<mapsto> (p, []))\<rparr>)),
     k_fwrite = ref_fwrite,
     k_fclose = ref_fclose,
     k_open_rdwr = (\<lambda>p v. if mfiles v p = None then (-1, v) else (3, v\<lparr>fdpath := (fdpath v)(3 \<mapsto> p)\<rparr>)),
     k_fstat_size = ref_fstat,
     k_close_fd = (\<lambda>fd v. (0, v\<lparr>fdpath := (fdpath v)(fd := None)\<rparr>)),
     k_load = ref_load,
     k_store = ref_store\<rparr>"

lemma ref_mem_sel [simp]:
  "k_sbrk ref_mem = ref_sbrk"
  "k_mmap_anon ref_mem n = map_at 0x10000 \<lparr>bytes = zeros n, writable = True, backing = None\<rparr>"
  "k_mmap_file ref_mem = ref_mmap_file"
  "k_munmap ref_mem a n v = (0, v\<lparr>regs := (regs v)(a := None)\<rparr>)"
  "k_msync ref_mem a n v = (0, v)"
  "k_mprotect_read ref_mem = ref_mprotect"
  "k_sysconf ref_mem name v = (4096, v)"
  "k_fopen_w ref_mem p v = (1, v\<lparr>mfiles := (mfiles v)(p \<mapsto> []), streams := (streams v)(1 \<mapsto> (p, []))\<rparr>)"
  "k_fwrite ref_mem = ref_fwrite"
  "k_fclose ref_mem = ref_fclose"
  "k_open_rdwr ref_mem p v = (if mfiles v p = None then (-1, v) else (3, v\<lparr>fdpath := (fdpath v)(3 \<mapsto> p)\<rparr>))"
  "k_fstat_size ref_mem = ref_fstat"
  "k_close_fd ref_mem fd v = (0, v\<lparr>fdpath := (fdpath v)(fd := None)\<rparr>)"
  "k_load ref_mem = ref_load"
  "k_store ref_mem = ref_store"
  by (simp_all add: ref_mem_def)

interpretation ref_mem_sys: posix_mem ref_mem "\<lambda>v. v"
proof
  fix fd n k r k'
  assume "k_mmap_file ref_mem fd n k = (r, k')"
  then show "r = -1 \<and> k' = k \<or>
      0 < r \<and> regs k r = None \<and>
        (\<exists>p c. fdpath k fd = Some p \<and> mfiles k p = Some c \<and> n = int (length c) \<and>
          k' = view_map r \<lparr>bytes = c, writable = True, backing = Some p\<rparr> k)"
    by (auto simp: ref_mmap_file_def map_at_def split: option.splits if_splits)
next
  fix h s k r k' p b
  assume "k_fwrite ref_mem h s k = (r, k')" and "streams k h = Some (p, b)"
  then show "\<exists>m \<le> length s. k' = k\<lparr>streams := (streams k)(h \<mapsto> (p, b @ take m s))\<rparr>"
    by (intro exI [of _ "length s"]) (auto simp: ref_fwrite_def)
next
  fix h k r k' p b
  assume "k_fclose ref_mem h k = (r, k')" and "streams k h = Some (p, b)"
  then show "\<exists>m \<le> length b. k' = k\<lparr>mfiles := (mfiles k)(p \<mapsto> take m b), streams := (streams k)(h := None)\<rparr>"
    by (intro exI [of _ "length b"]) (auto simp: ref_fclose_def)
next
  fix fd k sz k'
  assume "k_fstat_size ref_mem fd k = (sz, k')"
  then show "k' = k \<and> (case sz of None \<Rightarrow> True
      | Some n \<Rightarrow> \<exists>p c. fdpath k fd = Some p \<and> mfiles k p = Some c \<and> n = int (length c))"
    by (auto simp: ref_fstat_def split: option.splits)
qed (auto simp: ref_sbrk_def map_at_def ref_mprotect_def ref_load_def ref_store_def split: option.splits if_splits)

end
