(* ===== verification/Memory_Demo.thy ===== *)
theory Memory_Demo
  imports Memory_Kernel
begin

text \<open>
  \<^verbatim>\<open>src/examples/memory_demo.c\<close>, function by function, on any kernel. Every access to memory from
  \<^verbatim>\<open>sbrk\<close> or \<^verbatim>\<open>mmap\<close> goes through the checked accesses of \<open>Memory_Kernel\<close>; signed overflow of
  \<^verbatim>\<open>long\<close> is checked too.

  Shown: every mapping and descriptor is released on every path and every kernel
  (\<open>memory_releases_all\<close>), unless the kernel refuses to unmap; on a kernel that keeps its contract no access faults, the heap and
  \<^verbatim>\<open>mmap\<close> demos print what they stored, and fresh memory is reported as zero
  (\<open>demonstrate_brk_sbrk_correct\<close>, \<open>demonstrate_mmap_correct\<close>); the file mapping demo leaves the
  file edited exactly at bytes 0 and 5 (\<open>demonstrate_mmap_file_correct\<close>); nothing is stored after
  \<^verbatim>\<open>mprotect\<close> (\<open>demonstrate_mprotect_correct\<close>).
\<close>

section \<open>The demos\<close>

definition print_separator :: "string \<Rightarrow> ('k, unit) mprog" where
  "print_separator title = printf (''\<newline>=== '' @ title @ '' ===\<newline>'')"

definition demonstrate_brk_sbrk :: "'k mem_kernel \<Rightarrow> ('k, unit) mprog" where
  "demonstrate_brk_sbrk K = do {
     print_separator ''brk/sbrk Demo'';
     current_brk \<leftarrow> sys_sbrk K 0;
     printf (''Current program break: '' @ show_ptr (nat current_brk) @ ''\<newline>'');
     let size = 4096;
     new_space \<leftarrow> sys_sbrk K size;
     if new_space = -1 then perror ''sbrk''
     else do {
       printf (''Allocated '' @ show_int size @ '' bytes at: '' @ show_ptr (nat new_space) @ ''\<newline>'');
       new_brk \<leftarrow> sys_sbrk K 0;
       printf (''New program break: '' @ show_ptr (nat new_brk) @ ''\<newline>'');
       printf (''Difference: '' @ show_int (new_brk - current_brk) @ '' bytes\<newline>'');
       strcpy_to K new_space ''Hello from heap!'';
       s \<leftarrow> load_string K new_space 0 (nat size);
       printf (''Content: '' @ s @ ''\<newline>'')
     }
   }"

text \<open>The loop of lines 72 to 78: whether the bytes from \<open>i\<close> on, \<open>n\<close> of them, are all zero.\<close>

fun zero_scan :: "'k mem_kernel \<Rightarrow> int \<Rightarrow> int \<Rightarrow> nat \<Rightarrow> ('k, bool) mprog" where
  "zero_scan K a i 0 = return True"
| "zero_scan K a i (Suc n) = do {
     c \<leftarrow> load_byte K a i;
     if c \<noteq> NUL then return False else zero_scan K a (i + 1) n
   }"

definition demonstrate_mmap :: "'k mem_kernel \<Rightarrow> ('k, unit) mprog" where
  "demonstrate_mmap K = do {
     print_separator ''mmap Anonymous Memory Demo'';
     let size = 4096;
     memory \<leftarrow> sys_mmap K size;
     if memory = -1 then perror ''mmap''
     else do {
       printf (''Allocated '' @ show_int size @ '' bytes at: '' @ show_ptr (nat memory) @ ''\<newline>'');
       strcpy_to K memory ''Hello from mmap!'';
       s \<leftarrow> load_string K memory 0 (nat size);
       printf (''Content: '' @ s @ ''\<newline>'');
       s \<leftarrow> load_string K memory 0 (nat size);
       is_zeroed \<leftarrow> zero_scan K memory (int (length s) + 1) (nat size - (length s + 1));
       printf (''Remaining memory is zero-filled: '' @ (if is_zeroed then ''Yes'' else ''No'') @ ''\<newline>'');
       r \<leftarrow> sys_munmap K memory size;
       if r = -1 then perror ''munmap''
       else printf ''Memory unmapped successfully\<newline>''
     }
   }"

definition mmap_filename :: string where
  "mmap_filename = ''mmap_test.txt''"

definition mmap_content :: string where
  "mmap_content = ''This is mapped file content!\<newline>Line 2 here.\<newline>''"

text \<open>
  \<^verbatim>\<open>printf("%.*s", (int) n, p)\<close>; a size that is no \<^verbatim>\<open>int\<close> would make the precision negative or wrong.
\<close>

definition load_prec :: "'k mem_kernel \<Rightarrow> int \<Rightarrow> int \<Rightarrow> ('k, string) mprog" where
  "load_prec K a n = do {
     n \<leftarrow> checked 0 (if 0 \<le> n \<and> int_range n then Some n else None);
     load_string K a 0 (nat n)
   }"

definition demonstrate_mmap_file :: "'k mem_kernel \<Rightarrow> ('k, unit) mprog" where
  "demonstrate_mmap_file K = do {
     print_separator ''mmap File Mapping Demo'';
     fp \<leftarrow> sys_fopen K mmap_filename;
     if fp = 0 then perror ''fopen''
     else do {
       sys_fwrite K fp mmap_content;
       sys_fclose K fp;
       fd \<leftarrow> sys_open_rdwr K mmap_filename;
       if fd = -1 then perror ''open''
       else do {
         sb \<leftarrow> sys_fstat K fd;
         case sb of
           None \<Rightarrow> do {
             perror ''fstat'';
             sys_close_fd K fd;
             skip
           }
         | Some st_size \<Rightarrow> do {
             printf (''File size: '' @ show_int st_size @ '' bytes\<newline>'');
             mapped \<leftarrow> sys_mmap_file K fd st_size;
             if mapped = -1 then do {
               perror ''mmap'';
               sys_close_fd K fd;
               skip
             } else do {
               sys_close_fd K fd;
               printf (''File mapped at: '' @ show_ptr (nat mapped) @ ''\<newline>'');
               s \<leftarrow> load_prec K mapped st_size;
               printf (''Original content:\<newline>'' @ s @ ''\<newline>'');
               (if st_size > 5 then do {
                 store_byte K mapped 0 CHR ''t'';
                 store_byte K mapped 5 CHR ''I''
               } else skip);
               r \<leftarrow> sys_msync K mapped st_size;
               (if r = -1 then perror ''msync'' else skip);
               s \<leftarrow> load_prec K mapped st_size;
               printf (''Modified content:\<newline>'' @ s @ ''\<newline>'');
               printf ''Changes written to file via mmap!\<newline>'';
               sys_munmap K mapped st_size;
               skip
             }
           }
       }
     }
   }"

text \<open>\<^verbatim>\<open>page_size\<close> is a \<^verbatim>\<open>size_t\<close> here: the result of \<^verbatim>\<open>sysconf\<close> modulo \<open>2 ^ 64\<close>.\<close>

definition demonstrate_mprotect :: "'k mem_kernel \<Rightarrow> ('k, unit) mprog" where
  "demonstrate_mprotect K = do {
     print_separator ''mprotect Demo'';
     r \<leftarrow> sys_sysconf K SC_PAGESIZE;
     let page_size = r mod 2 ^ 64;
     printf (''Page size: '' @ show_int page_size @ '' bytes\<newline>'');
     memory \<leftarrow> sys_mmap K page_size;
     if memory = -1 then perror ''mmap''
     else do {
       strcpy_to K memory ''Read-Write Memory'';
       s \<leftarrow> load_string K memory 0 (nat page_size);
       printf (''Wrote: '' @ s @ ''\<newline>'');
       printf ''Changing to read-only with mprotect()...\<newline>'';
       r \<leftarrow> sys_mprotect K memory page_size;
       if r = -1 then do {
         perror ''mprotect'';
         sys_munmap K memory page_size;
         skip
       } else do {
         s \<leftarrow> load_string K memory 0 (nat page_size);
         printf (''Read: '' @ s @ ''\<newline>'');
         printf ''Memory is now read-only\<newline>'';
         printf ''(Attempting write would cause SIGSEGV)\<newline>'';
         sys_munmap K memory page_size;
         skip
       }
     }
   }"

definition long_mult :: "int \<Rightarrow> int \<Rightarrow> ('k, int) mprog" where
  "long_mult a b = checked 0 (if long_range (a * b) then Some (a * b) else None)"

definition demonstrate_memory_info :: "'k mem_kernel \<Rightarrow> ('k, unit) mprog" where
  "demonstrate_memory_info K = do {
     print_separator ''Memory Information'';
     page_size \<leftarrow> sys_sysconf K SC_PAGESIZE;
     phys_pages \<leftarrow> sys_sysconf K SC_PHYS_PAGES;
     avail_pages \<leftarrow> sys_sysconf K SC_AVPHYS_PAGES;
     printf (''Page size: '' @ show_int page_size @ '' bytes ('' @ show_int (c_div page_size 1024) @ '' KB)\<newline>'');
     printf (''Physical pages: '' @ show_int phys_pages @ ''\<newline>'');
     total \<leftarrow> long_mult phys_pages page_size;
     printf (''Total RAM: '' @ show_int (c_div total (1024 * 1024)) @ '' MB\<newline>'');
     printf (''Available pages: '' @ show_int avail_pages @ ''\<newline>'');
     avail \<leftarrow> long_mult avail_pages page_size;
     printf (''Available RAM: '' @ show_int (c_div avail (1024 * 1024)) @ '' MB\<newline>'')
   }"

definition memory_main :: "'k mem_kernel \<Rightarrow> ('k, int) mprog" where
  "memory_main K = do {
     printf ''=== Memory Management System Calls Demo ===\<newline>'';
     demonstrate_brk_sbrk K;
     demonstrate_mmap K;
     demonstrate_mmap_file K;
     demonstrate_mprotect K;
     demonstrate_memory_info K;
     printf ''\<newline>=== Demo Complete ===\<newline>'';
     printf ''Created file: mmap_test.txt\<newline>'';
     return 0
   }"

section \<open>Everything is released\<close>

text \<open>
  What a trace holds: the mappings made and not unmapped, and the streams and descriptors opened and
  not closed. Memory from \<^verbatim>\<open>sbrk\<close> is never given back by the program and is not counted.
\<close>

datatype held = Mapping int int | is_Refused: Refused int int | Stream int | Descriptor int

text \<open>
  A mapping is an address and a length; it is released by a \<^verbatim>\<open>munmap\<close> of both that does not return -1, and otherwise kept as
  \<open>Refused\<close>. \<^verbatim>\<open>fclose\<close> and \<^verbatim>\<open>close\<close> release the stream or descriptor also when they report an error.
\<close>

fun held_mon :: "mem_event \<Rightarrow> held list \<Rightarrow> held list" where
  "held_mon (EMmap n r) X = (if r = -1 then X else Mapping r n # X)"
| "held_mon (EMmap_File fd n r) X = (if r = -1 then X else Mapping r n # X)"
| "held_mon (EMunmap a n r) X =
     (if Mapping a n \<in> set X then (if r = -1 then Refused a n # remove1 (Mapping a n) X else remove1 (Mapping a n) X) else X)"
| "held_mon (EFopen p r) X = (if r = 0 then X else Stream r # X)"
| "held_mon (EFclose h r) X = remove1 (Stream h) X"
| "held_mon (EOpen_Rdwr p r) X = (if r = -1 then X else Descriptor r # X)"
| "held_mon (EClose_Fd fd r) X = remove1 (Descriptor fd) X"
| "held_mon _ X = X"

definition held_by :: "mem_event ev list \<Rightarrow> held list" where
  "held_by tr = fold held_mon (sys_events tr) []"

text \<open>Without the refused mappings, it does not matter what \<^verbatim>\<open>munmap\<close> returns.\<close>

fun live_mon :: "mem_event \<Rightarrow> held list \<Rightarrow> held list" where
  "live_mon (EMunmap a n r) X = remove1 (Mapping a n) X"
| "live_mon e X = held_mon e X"

definition live_in :: "mem_event ev list \<Rightarrow> held list" where
  "live_in tr = fold live_mon (sys_events tr) []"

lemma filter_remove1: "P x \<Longrightarrow> filter P (remove1 x X) = remove1 x (filter P X)"
  by (induction X) auto

lemma filter_remove1_other: "\<not> P x \<Longrightarrow> filter P (remove1 x X) = filter P X"
  by (induction X) auto

lemma live_held: "[x \<leftarrow> held_by tr. \<not> is_Refused x] = live_in tr"
proof -
  have step: "[x \<leftarrow> held_mon e X. \<not> is_Refused x] = live_mon e [x \<leftarrow> X. \<not> is_Refused x]" for e X
    by (cases e) (simp_all add: filter_remove1 remove1_idem)
  have "[x \<leftarrow> fold held_mon es X. \<not> is_Refused x] = fold live_mon es [x \<leftarrow> X. \<not> is_Refused x]" for es X
    by (induction es arbitrary: X) (simp_all add: step)
  then show ?thesis by (simp add: held_by_def live_in_def)
qed

lemma wp_zero_scan_quiet:
  assumes "\<And>b u. Q b (w\<lparr>ub := u\<rparr>)"
  shows "wp (zero_scan K a i n) Q w"
  using assms
proof (induction n arbitrary: w i)
  case 0
  from 0 [of True "ub w"] show ?case by (auto intro: wp_return)
next
  case (Suc n)
  then show ?case
    unfolding zero_scan.simps by (intro wp_intros wp_load_byte_quiet Suc.IH) simp_all
qed

lemmas mem_defs = demonstrate_brk_sbrk_def demonstrate_mmap_def demonstrate_mmap_file_def
  demonstrate_mprotect_def demonstrate_memory_info_def strcpy_to_def load_prec_def long_mult_def print_separator_def

lemmas wp_live = wp_monitor [where f = live_mon and m = "[]", folded live_in_def]

definition releases :: "('k, 'a) mprog \<Rightarrow> bool" where
  "releases m \<longleftrightarrow> (\<forall>w. wp m (\<lambda>_ t. live_in (trace t) = live_in (trace w)) w)"

lemma releasesI: "(\<And>w. wp m (\<lambda>_ t. live_in (trace t) = live_in (trace w)) w) \<Longrightarrow> releases m"
  by (simp add: releases_def)

lemma wp_releases: "releases m \<Longrightarrow> (\<And>a t. live_in (trace t) = live_in (trace w) \<Longrightarrow> Q a t) \<Longrightarrow> wp m Q w"
  unfolding releases_def by (blast intro: wp_mono)

lemma demos_release:
  "releases (demonstrate_brk_sbrk K)"
  "releases (demonstrate_mmap K)"
  "releases (demonstrate_mprotect K)"
  "releases (demonstrate_memory_info K)"
  by (rule releasesI, unfold mem_defs mem_calls, intro wp_live wp_intros access_quiet wp_zero_scan_quiet; simp)+

lemma demonstrate_mmap_file_releases: "releases (demonstrate_mmap_file K)"
  by (rule releasesI, unfold mem_defs mem_calls, intro wp_live wp_intros access_quiet wp_zero_scan_quiet; simp)

text \<open>
  C17. The program releases what it acquires: on every kernel and whichever calls fail, at the end of \<^verbatim>\<open>main\<close> every stream and
  descriptor is closed and every mapping is unmapped with its address and length, except those for which \<^verbatim>\<open>munmap\<close> was called
  and returned -1.
\<close>

theorem memory_releases_all: "list_all is_Refused (held_by (trace (world_of (memory_main K) (boot k))))"
proof -
  have "wp (memory_main K) (\<lambda>_ t. live_in (trace t) = []) (boot k)"
    unfolding memory_main_def
    by (intro wp_intros wp_quiet wp_releases [OF demos_release(1)] wp_releases [OF demos_release(2)]
      wp_releases [OF demonstrate_mmap_file_releases] wp_releases [OF demos_release(3)]
      wp_releases [OF demos_release(4)]) (simp_all add: live_in_def boot_def)
  then show ?thesis by (simp add: wp_world_of list_all_iff filter_empty_conv flip: live_held)
qed

section \<open>Accesses under the contract\<close>

text \<open>The edit of lines 138 to 141.\<close>

definition edited :: "string \<Rightarrow> string" where
  "edited c = (if 5 < length c then c[0 := CHR ''t'', 5 := CHR ''I''] else c)"

text \<open>The file may hold only the first bytes of the content, when a write fails unnoticed.\<close>

definition part_of_content :: "string \<Rightarrow> bool" where
  "part_of_content c \<longleftrightarrow> (\<exists>m. c = take m mmap_content)"

text \<open>
  The file system takes all the bytes: \<^verbatim>\<open>fwrite\<close> buffers the whole string and \<^verbatim>\<open>fclose\<close> writes the whole buffer.
\<close>

definition disk_has_room :: "'k mem_kernel \<Rightarrow> ('k \<Rightarrow> mem_view) \<Rightarrow> bool" where
  "disk_has_room K view \<longleftrightarrow>
     (\<forall>h s k r k' p b. k_fwrite K h s k = (r, k') \<longrightarrow> streams (view k) h = Some (p, b) \<longrightarrow> streams (view k') h = Some (p, b @ s)) \<and>
     (\<forall>h k r k' p b. k_fclose K h k = (r, k') \<longrightarrow> streams (view k) h = Some (p, b) \<longrightarrow> mfiles (view k') p = Some b)"

definition written_part :: "bool \<Rightarrow> string \<Rightarrow> bool" where
  "written_part room c \<longleftrightarrow> part_of_content c \<and> (room \<longrightarrow> c = mmap_content)"

lemma edited_long: "5 < length c \<Longrightarrow> c[0 := CHR ''t'', 5 := CHR ''I''] = edited c"
  by (simp add: edited_def)

lemma edited_short: "\<not> 5 < length c \<Longrightarrow> edited c = c"
  by (simp add: edited_def)

lemma length_edited [simp]: "length (edited c) = length c"
  by (simp add: edited_def)

lemma part_range: "written_part room c \<Longrightarrow> int_range (int (length c))"
  by (auto simp: written_part_def part_of_content_def int_range_def mmap_content_def)

lemma part_text:
  assumes "written_part room c"
  shows "takeWhile (\<lambda>x. x \<noteq> NUL) c = c" and "takeWhile (\<lambda>x. x \<noteq> NUL) (edited c) = edited c"
proof -
  have "NUL \<notin> set mmap_content" by (simp add: mmap_content_def NUL_def)
  with assms have c: "NUL \<notin> set c" by (auto simp: written_part_def part_of_content_def dest: in_set_takeD)
  then show "takeWhile (\<lambda>x. x \<noteq> NUL) c = c" by (auto simp: takeWhile_eq_all_conv)
  have "set (edited c) \<subseteq> insert CHR ''t'' (insert CHR ''I'' (set c))"
    by (auto simp: edited_def dest!: set_update_subset_insert [THEN subsetD])
  with c have "NUL \<notin> set (edited c)" by (auto simp: NUL_def)
  then show "takeWhile (\<lambda>x. x \<noteq> NUL) (edited c) = edited c" by (auto simp: takeWhile_eq_all_conv)
qed

lemma view_map_simps [simp]:
  "regs (view_map a r v) a = Some r"
  "view_map a r (view_map a r' v) = view_map a r v"
  "mfiles (view_map a r v) = mfiles v"
  "brk (view_map a r v) = brk v"
  "fdpath (view_map a r v) = fdpath v"
  by (simp_all add: view_map_def)

lemma unmap_map [simp]:
  "regs v a = None \<Longrightarrow> (view_map a r v)\<lparr>regs := (regs (view_map a r v))(a := None)\<rparr> = v"
  by (simp add: view_map_def fun_upd_idem)

text \<open>What the file mapping demo prints for the content \<open>c\<close> mapped at \<open>a\<close>.\<close>

definition mmap_file_text :: "string \<Rightarrow> int \<Rightarrow> string" where
  "mmap_file_text c a = ''\<newline>=== mmap File Mapping Demo ===\<newline>File size: '' @ show_int (int (length c)) @
     '' bytes\<newline>File mapped at: '' @ show_ptr (nat a) @ ''\<newline>Original content:\<newline>'' @ c @
     ''\<newline>Modified content:\<newline>'' @ edited c @ ''\<newline>Changes written to file via mmap!\<newline>''"

lemma show_4096: "show_int 4096 = ''4096''"
  by (simp add: show_eval)

context posix_mem
begin

lemma wp_load_byte_ok:
  assumes "regs (view (kst w)) a = Some reg" and "0 \<le> i" and "i < int (length (bytes reg))"
    and "Q (bytes reg ! nat i) w"
  shows "wp (load_byte K a i) Q w"
  using load_spec [OF assms(1-3)] assms(4) by (intro wp_load_byte) simp_all

text \<open>Reading a string that lies in a region gives its bytes up to the first NUL.\<close>

lemma wp_load_string_ok:
  assumes "regs (view (kst w)) a = Some reg" and "i + n \<le> length (bytes reg)"
    and "Q (takeWhile (\<lambda>c. c \<noteq> NUL) (take n (drop i (bytes reg)))) w"
  shows "wp (load_string K a (int i) n) Q w"
  using assms(2,3)
proof (induction n arbitrary: i Q)
  case 0
  then show ?case by (auto intro: wp_return)
next
  case (Suc n)
  then have i: "i < length (bytes reg)" by simp
  have split: "take (Suc n) (drop i (bytes reg)) = bytes reg ! i # take n (drop (Suc i) (bytes reg))"
    using i by (simp add: Cons_nth_drop_Suc [symmetric])
  have ih: "wp (load_string K a (int i + 1) n) Q' w"
    if "Q' (takeWhile (\<lambda>c. c \<noteq> NUL) (take n (drop (Suc i) (bytes reg)))) w" for Q'
    using Suc.IH [of "Suc i" Q'] Suc.prems(1) that by (simp add: add.commute)
  show ?case
    unfolding load_string.simps
    by (rule wp_bind, rule wp_load_byte_ok [OF assms(1)])
      (use i Suc.prems(2) in \<open>auto simp: split intro!: wp_if wp_return wp_bind ih\<close>)
qed

text \<open>The scan loop of the program computes whether all the bytes are zero.\<close>

lemma wp_zero_scan_ok:
  assumes "regs (view (kst w)) a = Some reg" and "i + n \<le> length (bytes reg)"
    and "Q (\<forall>c \<in> set (take n (drop i (bytes reg))). c = NUL) w"
  shows "wp (zero_scan K a (int i) n) Q w"
  using assms(2,3)
proof (induction n arbitrary: i)
  case 0
  then show ?case by (auto intro: wp_return)
next
  case (Suc n)
  then have i: "i < length (bytes reg)" by simp
  have split: "take (Suc n) (drop i (bytes reg)) = bytes reg ! i # take n (drop (Suc i) (bytes reg))"
    using i by (simp add: Cons_nth_drop_Suc [symmetric])
  have ih: "wp (zero_scan K a (int i + 1) n) Q w"
    if "Q (\<forall>c \<in> set (take n (drop (Suc i) (bytes reg))). c = NUL) w"
    using Suc.IH [of "Suc i"] Suc.prems(1) that by (simp add: add.commute)
  show ?case
    unfolding zero_scan.simps
    by (rule wp_bind, rule wp_load_byte_ok [OF assms(1)])
      (use i Suc.prems(2) in \<open>auto simp: split intro!: wp_if wp_return ih\<close>)
qed

lemma wp_store_byte_ok:
  assumes "regs (view (kst w)) a = Some reg" and "writable reg" and "0 \<le> i" and "i < int (length (bytes reg))"
    and "\<And>k. view k = view_store a i c (view (kst w)) \<Longrightarrow> Q () (w\<lparr>kst := k\<rparr>)"
  shows "wp (store_byte K a i c) Q w"
  using store_spec [OF assms(1-4), of c] assms(5) by (intro wp_store_byte) auto

text \<open>Storing a string into a private region.\<close>

lemma wp_store_bytes_ok:
  assumes "regs (view (kst w)) a = Some reg" and "writable reg" and "backing reg = None"
    and "i + length s \<le> length (bytes reg)"
    and "\<And>k. view k = view_map a (reg\<lparr>bytes := take i (bytes reg) @ s @ drop (i + length s) (bytes reg)\<rparr>) (view (kst w))
      \<Longrightarrow> Q () (w\<lparr>kst := k\<rparr>)"
  shows "wp (store_bytes K a (int i) s) Q w"
  using assms
proof (induction s arbitrary: i w reg)
  case Nil
  have "view_map a (reg\<lparr>bytes := bytes reg\<rparr>) (view (kst w)) = view (kst w)"
    using Nil.prems(1) by (cases reg) (simp add: view_map_def map_upd_triv)
  with Nil.prems(5) [of "kst w"] show ?case by (auto intro: wp_skip)
next
  case (Cons c s)
  let ?reg = "reg\<lparr>bytes := (bytes reg)[i := c]\<rparr>"
  have i: "i < length (bytes reg)" using Cons.prems(4) by simp
  have *: "take (Suc i) ((bytes reg)[i := c]) @ s @ drop (Suc i + length s) ((bytes reg)[i := c])
     = take i (bytes reg) @ (c # s) @ drop (i + length (c # s)) (bytes reg)"
    using i by (simp add: take_Suc_conv_app_nth)
  show ?case
    unfolding store_bytes.simps
  proof (rule wp_bind, rule wp_store_byte_ok [OF Cons.prems(1,2)])
    fix k
    assume k: "view k = view_store a (int i) c (view (kst w))"
    then have v: "view k = view_map a ?reg (view (kst w))"
      using Cons.prems(1,3) by (simp add: view_store_def view_map_def)
    have "wp (store_bytes K a (int (Suc i)) s) Q (w\<lparr>kst := k\<rparr>)"
    proof (rule Cons.IH [of _ ?reg])
      show "Q () (w\<lparr>kst := k, kst := k'\<rparr>)"
        if "view k' = view_map a (?reg\<lparr>bytes := take (Suc i) (bytes ?reg) @ s @ drop (Suc i + length s) (bytes ?reg)\<rparr>)
          (view (kst (w\<lparr>kst := k\<rparr>)))" for k'
        using that Cons.prems(5) [of k'] * by (simp add: v view_map_def)
    qed (use Cons.prems v i in \<open>simp_all add: view_map_def\<close>)
    then show "wp (store_bytes K a (int i + 1) s) Q (w\<lparr>kst := k\<rparr>)" by (simp add: add.commute)
  qed (use i in simp_all)
qed

lemma wp_strcpy_ok:
  assumes "regs (view (kst w)) a = Some reg" and "writable reg" and "backing reg = None"
    and "length s < length (bytes reg)"
    and "\<And>k. view k = view_map a (reg\<lparr>bytes := s @ NUL # drop (Suc (length s)) (bytes reg)\<rparr>) (view (kst w))
      \<Longrightarrow> Q () (w\<lparr>kst := k\<rparr>)"
  shows "wp (strcpy_to K a s) Q w"
  unfolding strcpy_to_def
  using assms by (intro wp_store_bytes_ok [of w a reg 0, simplified]) simp_all

lemma wp_string_ok:
  assumes "regs (view (kst w)) a = Some reg" and "bytes reg = s @ NUL # rest" and "n = length (bytes reg)"
    and "NUL \<notin> set s" and "Q s w"
  shows "wp (load_string K a 0 n) Q w"
proof -
  have "takeWhile (\<lambda>c. c \<noteq> NUL) (bytes reg) = s"
    using assms(2,4) by (auto simp: takeWhile_tail)
  then show ?thesis
    using assms by (intro wp_load_string_ok [of w a reg 0, simplified]) simp_all
qed

lemma wp_sbrk_zero:
  assumes "\<And>k tr. view k = view (kst w) \<Longrightarrow> out_text tr = out_text (trace w) \<Longrightarrow> errs tr = errs (trace w) \<Longrightarrow>
    Q (brk (view (kst w))) (w\<lparr>kst := k, trace := tr\<rparr>)"
  shows "wp (sys_sbrk K 0) Q w"
  unfolding sys_sbrk_def by (intro wp_sys_text) (auto dest!: sbrk_spec intro: assms)

lemma wp_sbrk:
  assumes "n \<noteq> 0"
    and "\<And>k tr. out_text tr = out_text (trace w) \<Longrightarrow> errs tr = errs (trace w) \<Longrightarrow> Q (-1) (w\<lparr>kst := k, trace := tr\<rparr>)"
    and "\<And>k tr. view k = (view_map (brk (view (kst w))) \<lparr>bytes = zeros n, writable = True, backing = None\<rparr>
        (view (kst w)))\<lparr>brk := brk (view (kst w)) + n\<rparr> \<Longrightarrow> out_text tr = out_text (trace w) \<Longrightarrow> errs tr = errs (trace w) \<Longrightarrow>
      Q (brk (view (kst w))) (w\<lparr>kst := k, trace := tr\<rparr>)"
  shows "wp (sys_sbrk K n) Q w"
  unfolding sys_sbrk_def by (intro wp_sys_text) (auto simp: assms(1) dest!: sbrk_spec intro: assms(2,3))

lemma demonstrate_brk_sbrk_wp:
  "wp (demonstrate_brk_sbrk K) (\<lambda>_ t. ub t = ub w \<and>
     (errs (trace t) = errs (trace w) \<longrightarrow> out_text (trace t) = out_text (trace w) @
       ''\<newline>=== brk/sbrk Demo ===\<newline>Current program break: '' @ show_ptr (nat (brk (view (kst w)))) @
       ''\<newline>Allocated 4096 bytes at: '' @ show_ptr (nat (brk (view (kst w)))) @
       ''\<newline>New program break: '' @ show_ptr (nat (brk (view (kst w)) + 4096)) @
       ''\<newline>Difference: 4096 bytes\<newline>Content: Hello from heap!\<newline>'')) w"
  unfolding demonstrate_brk_sbrk_def print_separator_def
  by (intro wp_text wp_intros wp_sbrk_zero wp_sbrk
      wp_strcpy_ok [where reg = "\<lparr>bytes = zeros 4096, writable = True, backing = None\<rparr>"]
      wp_string_ok [where s = "''Hello from heap!''" and rest = "drop 17 (zeros 4096)" and
        reg = "\<lparr>bytes = ''Hello from heap!'' @ NUL # drop 17 (zeros 4096), writable = True, backing = None\<rparr>"])
    (simp_all add: zeros_def NUL_def show_4096)

lemma wp_mmap:
  assumes "\<And>r k tr. r \<noteq> -1 \<longrightarrow> 0 < r \<and> regs (view (kst w)) r = None \<and>
        view k = view_map r \<lparr>bytes = zeros n, writable = True, backing = None\<rparr> (view (kst w)) \<Longrightarrow>
      out_text tr = out_text (trace w) \<Longrightarrow> errs tr = errs (trace w) \<Longrightarrow> Q r (w\<lparr>kst := k, trace := tr\<rparr>)"
  shows "wp (sys_mmap K n) Q w"
  unfolding sys_mmap_def by (intro wp_sys_text assms) (auto dest!: mmap_spec)

lemma wp_munmap:
  assumes "\<And>r k tr. view k = (if r = -1 then view (kst w) else (view (kst w))\<lparr>regs := (regs (view (kst w)))(a := None)\<rparr>) \<Longrightarrow>
      out_text tr = out_text (trace w) \<Longrightarrow> errs tr = errs (trace w) \<Longrightarrow> Q r (w\<lparr>kst := k, trace := tr\<rparr>)"
  shows "wp (sys_munmap K a n) Q w"
  unfolding sys_munmap_def by (intro wp_sys_text) (auto dest!: munmap_spec intro: assms)

lemma wp_scan_rest_ok:
  assumes "regs (view (kst w)) a = Some reg" and "bytes reg = s @ NUL # rest" and "n = length rest"
    and "Q (\<forall>c \<in> set rest. c = NUL) w"
  shows "wp (zero_scan K a (int (length s) + 1) n) Q w"
  using wp_zero_scan_ok [OF assms(1), of "Suc (length s)" n Q] assms(2-4) by (simp add: add.commute)

lemma demonstrate_mmap_wp:
  "wp (demonstrate_mmap K) (\<lambda>_ t. ub t = ub w \<and>
     (errs (trace t) = errs (trace w) \<longrightarrow> view (kst t) = view (kst w) \<and>
       (\<exists>a. out_text (trace t) = out_text (trace w) @
       ''\<newline>=== mmap Anonymous Memory Demo ===\<newline>Allocated 4096 bytes at: '' @ show_ptr (nat a) @
       ''\<newline>Content: Hello from mmap!\<newline>Remaining memory is zero-filled: Yes\<newline>Memory unmapped successfully\<newline>''))) w"
  unfolding demonstrate_mmap_def print_separator_def
  by (intro wp_text wp_intros wp_mmap wp_munmap
      wp_strcpy_ok [where reg = "\<lparr>bytes = zeros 4096, writable = True, backing = None\<rparr>"]
      wp_string_ok [where s = "''Hello from mmap!''" and rest = "drop 17 (zeros 4096)" and
        reg = "\<lparr>bytes = ''Hello from mmap!'' @ NUL # drop 17 (zeros 4096), writable = True, backing = None\<rparr>"]
      wp_scan_rest_ok [where rest = "drop 17 (zeros 4096)" and
        reg = "\<lparr>bytes = ''Hello from mmap!'' @ NUL # drop 17 (zeros 4096), writable = True, backing = None\<rparr>"])
    (simp_all add: zeros_def NUL_def show_4096, blast)

lemma wp_page_size:
  assumes "\<And>r k tr. view k = view (kst w) \<Longrightarrow> 4096 \<le> r \<Longrightarrow> r < 2 ^ 63 \<Longrightarrow>
      out_text tr = out_text (trace w) \<Longrightarrow> errs tr = errs (trace w) \<Longrightarrow> Q r (w\<lparr>kst := k, trace := tr\<rparr>)"
  shows "wp (sys_sysconf K SC_PAGESIZE) Q w"
  unfolding sys_sysconf_def by (intro wp_sys_text) (auto dest!: sysconf_spec intro: assms)

text \<open>The same rules with the region looked up instead of given.\<close>

lemma wp_strcpy_the:
  assumes "regs (view (kst w)) a \<noteq> None" and "writable (the (regs (view (kst w)) a))"
    and "backing (the (regs (view (kst w)) a)) = None"
    and "length s < length (bytes (the (regs (view (kst w)) a)))"
    and "\<And>k. view k = view_map a ((the (regs (view (kst w)) a))\<lparr>bytes :=
        s @ NUL # drop (Suc (length s)) (bytes (the (regs (view (kst w)) a)))\<rparr>) (view (kst w)) \<Longrightarrow> Q () (w\<lparr>kst := k\<rparr>)"
  shows "wp (strcpy_to K a s) Q w"
  using assms by (intro wp_strcpy_ok [where reg = "the (regs (view (kst w)) a)"]) auto

lemma wp_string_the:
  assumes "regs (view (kst w)) a \<noteq> None" and "n = length (bytes (the (regs (view (kst w)) a)))"
    and "Q (takeWhile (\<lambda>c. c \<noteq> NUL) (bytes (the (regs (view (kst w)) a)))) w"
  shows "wp (load_string K a 0 n) Q w"
  using assms wp_load_string_ok [of w a "the (regs (view (kst w)) a)" 0 n Q] by simp

lemma wp_store_byte_the:
  assumes "regs (view (kst w)) a \<noteq> None" and "writable (the (regs (view (kst w)) a))"
    and "0 \<le> i" and "i < int (length (bytes (the (regs (view (kst w)) a))))"
    and "\<And>k. view k = view_store a i c (view (kst w)) \<Longrightarrow> Q () (w\<lparr>kst := k\<rparr>)"
  shows "wp (store_byte K a i c) Q w"
  using assms by (intro wp_store_byte_ok [where reg = "the (regs (view (kst w)) a)"]) auto

lemma wp_mprotect:
  assumes "\<And>r k tr. r \<noteq> -1 \<longrightarrow> regs (view (kst w)) a \<noteq> None \<and>
        view k = view_map a ((the (regs (view (kst w)) a))\<lparr>writable := False\<rparr>) (view (kst w)) \<Longrightarrow>
      out_text tr = out_text (trace w) \<Longrightarrow> errs tr = errs (trace w) \<Longrightarrow> Q r (w\<lparr>kst := k, trace := tr\<rparr>)"
  shows "wp (sys_mprotect K a n) Q w"
  unfolding sys_mprotect_def by (intro wp_sys_text assms) (auto dest!: mprotect_spec)

lemma demonstrate_mprotect_wp:
  "wp (demonstrate_mprotect K) (\<lambda>_ t. ub t = ub w \<and>
     (errs (trace t) = errs (trace w) \<longrightarrow> (\<exists>n. out_text (trace t) = out_text (trace w) @
       ''\<newline>=== mprotect Demo ===\<newline>Page size: '' @ show_int n @
       '' bytes\<newline>Wrote: Read-Write Memory\<newline>Changing to read-only with mprotect()...\<newline>Read: Read-Write Memory\<newline>'' @
       ''Memory is now read-only\<newline>(Attempting write would cause SIGSEGV)\<newline>''))) w"
  unfolding demonstrate_mprotect_def print_separator_def
  by (intro wp_text wp_intros wp_page_size wp_mmap wp_munmap wp_mprotect wp_strcpy_the wp_string_the)
    (simp_all add: zeros_def NUL_def, blast)

lemma wp_fopen:
  assumes "\<And>r k tr. r \<noteq> 0 \<longrightarrow> streams (view k) r = Some (p, []) \<Longrightarrow> out_text tr = out_text (trace w) \<Longrightarrow> errs tr = errs (trace w) \<Longrightarrow>
      Q r (w\<lparr>kst := k, trace := tr\<rparr>)"
  shows "wp (sys_fopen K p) Q w"
  unfolding sys_fopen_def by (intro wp_sys_text assms) (auto dest!: fopen_spec)

lemma wp_fwrite:
  assumes "streams (view (kst w)) h = Some (p, [])"
    and "\<And>r c k tr. written_part (disk_has_room K view) c \<Longrightarrow> streams (view k) h = Some (p, c) \<Longrightarrow>
      out_text tr = out_text (trace w) \<Longrightarrow> errs tr = errs (trace w) \<Longrightarrow> Q r (w\<lparr>kst := k, trace := tr\<rparr>)"
  shows "wp (sys_fwrite K h mmap_content) Q w"
  unfolding sys_fwrite_def
proof (rule wp_sys_text)
  fix r k and tr :: "mem_event ev list"
  assume w: "k_fwrite K h mmap_content (kst w) = (r, k)" and t: "out_text tr = out_text (trace w)" "errs tr = errs (trace w)"
  from fwrite_spec [OF w assms(1)] obtain m where m: "streams (view k) h = Some (p, take m mmap_content)" by auto
  have "streams (view k) h = Some (p, mmap_content)" if "disk_has_room K view"
    using that w assms(1) unfolding disk_has_room_def by fastforce
  with m have "written_part (disk_has_room K view) (take m mmap_content)"
    by (auto simp: written_part_def part_of_content_def)
  then show "Q r (w\<lparr>kst := k, trace := tr\<rparr>)" using m t by (rule assms(2))
qed

lemma wp_fclose:
  assumes "\<exists>c. streams (view (kst w)) h = Some (p, c) \<and> written_part (disk_has_room K view) c"
    and "\<And>r c k tr. written_part (disk_has_room K view) c \<Longrightarrow> mfiles (view k) p = Some c \<Longrightarrow>
      out_text tr = out_text (trace w) \<Longrightarrow> errs tr = errs (trace w) \<Longrightarrow> Q r (w\<lparr>kst := k, trace := tr\<rparr>)"
  shows "wp (sys_fclose K h) Q w"
  unfolding sys_fclose_def
proof (rule wp_sys_text)
  fix r k and tr :: "mem_event ev list"
  assume w: "k_fclose K h (kst w) = (r, k)" and t: "out_text tr = out_text (trace w)" "errs tr = errs (trace w)"
  obtain c where c: "streams (view (kst w)) h = Some (p, c)" "written_part (disk_has_room K view) c" using assms(1) by blast
  from fclose_spec [OF w c(1)] obtain m where m: "mfiles (view k) p = Some (take m c)" by auto
  have "mfiles (view k) p = Some c" if "disk_has_room K view"
    using that w c(1) unfolding disk_has_room_def by fastforce
  with m c(2) have "written_part (disk_has_room K view) (take m c)"
    by (auto simp: written_part_def part_of_content_def intro: exI)
  then show "Q r (w\<lparr>kst := k, trace := tr\<rparr>)" using m t by (rule assms(2))
qed

lemma wp_open_rdwr:
  assumes "\<And>r k tr. r \<noteq> -1 \<longrightarrow> mfiles (view k) = mfiles (view (kst w)) \<and> fdpath (view k) r = Some p \<Longrightarrow>
      out_text tr = out_text (trace w) \<Longrightarrow> errs tr = errs (trace w) \<Longrightarrow> Q r (w\<lparr>kst := k, trace := tr\<rparr>)"
  shows "wp (sys_open_rdwr K p) Q w"
  unfolding sys_open_rdwr_def by (intro wp_sys_text assms) (auto dest!: open_spec)

lemma wp_fstat:
  assumes "fdpath (view (kst w)) fd = Some p" and "mfiles (view (kst w)) p \<noteq> None"
    and "\<And>r k tr. view k = view (kst w) \<Longrightarrow> r \<noteq> None \<longrightarrow> r = Some (int (length (the (mfiles (view (kst w)) p)))) \<Longrightarrow>
      out_text tr = out_text (trace w) \<Longrightarrow> errs tr = errs (trace w) \<Longrightarrow> Q r (w\<lparr>kst := k, trace := tr\<rparr>)"
  shows "wp (sys_fstat K fd) Q w"
  unfolding sys_fstat_def
  by (intro wp_sys_text assms(3)) (use assms(1,2) in \<open>auto dest!: fstat_spec split: option.splits\<close>)

lemma wp_mmap_file:
  assumes "fdpath (view (kst w)) fd = Some p" and "mfiles (view (kst w)) p \<noteq> None"
    and "\<And>r k tr. r \<noteq> -1 \<longrightarrow>
      view k = view_map r \<lparr>bytes = the (mfiles (view (kst w)) p), writable = True, backing = Some p\<rparr> (view (kst w)) \<Longrightarrow>
      out_text tr = out_text (trace w) \<Longrightarrow> errs tr = errs (trace w) \<Longrightarrow> Q r (w\<lparr>kst := k, trace := tr\<rparr>)"
  shows "wp (sys_mmap_file K fd n) Q w"
  unfolding sys_mmap_file_def
  by (intro wp_sys_text assms(3)) (use assms(1,2) in \<open>auto dest!: mmap_file_spec\<close>)

lemma wp_close_fd:
  assumes "\<And>r k tr. view k = (view (kst w))\<lparr>fdpath := (fdpath (view (kst w)))(fd := None)\<rparr> \<Longrightarrow>
      out_text tr = out_text (trace w) \<Longrightarrow> errs tr = errs (trace w) \<Longrightarrow> Q r (w\<lparr>kst := k, trace := tr\<rparr>)"
  shows "wp (sys_close_fd K fd) Q w"
  unfolding sys_close_fd_def by (intro wp_sys_text) (auto dest!: close_fd_spec intro: assms)

lemma wp_msync:
  assumes "\<And>r k tr. view k = view (kst w) \<Longrightarrow> out_text tr = out_text (trace w) \<Longrightarrow> errs tr = errs (trace w) \<Longrightarrow> Q r (w\<lparr>kst := k, trace := tr\<rparr>)"
  shows "wp (sys_msync K a n) Q w"
  unfolding sys_msync_def by (intro wp_sys_text) (auto dest!: msync_spec intro: assms)

lemma wp_load_prec_the:
  assumes "regs (view (kst w)) a \<noteq> None" and "n = int (length (bytes (the (regs (view (kst w)) a))))"
    and "int_range n" and "Q (takeWhile (\<lambda>c. c \<noteq> NUL) (bytes (the (regs (view (kst w)) a)))) w"
  shows "wp (load_prec K a n) Q w"
  unfolding load_prec_def
  using assms by (intro wp_intros wp_checked wp_string_the) auto

lemma demonstrate_mmap_file_wp:
  "wp (demonstrate_mmap_file K) (\<lambda>_ t. ub t = ub w \<and>
     (errs (trace t) = errs (trace w) \<longrightarrow>
       (\<exists>c a. written_part (disk_has_room K view) c \<and> mfiles (view (kst t)) mmap_filename = Some (edited c) \<and>
         out_text (trace t) = out_text (trace w) @ mmap_file_text c a))) w"
  unfolding demonstrate_mmap_file_def print_separator_def
  by (intro wp_text wp_fopen wp_fwrite [where p = mmap_filename] wp_fclose [where p = mmap_filename]
     wp_open_rdwr wp_fstat [where p = mmap_filename] wp_mmap_file [where p = mmap_filename]
     wp_close_fd wp_load_prec_the wp_store_byte_the wp_msync wp_munmap wp_intros)
    (simp_all add: view_store_def edited_long edited_short part_range part_text mmap_file_text_def, auto, metis edited_short)

end

section \<open>Properties\<close>

text \<open>
  The heap demo on a kernel that keeps its contract: no access faults, and unless \<^verbatim>\<open>sbrk\<close>
  reports an error the break has moved by exactly 4096 bytes and the string stored in the new memory
  is the one read back.
\<close>

theorem demonstrate_brk_sbrk_correct:
  assumes "posix_mem K view" and "t = world_of (demonstrate_brk_sbrk K) w"
  shows "ub t = ub w \<and> (errs (trace t) = errs (trace w) \<longrightarrow> out_text (trace t) = out_text (trace w) @
       ''\<newline>=== brk/sbrk Demo ===\<newline>Current program break: '' @ show_ptr (nat (brk (view (kst w)))) @
       ''\<newline>Allocated 4096 bytes at: '' @ show_ptr (nat (brk (view (kst w)))) @
       ''\<newline>New program break: '' @ show_ptr (nat (brk (view (kst w)) + 4096)) @
       ''\<newline>Difference: 4096 bytes\<newline>Content: Hello from heap!\<newline>'')"
  using posix_mem.demonstrate_brk_sbrk_wp [OF assms(1), of w] unfolding wp_world_of assms(2) .

text \<open>
  C27. The anonymous mapping demo on a kernel that keeps its contract: no access faults, and unless
  an error is reported the string is read back, the loop over the rest of the page finds
  only zero bytes, and the address space is afterwards what it was before.
\<close>

theorem demonstrate_mmap_correct:
  assumes "posix_mem K view" and "t = world_of (demonstrate_mmap K) w"
  shows "ub t = ub w \<and> (errs (trace t) = errs (trace w) \<longrightarrow> view (kst t) = view (kst w) \<and>
       (\<exists>a. out_text (trace t) = out_text (trace w) @
       ''\<newline>=== mmap Anonymous Memory Demo ===\<newline>Allocated 4096 bytes at: '' @ show_ptr (nat a) @
       ''\<newline>Content: Hello from mmap!\<newline>Remaining memory is zero-filled: Yes\<newline>Memory unmapped successfully\<newline>''))"
  using posix_mem.demonstrate_mmap_wp [OF assms(1), of w] unfolding wp_world_of assms(2) .

text \<open>
  C16. The file mapping demo on a kernel that keeps its contract: no access is out of the bounds of the mapping. Unless an
  error is reported the file ends as a prefix of the content with bytes 0 and 5 replaced (if it has more than 5 bytes), and
  the demo prints that prefix and its edited form; when the disk takes all the bytes it is the whole content.
\<close>

theorem demonstrate_mmap_file_correct:
  assumes "posix_mem K view" and "t = world_of (demonstrate_mmap_file K) w"
  shows "ub t = ub w \<and> (errs (trace t) = errs (trace w) \<longrightarrow>
       (\<exists>c a. part_of_content c \<and> (disk_has_room K view \<longrightarrow> c = mmap_content) \<and>
         mfiles (view (kst t)) mmap_filename = Some (edited c) \<and>
         out_text (trace t) = out_text (trace w) @ mmap_file_text c a))"
  using posix_mem.demonstrate_mmap_file_wp [OF assms(1), of w] unfolding wp_world_of assms(2) written_part_def by blast

text \<open>
  The protection demo on a kernel that keeps its contract: no access faults, so nothing is stored
  once the page is read-only, and unless an error is reported the page still reads as it was written.
\<close>

theorem demonstrate_mprotect_correct:
  assumes "posix_mem K view" and "t = world_of (demonstrate_mprotect K) w"
  shows "ub t = ub w \<and> (errs (trace t) = errs (trace w) \<longrightarrow> (\<exists>n. out_text (trace t) = out_text (trace w) @
       ''\<newline>=== mprotect Demo ===\<newline>Page size: '' @ show_int n @
       '' bytes\<newline>Wrote: Read-Write Memory\<newline>Changing to read-only with mprotect()...\<newline>Read: Read-Write Memory\<newline>'' @
       ''Memory is now read-only\<newline>(Attempting write would cause SIGSEGV)\<newline>''))"
  using posix_mem.demonstrate_mprotect_wp [OF assms(1), of w] unfolding wp_world_of assms(2) .

section \<open>Witnesses\<close>

definition fresh_mem :: mem_view where
  "fresh_mem = \<lparr>regs = Map.empty, brk = 0x1000, mfiles = Map.empty, streams = Map.empty, fdpath = Map.empty\<rparr>"

theorem demonstrate_brk_sbrk_witness:
  "posix_mem ref_mem (\<lambda>v. v) \<and> \<not> ub (world_of (demonstrate_brk_sbrk ref_mem) (boot fresh_mem))"
  using demonstrate_brk_sbrk_correct [OF ref_mem_sys.posix_mem_axioms refl, of "boot fresh_mem"]
    ref_mem_sys.posix_mem_axioms
  by (simp add: boot_def)

lemma mmap_run: "errs (trace (world_of (demonstrate_mmap ref_mem) (boot fresh_mem))) = []"
proof -
  have "wp (demonstrate_mmap ref_mem) (\<lambda>_ t. errs (trace t) = []) (boot fresh_mem)"
    unfolding mem_defs mem_calls
    by (intro wp_errs wp_intros access_quiet wp_zero_scan_quiet) (auto simp: boot_def fresh_mem_def map_at_def)
  then show ?thesis by (simp add: wp_world_of)
qed

theorem demonstrate_mmap_witness:
  "posix_mem ref_mem (\<lambda>v. v) \<and> errs (trace (world_of (demonstrate_mmap ref_mem) (boot fresh_mem))) = [] \<and>
   \<not> ub (world_of (demonstrate_mmap ref_mem) (boot fresh_mem)) \<and>
   kst (world_of (demonstrate_mmap ref_mem) (boot fresh_mem)) = fresh_mem"
  using demonstrate_mmap_correct [OF ref_mem_sys.posix_mem_axioms refl, of "boot fresh_mem"]
    ref_mem_sys.posix_mem_axioms mmap_run
  by (simp add: boot_def)

lemma ref_mem_has_room: "disk_has_room ref_mem (\<lambda>v. v)"
  by (auto simp: disk_has_room_def ref_fwrite_def ref_fclose_def split: option.splits)

lemma mmap_file_run: "errs (trace (world_of (demonstrate_mmap_file ref_mem) (boot fresh_mem))) = []"
proof -
  have "wp (demonstrate_mmap_file ref_mem) (\<lambda>_ t. errs (trace t) = []) (boot fresh_mem)"
    unfolding mem_defs mem_calls
    by (intro wp_errs wp_intros access_quiet)
      (auto simp: boot_def fresh_mem_def ref_fwrite_def ref_fclose_def ref_fstat_def ref_mmap_file_def map_at_def)
  then show ?thesis by (simp add: wp_world_of)
qed

theorem demonstrate_mmap_file_witness:
  "posix_mem ref_mem (\<lambda>v. v) \<and> disk_has_room ref_mem (\<lambda>v. v) \<and>
   errs (trace (world_of (demonstrate_mmap_file ref_mem) (boot fresh_mem))) = [] \<and>
   mfiles (kst (world_of (demonstrate_mmap_file ref_mem) (boot fresh_mem))) mmap_filename =
     Some ''this Is mapped file content!\<newline>Line 2 here.\<newline>''"
  using demonstrate_mmap_file_correct [OF ref_mem_sys.posix_mem_axioms refl, of "boot fresh_mem"] ref_mem_has_room
    ref_mem_sys.posix_mem_axioms mmap_file_run
  by (auto simp: boot_def edited_def mmap_content_def)

theorem demonstrate_mprotect_witness:
  "posix_mem ref_mem (\<lambda>v. v) \<and> \<not> ub (world_of (demonstrate_mprotect ref_mem) (boot fresh_mem))"
  using demonstrate_mprotect_correct [OF ref_mem_sys.posix_mem_axioms refl, of "boot fresh_mem"]
    ref_mem_sys.posix_mem_axioms
  by (simp add: boot_def)

end
