(* ===== verification/Resource_Limits.thy ===== *)
theory Resource_Limits
  imports Posix "HOL-Library.Word"
begin

text \<open>
  \<^verbatim>\<open>src/examples/resource_limits.c\<close>, function by function, on any kernel. Limits are unsigned 64-bit
  words (\<^verbatim>\<open>rlim_t\<close>); the sums of the two work loops are kept in the range of \<^verbatim>\<open>long\<close>, a value out of
  it being undefined behaviour. The locale \<open>posix_limits\<close> states the documented behaviour of the calls
  over a view of the limits, the nice value and the privilege of the process.

  Shown: the work loops do not overflow (\<open>resource_no_ub\<close>); the descriptor limit
  is raised to the hard limit and nothing else changes (\<open>demonstrate_modify_limits_correct\<close>); the nice
  value goes up by 5, at most to 19, also when it becomes -1 (\<open>demonstrate_priority_correct\<close>);
  the CPU limit is \<^emph>\<open>not\<close> reset for an unprivileged process (\<open>demonstrate_cpu_limit_sticks\<close>).
\<close>

section \<open>The kernel as a parameter\<close>

datatype resource = RLIMIT_CPU | RLIMIT_FSIZE | RLIMIT_DATA | RLIMIT_STACK | RLIMIT_CORE | RLIMIT_NOFILE
  | RLIMIT_AS | RLIMIT_NPROC | RLIMIT_MEMLOCK

record rlimit =
  rlim_cur :: "64 word"
  rlim_max :: "64 word"

definition RLIM_INFINITY :: "64 word" where
  "RLIM_INFINITY = - 1"

record timeval =
  tv_sec :: int
  tv_usec :: int

record rusage =
  ru_utime :: timeval
  ru_stime :: timeval
  ru_maxrss :: int
  ru_minflt :: int
  ru_majflt :: int
  ru_inblock :: int
  ru_oublock :: int
  ru_nvcsw :: int
  ru_nivcsw :: int

text \<open>\<^verbatim>\<open>getpriority\<close> and \<^verbatim>\<open>nice\<close> give their result and \<^verbatim>\<open>errno\<close>, which the program sets to 0 before.\<close>

record 'k rl_kernel =
  k_getrlimit :: "resource \<Rightarrow> 'k \<Rightarrow> rlimit option \<times> 'k"
  k_setrlimit :: "resource \<Rightarrow> rlimit \<Rightarrow> 'k \<Rightarrow> int \<times> 'k"
  k_getrusage :: "'k \<Rightarrow> rusage option \<times> 'k"
  k_getpriority :: "'k \<Rightarrow> (int \<times> int) \<times> 'k"
  k_nice :: "int \<Rightarrow> 'k \<Rightarrow> (int \<times> int) \<times> 'k"

datatype rl_event =
    EGetrlimit resource "rlimit option"
  | ESetrlimit resource rlimit int
  | EGetrusage "rusage option"
  | EGetpriority "int \<times> int"
  | ENice int "int \<times> int"

type_synonym ('k, 'a) rprog = "((rl_event, 'k) world, 'a) state"

definition sys_getrlimit where "sys_getrlimit K res = sys (k_getrlimit K res) (EGetrlimit res)"
definition sys_setrlimit where "sys_setrlimit K res l = sys (k_setrlimit K res l) (ESetrlimit res l)"
definition sys_getrusage where "sys_getrusage K = sys (k_getrusage K) EGetrusage"
definition sys_getpriority where "sys_getpriority K = sys (k_getpriority K) EGetpriority"
definition sys_nice where "sys_nice K n = sys (k_nice K n) (ENice n)"

lemmas rl_calls = sys_getrlimit_def sys_setrlimit_def sys_getrusage_def sys_getpriority_def sys_nice_def

section \<open>Printing limits\<close>

definition show_lu :: "64 word \<Rightarrow> string" where
  "show_lu x = show_nat (unat x)"

definition soft_text :: "64 word \<Rightarrow> string" where
  "soft_text c = (if c = RLIM_INFINITY then ''Soft: unlimited       '' else ''Soft: '' @ pad_right 15 (show_lu c) @ '' '')"

definition hard_text :: "64 word \<Rightarrow> string" where
  "hard_text m = (if m = RLIM_INFINITY then ''Hard: unlimited\<newline>'' else ''Hard: '' @ pad_right 15 (show_lu m) @ ''\<newline>'')"

definition print_limit :: "'k rl_kernel \<Rightarrow> string \<Rightarrow> resource \<Rightarrow> ('k, unit) rprog" where
  "print_limit K name res = do {
     r \<leftarrow> sys_getrlimit K res;
     case r of
       None \<Rightarrow> perror ''getrlimit''
     | Some limit \<Rightarrow> do {
         printf (pad_right 25 name @ '' '');
         printf (soft_text (rlim_cur limit));
         printf (hard_text (rlim_max limit))
       }
   }"

definition demonstrate_limits :: "'k rl_kernel \<Rightarrow> ('k, unit) rprog" where
  "demonstrate_limits K = do {
     printf ''\<newline>=== Current Resource Limits ===\<newline>\<newline>'';
     print_limit K ''CPU time (seconds)'' RLIMIT_CPU;
     print_limit K ''File size (bytes)'' RLIMIT_FSIZE;
     print_limit K ''Data segment (bytes)'' RLIMIT_DATA;
     print_limit K ''Stack size (bytes)'' RLIMIT_STACK;
     print_limit K ''Core file (bytes)'' RLIMIT_CORE;
     print_limit K ''Open files'' RLIMIT_NOFILE;
     print_limit K ''Address space (bytes)'' RLIMIT_AS;
     print_limit K ''Max processes'' RLIMIT_NPROC;
     print_limit K ''Locked memory (bytes)'' RLIMIT_MEMLOCK
   }"

section \<open>Changing a limit\<close>

definition demonstrate_modify_limits :: "'k rl_kernel \<Rightarrow> ('k, unit) rprog" where
  "demonstrate_modify_limits K = do {
     printf ''\<newline>=== Modifying File Descriptor Limit ===\<newline>\<newline>'';
     r \<leftarrow> sys_getrlimit K RLIMIT_NOFILE;
     case r of
       None \<Rightarrow> perror ''getrlimit''
     | Some limit \<Rightarrow> do {
         printf ''Original limits:\<newline>'';
         printf (''  Soft: '' @ show_lu (rlim_cur limit) @ ''\<newline>'');
         printf (''  Hard: '' @ show_lu (rlim_max limit) @ ''\<newline>'');
         let limit = limit\<lparr>rlim_cur := rlim_max limit\<rparr>;
         printf (''\<newline>Attempting to set soft limit to '' @ show_lu (rlim_cur limit) @ ''...\<newline>'');
         s \<leftarrow> sys_setrlimit K RLIMIT_NOFILE limit;
         (if s = -1 then do {
            perror ''setrlimit'';
            printf ''Failed to increase limit\<newline>''
          } else printf ''Successfully increased soft limit!\<newline>'');
         r \<leftarrow> sys_getrlimit K RLIMIT_NOFILE;
         case r of
           None \<Rightarrow> perror ''getrlimit''
         | Some limit \<Rightarrow> do {
             printf ''\<newline>New limits:\<newline>'';
             printf (''  Soft: '' @ show_lu (rlim_cur limit) @ ''\<newline>'');
             printf (''  Hard: '' @ show_lu (rlim_max limit) @ ''\<newline>'')
           }
       }
   }"

section \<open>The work loops\<close>

text \<open>\<^verbatim>\<open>for (long i = ...; n more iterations; i++) sum += i;\<close>\<close>

primrec work_loop :: "nat \<Rightarrow> int \<Rightarrow> int \<Rightarrow> ('k, int) rprog" where
  "work_loop 0 i sum_i = return sum_i"
| "work_loop (Suc n) i sum_i = do {
     sum_i \<leftarrow> checked 0 (if long_range (sum_i + i) then Some (sum_i + i) else None);
     work_loop n (i + 1) sum_i
   }"

definition print_time :: "string \<Rightarrow> timeval \<Rightarrow> ('k, unit) rprog" where
  "print_time label tv = printf (label @ show_int (tv_sec tv) @ ''.'' @ zero_pad 6 (tv_usec tv) @ '' seconds\<newline>'')"

definition demonstrate_rusage :: "'k rl_kernel \<Rightarrow> ('k, unit) rprog" where
  "demonstrate_rusage K = do {
     printf ''\<newline>=== Resource Usage (getrusage) ===\<newline>\<newline>'';
     printf ''Performing CPU-intensive work...\<newline>'';
     sum_i \<leftarrow> work_loop 50000000 0 0;
     r \<leftarrow> sys_getrusage K;
     case r of
       None \<Rightarrow> perror ''getrusage''
     | Some usage \<Rightarrow> do {
         printf ''\<newline>Resource usage:\<newline>'';
         print_time ''  User CPU time:        '' (ru_utime usage);
         print_time ''  System CPU time:      '' (ru_stime usage);
         printf (''  Max RSS:              '' @ show_int (ru_maxrss usage) @ '' KB\<newline>'');
         printf (''  Page faults (soft):   '' @ show_int (ru_minflt usage) @ ''\<newline>'');
         printf (''  Page faults (hard):   '' @ show_int (ru_majflt usage) @ ''\<newline>'');
         printf (''  Block inputs:         '' @ show_int (ru_inblock usage) @ ''\<newline>'');
         printf (''  Block outputs:        '' @ show_int (ru_oublock usage) @ ''\<newline>'');
         printf (''  Voluntary switches:   '' @ show_int (ru_nvcsw usage) @ ''\<newline>'');
         printf (''  Involuntary switches: '' @ show_int (ru_nivcsw usage) @ ''\<newline>'')
       }
   }"

definition demonstrate_cpu_limit :: "'k rl_kernel \<Rightarrow> ('k, unit) rprog" where
  "demonstrate_cpu_limit K = do {
     printf ''\<newline>=== CPU Time Limit Demo ===\<newline>\<newline>'';
     let limit = \<lparr>rlim_cur = 2, rlim_max = 2\<rparr>;
     printf ''Setting CPU time limit to 2 seconds...\<newline>'';
     printf ''Process will be killed with SIGXCPU if exceeded\<newline>'';
     printf ''(This demo won't actually exceed it)\<newline>\<newline>'';
     r \<leftarrow> sys_setrlimit K RLIMIT_CPU limit;
     if r = -1 then perror ''setrlimit''
     else do {
       printf ''Doing some work...\<newline>'';
       sum_i \<leftarrow> work_loop 10000000 0 0;
       printf ''Work completed without hitting CPU limit\<newline>'';
       sys_setrlimit K RLIMIT_CPU \<lparr>rlim_cur = RLIM_INFINITY, rlim_max = RLIM_INFINITY\<rparr>;
       skip
     }
   }"

section \<open>Priority\<close>

definition demonstrate_priority :: "'k rl_kernel \<Rightarrow> ('k, unit) rprog" where
  "demonstrate_priority K = do {
     printf ''\<newline>=== Process Priority (nice values) ===\<newline>\<newline>'';
     (priority, errno) \<leftarrow> sys_getpriority K;
     if errno \<noteq> 0 then perror ''getpriority''
     else do {
       printf (''Current nice value: '' @ show_int priority @ ''\<newline>'');
       printf ''  (Lower values = higher priority)\<newline>'';
       printf ''  Range: -20 (highest) to +19 (lowest)\<newline>\<newline>'';
       printf ''Increasing nice value by 5 (lowering priority)...\<newline>'';
       (new_nice, errno) \<leftarrow> sys_nice K 5;
       if new_nice = -1 \<and> errno \<noteq> 0 then perror ''nice''
       else do {
         (priority, errno) \<leftarrow> sys_getpriority K;
         printf (''New nice value: '' @ show_int priority @ ''\<newline>'');
         printf ''\<newline>Note: To decrease nice value (increase priority),\<newline>'';
         printf ''      you need root privileges or CAP_SYS_NICE capability\<newline>''
       }
     }
   }"

definition resource_main :: "'k rl_kernel \<Rightarrow> ('k, int) rprog" where
  "resource_main K = do {
     printf ''=== Resource Management System Calls Demo ===\<newline>'';
     demonstrate_limits K;
     demonstrate_modify_limits K;
     demonstrate_rusage K;
     demonstrate_cpu_limit K;
     demonstrate_priority K;
     printf ''\<newline>=== Demo Complete ===\<newline>'';
     return 0
   }"

section \<open>The sums\<close>

text \<open>As long as the closed form fits a \<^verbatim>\<open>long\<close>, so do all the partial sums.\<close>

lemma work_loop_wp:
  assumes "0 \<le> i" and "0 \<le> sum_i" and "2 * sum_i + int n * (2 * i + int n - 1) < 2 ^ 64"
    and "\<And>s. 2 * s = 2 * sum_i + int n * (2 * i + int n - 1) \<Longrightarrow> Q s w"
  shows "wp (work_loop n i sum_i) Q w"
  using assms
proof (induction n arbitrary: i sum_i)
  case 0
  then show ?case by (auto intro: wp_return)
next
  case (Suc n)
  have eq: "2 * (sum_i + i) + int n * (2 * (i + 1) + int n - 1) = 2 * sum_i + int (Suc n) * (2 * i + int (Suc n) - 1)"
    by (simp add: algebra_simps)
  have "0 \<le> int n * (2 * (i + 1) + int n - 1)" using Suc.prems(1) by simp
  with eq Suc.prems(3) have "2 * (sum_i + i) < 2 ^ 64" by linarith
  with Suc.prems(1,2) have "long_range (sum_i + i)" by (simp add: long_range_def)
  moreover have "wp (work_loop n (i + 1) (sum_i + i)) Q w"
  proof (rule Suc.IH)
    show "Q s w" if "2 * s = 2 * (sum_i + i) + int n * (2 * (i + 1) + int n - 1)" for s
      using that Suc.prems(4) eq by metis
  qed (use Suc.prems eq in linarith)+
  ultimately show ?case by (auto intro: wp_bind wp_checked)
qed

text \<open>The loop over \<open>n\<close> numbers from 0, for the two bounds of the program.\<close>

lemma work_loop_total:
  assumes "n \<le> 50000000" and "\<And>s. 2 * s = int n * (int n - 1) \<Longrightarrow> Q s w"
  shows "wp (work_loop n 0 0) Q w"
proof (rule work_loop_wp)
  have "int n * (int n - 1) \<le> int n * int n" by (simp add: algebra_simps)
  also have "\<dots> \<le> 50000000 * 50000000" using assms(1) by (intro mult_mono) auto
  finally show "2 * 0 + int n * (2 * 0 + int n - 1) < 2 ^ 64" by simp
qed (use assms(2) in auto)

lemma work_loop_short: "run_state (work_loop 10000000 0 0) w = (49999995000000, w)"
proof -
  have "wp (work_loop 10000000 0 0) (\<lambda>s t. s = 49999995000000 \<and> t = w) w"
    by (intro work_loop_total) simp_all
  then show ?thesis by (simp add: wp_def result_of_def world_of_def prod_eq_iff)
qed

lemma wp_work_quiet: "n \<le> 50000000 \<Longrightarrow> (\<And>s. Q s w) \<Longrightarrow> wp (work_loop n 0 0) Q w"
  by (rule work_loop_total)

definition keeps_defined :: "('k, 'a) rprog \<Rightarrow> bool" where
  "keeps_defined m \<longleftrightarrow> (\<forall>w. wp m (\<lambda>_ t. ub t = ub w) w)"

lemma keeps_definedI: "(\<And>w. wp m (\<lambda>_ t. ub t = ub w) w) \<Longrightarrow> keeps_defined m"
  by (simp add: keeps_defined_def)

lemma wp_keeps_defined: "keeps_defined m \<Longrightarrow> (\<And>a t. ub t = ub w \<Longrightarrow> Q a t) \<Longrightarrow> wp m Q w"
  unfolding keeps_defined_def by (blast intro: wp_mono)

lemma print_limit_defined: "keeps_defined (print_limit K name res)"
  by (rule keeps_definedI, unfold print_limit_def rl_calls) (intro wp_quiet wp_intros; simp)

lemma demonstrate_limits_defined: "keeps_defined (demonstrate_limits K)"
  by (rule keeps_definedI, unfold demonstrate_limits_def)
    (intro wp_quiet wp_keeps_defined [OF print_limit_defined] wp_intros; simp)

lemma demos_defined:
  "keeps_defined (demonstrate_modify_limits K)"
  "keeps_defined (demonstrate_rusage K)"
  "keeps_defined (demonstrate_cpu_limit K)"
  "keeps_defined (demonstrate_priority K)"
  by (rule keeps_definedI, unfold demonstrate_modify_limits_def demonstrate_rusage_def
      demonstrate_cpu_limit_def demonstrate_priority_def print_time_def rl_calls,
    intro wp_quiet wp_work_quiet wp_intros; simp)+

text \<open>On no kernel does the program run into undefined behaviour: no sum overflows.\<close>

theorem resource_no_ub: "\<not> ub (world_of (resource_main K) (boot k))"
proof -
  have "wp (resource_main K) (\<lambda>_ t. \<not> ub t) (boot k)"
    unfolding resource_main_def
    by (intro wp_quiet wp_intros wp_keeps_defined [OF demonstrate_limits_defined]
      demos_defined [THEN wp_keeps_defined]) (simp_all add: boot_def)
  then show ?thesis by (simp add: wp_world_of)
qed

section \<open>The contract\<close>

record limits_view =
  lims :: "resource \<Rightarrow> rlimit"
  nice_value :: int
  privileged :: bool

lemma infinity_above: "\<not> RLIM_INFINITY \<le> 2"
  by (simp add: RLIM_INFINITY_def word_le_def unsigned_minus_1_eq_mask mask_eq_exp_minus_1)

text \<open>
  A soft limit may not exceed its hard limit, and only a privileged process may raise a hard limit;
  a request within these rules may still be refused. Raising the nice value is always allowed and
  stops at 19.
\<close>

definition may_set :: "limits_view \<Rightarrow> resource \<Rightarrow> rlimit \<Rightarrow> bool" where
  "may_set v res l \<longleftrightarrow> rlim_cur l \<le> rlim_max l \<and> (privileged v \<or> rlim_max l \<le> rlim_max (lims v res))"

locale posix_limits =
  fixes K :: "'k rl_kernel" and view :: "'k \<Rightarrow> limits_view"
  assumes getrlimit_spec: "k_getrlimit K res k = (l, k') \<Longrightarrow>
      view k' = view k \<and> (l = None \<or> l = Some (lims (view k) res))"
    and setrlimit_spec: "k_setrlimit K res lim k = (r, k') \<Longrightarrow>
      r = -1 \<and> view k' = view k \<or>
      r = 0 \<and> may_set (view k) res lim \<and> view k' = (view k)\<lparr>lims := (lims (view k))(res := lim)\<rparr>"
    and getrusage_spec: "k_getrusage K k = (u, k') \<Longrightarrow> view k' = view k"
    and getpriority_spec: "k_getpriority K k = (p, k') \<Longrightarrow>
      view k' = view k \<and> (p = (nice_value (view k), 0) \<or> fst p = -1 \<and> snd p \<noteq> 0)"
    and nice_spec: "0 \<le> n \<Longrightarrow> k_nice K n k = (q, k') \<Longrightarrow>
      q = (min 19 (nice_value (view k) + n), 0) \<and> view k' = (view k)\<lparr>nice_value := min 19 (nice_value (view k) + n)\<rparr>"
begin

lemma wp_getrlimit:
  assumes "\<And>r k tr. view k = view (kst w) \<Longrightarrow> r \<noteq> None \<longrightarrow> r = Some (lims (view (kst w)) res) \<Longrightarrow>
    out_text tr = out_text (trace w) \<Longrightarrow> errs tr = errs (trace w) \<Longrightarrow> Q r (w\<lparr>kst := k, trace := tr\<rparr>)"
  shows "wp (sys_getrlimit K res) Q w"
  unfolding sys_getrlimit_def by (intro wp_sys_text assms) (auto dest!: getrlimit_spec)

lemma wp_setrlimit:
  assumes "\<And>r k tr. view k = (if r = -1 then view (kst w) else (view (kst w))\<lparr>lims := (lims (view (kst w)))(res := l)\<rparr>) \<Longrightarrow>
    r \<noteq> -1 \<longrightarrow> may_set (view (kst w)) res l \<Longrightarrow>
    out_text tr = out_text (trace w) \<Longrightarrow> errs tr = errs (trace w) \<Longrightarrow> Q r (w\<lparr>kst := k, trace := tr\<rparr>)"
  shows "wp (sys_setrlimit K res l) Q w"
  unfolding sys_setrlimit_def by (intro wp_sys_text assms) (auto dest!: setrlimit_spec)

lemma wp_getpriority:
  assumes "\<And>r k tr. view k = view (kst w) \<Longrightarrow> snd r = 0 \<longrightarrow> fst r = nice_value (view (kst w)) \<Longrightarrow>
    out_text tr = out_text (trace w) \<Longrightarrow> errs tr = errs (trace w) \<Longrightarrow> Q r (w\<lparr>kst := k, trace := tr\<rparr>)"
  shows "wp (sys_getpriority K) Q w"
  unfolding sys_getpriority_def by (intro wp_sys_text assms) (auto dest!: getpriority_spec)

lemma wp_nice:
  assumes "0 \<le> n"
    and "\<And>k tr. view k = (view (kst w))\<lparr>nice_value := min 19 (nice_value (view (kst w)) + n)\<rparr> \<Longrightarrow>
    out_text tr = out_text (trace w) \<Longrightarrow> errs tr = errs (trace w) \<Longrightarrow>
      Q (min 19 (nice_value (view (kst w)) + n), 0) (w\<lparr>kst := k, trace := tr\<rparr>)"
  shows "wp (sys_nice K n) Q w"
  unfolding sys_nice_def by (intro wp_sys_text) (auto dest!: nice_spec [OF assms(1)] intro: assms(2))

lemma demonstrate_modify_limits_wp:
  "wp (demonstrate_modify_limits K) (\<lambda>_ t.
     \<exists>cur. view (kst t) = (view (kst w))\<lparr>lims := (lims (view (kst w)))(RLIMIT_NOFILE :=
         (lims (view (kst w)) RLIMIT_NOFILE)\<lparr>rlim_cur := cur\<rparr>)\<rparr> \<and>
       (errs (trace t) = errs (trace w) \<longrightarrow> cur = rlim_max (lims (view (kst w)) RLIMIT_NOFILE))) w"
proof -
  have same: "\<exists>cur. v = v\<lparr>lims := (lims v)(res := (lims v res)\<lparr>rlim_cur := cur\<rparr>)\<rparr>" for v res
    by (intro exI [of _ "rlim_cur (lims v res)"]) simp
  show ?thesis
    unfolding demonstrate_modify_limits_def
    by (intro wp_errs wp_intros wp_getrlimit wp_setrlimit) (simp_all add: same, blast+)
qed

lemma demonstrate_cpu_limit_wp:
  assumes "\<not> privileged (view (kst w))"
  shows "wp (demonstrate_cpu_limit K) (\<lambda>_ t. errs (trace t) = errs (trace w) \<longrightarrow>
     lims (view (kst t)) RLIMIT_CPU = \<lparr>rlim_cur = 2, rlim_max = 2\<rparr>) w"
  unfolding demonstrate_cpu_limit_def
  by (intro wp_errs wp_intros wp_work_quiet wp_setrlimit)
    (use assms infinity_above in \<open>auto simp: may_set_def\<close>)

lemma demonstrate_priority_wp:
  "wp (demonstrate_priority K) (\<lambda>_ t. (errs (trace t) = errs (trace w) \<longrightarrow>
     view (kst t) = (view (kst w))\<lparr>nice_value := min 19 (nice_value (view (kst w)) + 5)\<rparr>)
     \<and> ''nice'' \<notin> set (drop (length (errs (trace w))) (errs (trace t)))) w"
  unfolding demonstrate_priority_def
  by (intro wp_errs wp_intros wp_getpriority wp_nice) simp_all

end

section \<open>A kernel that keeps the contract\<close>

definition ref_limits :: "limits_view rl_kernel" where
  "ref_limits = \<lparr>
     k_getrlimit = (\<lambda>res v. (Some (lims v res), v)),
     k_setrlimit = (\<lambda>res l v. if may_set v res l then (0, v\<lparr>lims := (lims v)(res := l)\<rparr>) else (-1, v)),
     k_getrusage = (\<lambda>v. (None, v)),
     k_getpriority = (\<lambda>v. ((nice_value v, 0), v)),
     k_nice = (\<lambda>n v. ((min 19 (nice_value v + n), 0), v\<lparr>nice_value := min 19 (nice_value v + n)\<rparr>))\<rparr>"

interpretation ref_limits_sys: posix_limits ref_limits "\<lambda>v. v"
  by unfold_locales (auto simp: ref_limits_def split: if_splits)

definition user_limits :: limits_view where
  "user_limits = \<lparr>lims = (\<lambda>_. \<lparr>rlim_cur = 1024, rlim_max = 4096\<rparr>), nice_value = -6, privileged = False\<rparr>"

section \<open>Properties\<close>

text \<open>
  On a kernel that keeps its contract, the demo of descriptor limits changes no other limit and
  no hard limit, and unless an error is reported the soft limit is afterwards the hard limit.
\<close>

theorem demonstrate_modify_limits_correct:
  assumes "posix_limits K view" and "t = world_of (demonstrate_modify_limits K) w" and "v = view (kst w)"
  shows "\<exists>cur. view (kst t) = v\<lparr>lims := (lims v)(RLIMIT_NOFILE :=
         (lims v RLIMIT_NOFILE)\<lparr>rlim_cur := cur\<rparr>)\<rparr> \<and>
       (errs (trace t) = errs (trace w) \<longrightarrow> cur = rlim_max (lims v RLIMIT_NOFILE))"
  using posix_limits.demonstrate_modify_limits_wp [OF assms(1), of w] unfolding wp_world_of assms(2,3) .

theorem demonstrate_modify_limits_witness:
  "posix_limits ref_limits (\<lambda>v. v) \<and>
   (\<exists>cur. kst (world_of (demonstrate_modify_limits ref_limits) (boot user_limits)) =
      user_limits\<lparr>lims := (lims user_limits)(RLIMIT_NOFILE := (lims user_limits RLIMIT_NOFILE)\<lparr>rlim_cur := cur\<rparr>)\<rparr>)"
  using demonstrate_modify_limits_correct [OF ref_limits_sys.posix_limits_axioms refl refl, of "boot user_limits"]
    ref_limits_sys.posix_limits_axioms
  by (auto simp: boot_def user_limits_def)

text \<open>
  C39. For an unprivileged process the reset at the end of the CPU limit demo does not work: if
  the limit of 2 seconds was accepted, it is still in force, soft and hard, when the demo returns,
  because the hard limit it lowered cannot be raised again; the failure is not even reported.
\<close>

theorem demonstrate_cpu_limit_sticks:
  assumes "posix_limits K view" and "\<not> privileged (view (kst w))" and "t = world_of (demonstrate_cpu_limit K) w"
  shows "errs (trace t) = errs (trace w) \<longrightarrow> lims (view (kst t)) RLIMIT_CPU = \<lparr>rlim_cur = 2, rlim_max = 2\<rparr>"
  using posix_limits.demonstrate_cpu_limit_wp [OF assms(1,2)] unfolding wp_world_of assms(3) .

theorem demonstrate_cpu_limit_sticks_witness:
  "posix_limits ref_limits (\<lambda>v. v) \<and> \<not> privileged user_limits \<and>
   errs (trace (world_of (demonstrate_cpu_limit ref_limits) (boot user_limits))) = [] \<and>
   lims (kst (world_of (demonstrate_cpu_limit ref_limits) (boot user_limits))) RLIMIT_CPU = \<lparr>rlim_cur = 2, rlim_max = 2\<rparr>"
proof -
  have ok: "may_set user_limits RLIMIT_CPU \<lparr>rlim_cur = 2, rlim_max = 2\<rparr>"
    by (simp add: may_set_def user_limits_def)
  have e: "errs (trace (world_of (demonstrate_cpu_limit ref_limits) (boot user_limits))) = []"
    by (simp add: world_of_def demonstrate_cpu_limit_def rl_calls run_simps work_loop_short boot_def ref_limits_def ok Let_def)
  show ?thesis
    using demonstrate_cpu_limit_sticks [OF ref_limits_sys.posix_limits_axioms _ refl, of "boot user_limits"] e
      ref_limits_sys.posix_limits_axioms
    by (simp add: boot_def user_limits_def)
qed

text \<open>
  On a kernel that keeps its contract, the priority demo raises the nice value by 5, at most to
  19, unless \<^verbatim>\<open>getpriority\<close> fails; and it never reports an error of \<^verbatim>\<open>nice\<close>, also when the new value
  is -1, which \<^verbatim>\<open>nice\<close> returns for an error too.
\<close>

theorem demonstrate_priority_correct:
  assumes "posix_limits K view" and "t = world_of (demonstrate_priority K) w"
  shows "(errs (trace t) = errs (trace w) \<longrightarrow>
      view (kst t) = (view (kst w))\<lparr>nice_value := min 19 (nice_value (view (kst w)) + 5)\<rparr>) \<and>
    ''nice'' \<notin> set (drop (length (errs (trace w))) (errs (trace t)))"
  using posix_limits.demonstrate_priority_wp [OF assms(1), of w] unfolding wp_world_of assms(2) .

theorem demonstrate_priority_witness:
  "posix_limits ref_limits (\<lambda>v. v) \<and>
   errs (trace (world_of (demonstrate_priority ref_limits) (boot user_limits))) = [] \<and>
   nice_value (kst (world_of (demonstrate_priority ref_limits) (boot user_limits))) = -1"
proof -
  have e: "errs (trace (world_of (demonstrate_priority ref_limits) (boot user_limits))) = []"
    by (simp add: world_of_def demonstrate_priority_def rl_calls run_simps boot_def ref_limits_def user_limits_def)
  show ?thesis
    using demonstrate_priority_correct [OF ref_limits_sys.posix_limits_axioms refl, of "boot user_limits"] e
      ref_limits_sys.posix_limits_axioms
    by (simp add: boot_def user_limits_def)
qed

end
