(* ===== verification/Pipe_Kernel.thy ===== *)
theory Pipe_Kernel
  imports C_Library
begin

text \<open>
  Pipes as the kernel keeps them: the bytes in flight, and the processes that hold the read end and
  the write end. The pipe is created by \<^verbatim>\<open>pipe\<close>, its ends are inherited by \<^verbatim>\<open>fork\<close> and given back
  by \<^verbatim>\<open>close\<close> and by the end of a process. \<^verbatim>\<open>read\<close> blocks on an empty pipe while somebody holds
  the write end and gives end of file when nobody does; \<^verbatim>\<open>write\<close> kills the writer with
  \<^verbatim>\<open>SIGPIPE\<close> when nobody holds the read end and blocks while there is not room for all its bytes
  (the programs write less than \<^verbatim>\<open>PIPE_BUF\<close> bytes, which is atomic).
\<close>

record 'p pipe =
  p_buf :: string
  p_rd :: "'p set"
  p_wr :: "'p set"

definition pipe_capacity :: nat where
  "pipe_capacity = 65536"

definition no_pipe :: "'p pipe" where
  "no_pipe = \<lparr>p_buf = [], p_rd = {}, p_wr = {}\<rparr>"

definition pipe_create :: "'p \<Rightarrow> 'p pipe" where
  "pipe_create p = \<lparr>p_buf = [], p_rd = {p}, p_wr = {p}\<rparr>"

definition pipe_fork :: "'p \<Rightarrow> 'p \<Rightarrow> 'p pipe \<Rightarrow> 'p pipe" where
  "pipe_fork p c q =
     q\<lparr>p_rd := (if p \<in> p_rd q then insert c (p_rd q) else p_rd q),
       p_wr := (if p \<in> p_wr q then insert c (p_wr q) else p_wr q)\<rparr>"

definition close_rd :: "'p \<Rightarrow> 'p pipe \<Rightarrow> 'p pipe" where
  "close_rd p q = q\<lparr>p_rd := p_rd q - {p}\<rparr>"

definition close_wr :: "'p \<Rightarrow> 'p pipe \<Rightarrow> 'p pipe" where
  "close_wr p q = q\<lparr>p_wr := p_wr q - {p}\<rparr>"

text \<open>The end of a process closes what it has open.\<close>

definition pipe_exit :: "'p \<Rightarrow> 'p pipe \<Rightarrow> 'p pipe" where
  "pipe_exit p q = close_rd p (close_wr p q)"

text \<open>The outcomes of a call on a pipe: it blocks, it fails (\<^verbatim>\<open>EBADF\<close>), it kills, or it returns.\<close>

datatype 'a io = Blocks | Fails | Sigpipe | Returns 'a

definition pipe_write :: "'p \<Rightarrow> string \<Rightarrow> 'p pipe \<Rightarrow> 'p pipe io" where
  "pipe_write p s q =
     (if p \<notin> p_wr q then Fails
      else if p_rd q = {} then Sigpipe
      else if pipe_capacity < length (p_buf q) + length s then Blocks
      else Returns (q\<lparr>p_buf := p_buf q @ s\<rparr>))"

definition pipe_read :: "'p \<Rightarrow> nat \<Rightarrow> 'p pipe \<Rightarrow> (string \<times> 'p pipe) io" where
  "pipe_read p n q =
     (if p \<notin> p_rd q then Fails
      else if p_buf q = [] then (if p_wr q = {} then Returns ([], q) else Blocks)
      else Returns (take n (p_buf q), q\<lparr>p_buf := drop n (p_buf q)\<rparr>))"

lemmas pipe_defs = no_pipe_def pipe_create_def pipe_fork_def close_rd_def close_wr_def pipe_exit_def
  pipe_write_def pipe_read_def

text \<open>A pipe is a queue of bytes: nothing is lost, duplicated or reordered.\<close>

lemma pipe_write_fifo: "pipe_write p s q = Returns q' \<Longrightarrow> p_buf q' = p_buf q @ s"
  by (auto simp: pipe_write_def split: if_splits)

lemma pipe_read_fifo: "pipe_read p n q = Returns (d, q') \<Longrightarrow> d @ p_buf q' = p_buf q"
  by (auto simp: pipe_read_def split: if_splits)

lemma pipe_read_length: "pipe_read p n q = Returns (d, q') \<Longrightarrow> length d \<le> n"
  by (auto simp: pipe_read_def split: if_splits)

lemma pipe_read_eof:
  "pipe_read p n q = Returns ([], q') \<Longrightarrow> 0 < n \<Longrightarrow> p_buf q = [] \<and> p_wr q = {} \<and> q' = q"
  by (auto simp: pipe_read_def split: if_splits)

end
