(* ===== verification/Pipe_Simple.thy ===== *)
theory Pipe_Simple
  imports Pipe_Kernel
begin

text \<open>
  \<^verbatim>\<open>simple_pipe_demo\<close> of \<^verbatim>\<open>src/examples/pipe_demo.c\<close>: a parent that writes a message into a pipe and
  a child that reads it. One step is one statement of one process; the results of \<^verbatim>\<open>pipe\<close> and
  \<^verbatim>\<open>fork\<close> are chosen by the environment. Each process has its own list of printed lines.

  The key lemmas say that once the child runs the whole state is a function of the two program points
  (\<open>simple_at\<close>); everything else is read off it.
\<close>

section \<open>The program\<close>

datatype proc = Parent | Child

text \<open>The statements of the parent (lines 15 to 34 and 53 to 62) and of the child (lines 38 to 49).\<close>

datatype spar = SP_Header | SP_Pipe | SP_Created | SP_Fork | SP_CloseR | SP_Sending | SP_Sleep | SP_Write
  | SP_CloseW | SP_Wait | SP_Finished | SP_Return | SP_Killed

datatype schi = SC_None | SC_CloseW | SC_Waiting | SC_Read | SC_Got | SC_CloseR | SC_Exit | SC_Zombie | SC_Reaped

datatype sline = S_Header | S_Perror string | S_Created | S_Sending string | S_Child_Done
  | S_Waiting | S_Received string int

record sstate =
  s_par :: spar
  s_chi :: schi
  s_pipe :: "proc pipe"
  s_n :: int
  s_msg :: string
  s_out :: "sline list"
  s_cout :: "sline list"

definition write_msg :: string where
  "write_msg = ''Hello through pipe!''"

definition sprint :: "sline \<Rightarrow> sstate \<Rightarrow> sstate" where
  "sprint l s = s\<lparr>s_out := s_out s @ [l]\<rparr>"

text \<open>One statement of the parent; \<open>ok\<close> is the outcome of \<^verbatim>\<open>pipe\<close> and \<^verbatim>\<open>fork\<close>.\<close>

definition simple_parent :: "bool \<Rightarrow> sstate \<Rightarrow> sstate option" where
  "simple_parent ok s =
     (case s_par s of
        SP_Header \<Rightarrow> Some (sprint S_Header s\<lparr>s_par := SP_Pipe\<rparr>)
      | SP_Pipe \<Rightarrow>
          Some (if ok then s\<lparr>s_pipe := pipe_create Parent, s_par := SP_Created\<rparr>
                else sprint (S_Perror ''pipe'') s\<lparr>s_par := SP_Return\<rparr>)
      | SP_Created \<Rightarrow> Some (sprint S_Created s\<lparr>s_par := SP_Fork\<rparr>)
      | SP_Fork \<Rightarrow>
          Some (if ok then s\<lparr>s_pipe := pipe_fork Parent Child (s_pipe s), s_chi := SC_CloseW, s_par := SP_CloseR\<rparr>
                else sprint (S_Perror ''fork'') s\<lparr>s_par := SP_Return\<rparr>)
      | SP_CloseR \<Rightarrow> Some (s\<lparr>s_pipe := close_rd Parent (s_pipe s), s_par := SP_Sending\<rparr>)
      | SP_Sending \<Rightarrow> Some (sprint (S_Sending write_msg) s\<lparr>s_par := SP_Sleep\<rparr>)
      | SP_Sleep \<Rightarrow> Some (s\<lparr>s_par := SP_Write\<rparr>)
      | SP_Write \<Rightarrow>
          (case pipe_write Parent write_msg (s_pipe s) of
             Blocks \<Rightarrow> None
           | Fails \<Rightarrow> Some (s\<lparr>s_par := SP_CloseW\<rparr>)
           | Sigpipe \<Rightarrow> Some (s\<lparr>s_par := SP_Killed\<rparr>)
           | Returns q \<Rightarrow> Some (s\<lparr>s_pipe := q, s_par := SP_CloseW\<rparr>))
      | SP_CloseW \<Rightarrow> Some (s\<lparr>s_pipe := close_wr Parent (s_pipe s), s_par := SP_Wait\<rparr>)
      | SP_Wait \<Rightarrow> (if s_chi s = SC_Zombie then Some (s\<lparr>s_chi := SC_Reaped, s_par := SP_Finished\<rparr>) else None)
      | SP_Finished \<Rightarrow> Some (sprint S_Child_Done s\<lparr>s_par := SP_Return\<rparr>)
      | SP_Return \<Rightarrow> None
      | SP_Killed \<Rightarrow> None)"

text \<open>One statement of the child. \<^verbatim>\<open>read_msg\<close> has 100 bytes and at most 99 are read.\<close>

definition simple_child :: "sstate \<Rightarrow> sstate option" where
  "simple_child s =
     (case s_chi s of
        SC_CloseW \<Rightarrow> Some (s\<lparr>s_pipe := close_wr Child (s_pipe s), s_chi := SC_Waiting\<rparr>)
      | SC_Waiting \<Rightarrow> Some (s\<lparr>s_cout := s_cout s @ [S_Waiting], s_chi := SC_Read\<rparr>)
      | SC_Read \<Rightarrow>
          (case pipe_read Child 99 (s_pipe s) of
             Returns (d, q) \<Rightarrow> Some (s\<lparr>s_pipe := q, s_n := int (length d), s_msg := d, s_chi := SC_Got\<rparr>)
           | Blocks \<Rightarrow> None
           | _ \<Rightarrow> Some (s\<lparr>s_n := - 1, s_chi := SC_Got\<rparr>))
      | SC_Got \<Rightarrow>
          Some (s\<lparr>s_cout := s_cout s @ (if s_n s > 0 then [S_Received (s_msg s) (s_n s)] else []), s_chi := SC_CloseR\<rparr>)
      | SC_CloseR \<Rightarrow> Some (s\<lparr>s_pipe := close_rd Child (s_pipe s), s_chi := SC_Exit\<rparr>)
      | SC_Exit \<Rightarrow> Some (s\<lparr>s_pipe := pipe_exit Child (s_pipe s), s_chi := SC_Zombie\<rparr>)
      | _ \<Rightarrow> None)"

datatype sactor = S_Parent bool | S_Child

fun simple_act :: "sactor \<Rightarrow> sstate \<Rightarrow> sstate option" where
  "simple_act (S_Parent ok) s = simple_parent ok s"
| "simple_act S_Child s = simple_child s"

definition simple_start :: sstate where
  "simple_start = \<lparr>s_par = SP_Header, s_chi = SC_None, s_pipe = no_pipe, s_n = 0, s_msg = [], s_out = [], s_cout = []\<rparr>"

abbreviation simple_step :: "sstate \<Rightarrow> sstate \<Rightarrow> bool" where
  "simple_step \<equiv> step_of simple_act"

text \<open>The lines as printed; \<open>r\<close> and \<open>w\<close> are the descriptors \<^verbatim>\<open>pipe\<close> gave.\<close>

definition quoted :: "string \<Rightarrow> string" where
  "quoted m = CHR 0x27 # m @ [CHR 0x27]"

fun sline_text :: "int \<Rightarrow> int \<Rightarrow> sline \<Rightarrow> string" where
  "sline_text r w S_Header = ''\<newline>=== Simple Pipe Demo ===\<newline>''"
| "sline_text r w (S_Perror m) = m"
| "sline_text r w S_Created = ''Pipe created: read_fd='' @ show_int r @ '', write_fd='' @ show_int w @ ''\<newline>''"
| "sline_text r w (S_Sending m) = ''[Parent] Sending: '' @ quoted m @ ''\<newline>''"
| "sline_text r w S_Child_Done = ''[Parent] Child has finished\<newline>''"
| "sline_text r w S_Waiting = ''[Child] Waiting to read from pipe...\<newline>''"
| "sline_text r w (S_Received m n) = ''[Child] Received: '' @ quoted m @ '' ('' @ show_int n @ '' bytes)\<newline>''"

section \<open>The state is determined by the program points\<close>

fun spar_rank :: "spar \<Rightarrow> nat" where
  "spar_rank SP_Header = 0"
| "spar_rank SP_Pipe = 1"
| "spar_rank SP_Created = 2"
| "spar_rank SP_Fork = 3"
| "spar_rank SP_CloseR = 4"
| "spar_rank SP_Sending = 5"
| "spar_rank SP_Sleep = 6"
| "spar_rank SP_Write = 7"
| "spar_rank SP_CloseW = 8"
| "spar_rank SP_Wait = 9"
| "spar_rank SP_Finished = 10"
| "spar_rank SP_Return = 11"
| "spar_rank SP_Killed = 11"

fun schi_rank :: "schi \<Rightarrow> nat" where
  "schi_rank SC_None = 0"
| "schi_rank SC_CloseW = 1"
| "schi_rank SC_Waiting = 2"
| "schi_rank SC_Read = 3"
| "schi_rank SC_Got = 4"
| "schi_rank SC_CloseR = 5"
| "schi_rank SC_Exit = 6"
| "schi_rank SC_Zombie = 7"
| "schi_rank SC_Reaped = 8"

definition holds :: "bool \<Rightarrow> bool \<Rightarrow> proc set" where
  "holds p c = (if p then {Parent} else {}) \<union> (if c then {Child} else {})"

text \<open>The state when the parent is at \<open>p\<close> and the child at \<open>c\<close>.\<close>

definition simple_at :: "spar \<Rightarrow> schi \<Rightarrow> sstate" where
  "simple_at p c =
     (let pr = spar_rank p; cr = schi_rank c in
      \<lparr>s_par = p, s_chi = c,
       s_pipe = \<lparr>p_buf = (if 7 < pr \<and> cr \<le> 3 then write_msg else []),
                 p_rd = holds (pr \<le> 4) (cr \<le> 5), p_wr = holds (pr \<le> 8) (cr \<le> 1)\<rparr>,
       s_n = (if 3 < cr then 19 else 0),
       s_msg = (if 3 < cr then write_msg else []),
       s_out = [S_Header, S_Created] @ (if 5 < pr then [S_Sending write_msg] else []) @
         (if 10 < pr then [S_Child_Done] else []),
       s_cout = (if 2 < cr then [S_Waiting] else []) @ (if 4 < cr then [S_Received write_msg 19] else [])\<rparr>)"

text \<open>Which program points occur together.\<close>

definition together :: "spar \<Rightarrow> schi \<Rightarrow> bool" where
  "together p c \<longleftrightarrow> p \<noteq> SP_Killed \<and> 4 \<le> spar_rank p \<and> 1 \<le> schi_rank c \<and> (3 < schi_rank c \<longrightarrow> 7 < spar_rank p) \<and>
     (c = SC_Reaped \<longleftrightarrow> 9 < spar_rank p)"

text \<open>The states with no child: before the fork, and after a failure.\<close>

definition simple_alone :: "sstate list" where
  "simple_alone = [simple_start,
     simple_start\<lparr>s_out := [S_Header], s_par := SP_Pipe\<rparr>,
     simple_start\<lparr>s_out := [S_Header, S_Perror ''pipe''], s_par := SP_Return\<rparr>,
     simple_start\<lparr>s_out := [S_Header], s_pipe := pipe_create Parent, s_par := SP_Created\<rparr>,
     simple_start\<lparr>s_out := [S_Header, S_Created], s_pipe := pipe_create Parent, s_par := SP_Fork\<rparr>,
     simple_start\<lparr>s_out := [S_Header, S_Created, S_Perror ''fork''], s_pipe := pipe_create Parent, s_par := SP_Return\<rparr>]"

definition simple_inv :: "sstate \<Rightarrow> bool" where
  "simple_inv s \<longleftrightarrow> s \<in> set simple_alone \<or> together (s_par s) (s_chi s) \<and> s = simple_at (s_par s) (s_chi s)"

definition simple_measure :: "sstate \<Rightarrow> nat" where
  "simple_measure s = (11 - spar_rank (s_par s)) + (8 - schi_rank (s_chi s))"

lemma simple_at_sel [simp]: "s_par (simple_at p c) = p" "s_chi (simple_at p c) = c"
  by (simp_all add: simple_at_def Let_def)

lemma simple_inv_at: "together p c \<Longrightarrow> simple_inv (simple_at p c)"
  by (simp add: simple_inv_def)

lemma simple_invE:
  assumes "simple_inv s"
  obtains "s \<in> set simple_alone" | p c where "s = simple_at p c" "together p c"
  using assms by (auto simp: simple_inv_def)

lemma simple_alone_parent:
  "s \<in> set simple_alone \<Longrightarrow> simple_parent ok s = Some t
     \<Longrightarrow> (t \<in> set simple_alone \<or> t = simple_at SP_CloseR SC_CloseW) \<and> simple_measure t < simple_measure s"
  by (auto simp: simple_alone_def simple_start_def simple_parent_def simple_at_def sprint_def holds_def pipe_defs
      simple_measure_def split: if_splits)

lemma simple_alone_child: "s \<in> set simple_alone \<Longrightarrow> simple_child s = None"
  by (auto simp: simple_alone_def simple_start_def simple_child_def)

lemma simple_alone_progress: "s \<in> set simple_alone \<Longrightarrow> s_par s \<noteq> SP_Return \<Longrightarrow> simple_parent ok s \<noteq> None"
  by (auto simp: simple_alone_def simple_start_def simple_parent_def)

text \<open>One step of each process, computed on the program points.\<close>

fun spar_next :: "spar \<Rightarrow> spar" where
  "spar_next SP_CloseR = SP_Sending"
| "spar_next SP_Sending = SP_Sleep"
| "spar_next SP_Sleep = SP_Write"
| "spar_next SP_Write = SP_CloseW"
| "spar_next SP_CloseW = SP_Wait"
| "spar_next SP_Wait = SP_Finished"
| "spar_next _ = SP_Return"

fun schi_next :: "schi \<Rightarrow> schi" where
  "schi_next SC_CloseW = SC_Waiting"
| "schi_next SC_Waiting = SC_Read"
| "schi_next SC_Read = SC_Got"
| "schi_next SC_Got = SC_CloseR"
| "schi_next SC_CloseR = SC_Exit"
| "schi_next _ = SC_Zombie"

lemma simple_parent_at:
  assumes "together p c"
  shows "simple_parent ok (simple_at p c) =
    (if p = SP_Return \<or> p = SP_Wait \<and> c \<noteq> SC_Zombie then None
     else Some (simple_at (spar_next p) (if p = SP_Wait then SC_Reaped else c)))"
  using assms
  by (cases p; cases c) (simp_all add: together_def simple_parent_def simple_at_def sprint_def holds_def pipe_defs
      write_msg_def pipe_capacity_def insert_Diff_if)

lemma simple_child_at:
  assumes "together p c"
  shows "simple_child (simple_at p c) =
    (if c \<in> {SC_Zombie, SC_Reaped} \<or> c = SC_Read \<and> spar_rank p \<le> 7 then None else Some (simple_at p (schi_next c)))"
  using assms
  by (cases c; cases p) (simp_all add: together_def simple_child_def simple_at_def holds_def pipe_defs write_msg_def)

section \<open>Every execution\<close>

lemma spar_next_rank: "together p c \<Longrightarrow> p \<noteq> SP_Return \<Longrightarrow> spar_rank p < spar_rank (spar_next p) \<and> spar_rank p < 11"
  by (cases p) (simp_all add: together_def)

lemma schi_next_rank: "c \<notin> {SC_Zombie, SC_Reaped} \<Longrightarrow> together p c \<Longrightarrow> schi_rank c < schi_rank (schi_next c)"
  by (cases c) (simp_all add: together_def)

lemma schi_rank_le: "schi_rank c \<le> 8"
  by (cases c) simp_all

lemma together_parent:
  "together p c \<Longrightarrow> p \<noteq> SP_Return \<Longrightarrow> p = SP_Wait \<longrightarrow> c = SC_Zombie
     \<Longrightarrow> together (spar_next p) (if p = SP_Wait then SC_Reaped else c)"
  by (cases p; cases c) (simp_all add: together_def)

lemma together_child:
  "together p c \<Longrightarrow> c \<notin> {SC_Zombie, SC_Reaped} \<Longrightarrow> c = SC_Read \<longrightarrow> 7 < spar_rank p \<Longrightarrow> together p (schi_next c)"
  by (cases c; cases p) (simp_all add: together_def)

lemma simple_step_parent:
  assumes "simple_inv s" and "simple_parent ok s = Some t"
  shows "simple_inv t \<and> simple_measure t < simple_measure s"
  using assms(1)
proof (cases rule: simple_invE)
  case 1
  with simple_alone_parent [OF 1 assms(2)] show ?thesis
    by (auto simp: simple_inv_def together_def)
next
  case (2 p c)
  with assms(2) simple_parent_at [of p c ok]
  have ne: "p \<noteq> SP_Return" "p = SP_Wait \<longrightarrow> c = SC_Zombie"
    and t: "t = simple_at (spar_next p) (if p = SP_Wait then SC_Reaped else c)" by (auto split: if_splits)
  have "simple_measure t < simple_measure s"
    using spar_next_rank [OF 2(2) ne(1)] ne(2) by (auto simp: t 2(1) simple_measure_def)
  with together_parent [OF 2(2) ne] show ?thesis by (simp only: t simple_inv_at simp_thms)
qed

lemma simple_step_child:
  assumes "simple_inv s" and "simple_child s = Some t"
  shows "simple_inv t \<and> simple_measure t < simple_measure s"
  using assms(1)
proof (cases rule: simple_invE)
  case 1
  with assms(2) show ?thesis by (simp add: simple_alone_child)
next
  case (2 p c)
  with assms(2) simple_child_at [of p c]
  have ne: "c \<notin> {SC_Zombie, SC_Reaped}" "c = SC_Read \<longrightarrow> 7 < spar_rank p"
    and t: "t = simple_at p (schi_next c)" by (auto split: if_splits)
  have "simple_measure t < simple_measure s"
    using schi_next_rank [OF ne(1) 2(2)] schi_rank_le [of "schi_next c"] by (simp add: t 2(1) simple_measure_def)
  with together_child [OF 2(2) ne] show ?thesis by (simp add: t simple_inv_at)
qed

lemma simple_progress:
  assumes "simple_inv s" and "s_par s \<noteq> SP_Return"
  shows "\<exists>t. simple_step s t"
  using assms(1)
proof (cases rule: simple_invE)
  case 1
  with simple_alone_progress assms(2) obtain t where "simple_act (S_Parent True) s = Some t" by fastforce
  then show ?thesis by blast
next
  case (2 p c)
  show ?thesis
  proof (cases "p = SP_Wait \<and> c \<noteq> SC_Zombie")
    case True
    with 2 have "simple_act S_Child s = Some (simple_at p (schi_next c))"
      by (auto simp: simple_child_at together_def)
    then show ?thesis by blast
  next
    case False
    with 2 assms(2) have "simple_act (S_Parent True) s \<noteq> None" by (simp add: simple_parent_at)
    then show ?thesis by blast
  qed
qed

interpretation simple_sys: live_system simple_step simple_start simple_inv simple_measure "\<lambda>s. s_par s = SP_Return"
proof
  show "simple_inv simple_start" by (simp add: simple_inv_def simple_alone_def)
next
  fix s t
  assume I: "simple_inv s" and "simple_step s t"
  then obtain a where a: "simple_act a s = Some t" by (auto elim: step_ofE)
  then have "simple_inv t \<and> simple_measure t < simple_measure s"
    by (cases a) (auto dest: simple_step_parent [OF I] simple_step_child [OF I])
  then show "simple_inv t" and "simple_measure t < simple_measure s" by simp_all
qed (rule simple_progress)

text \<open>
  The demo is over in one of three ways; only when \<^verbatim>\<open>fork\<close> fails does the process keep the
  descriptors of the pipe.
\<close>

lemma simple_return_cases:
  assumes "simple_inv s" and "s_par s = SP_Return"
  shows "s = simple_at SP_Return SC_Reaped \<or>
     s_chi s = SC_None \<and> s_pipe s = no_pipe \<and> s_out s = [S_Header, S_Perror ''pipe''] \<or>
     s_chi s = SC_None \<and> s_pipe s = pipe_create Parent \<and> s_out s = [S_Header, S_Created, S_Perror ''fork'']"
  using assms(1)
proof (cases rule: simple_invE)
  case 1
  with assms(2) show ?thesis by (auto simp: simple_alone_def simple_start_def)
next
  case (2 p c)
  with assms(2) show ?thesis by (simp add: together_def)
qed

text \<open>
  In every interleaving in which the child was made, \<open>simple_pipe_demo\<close> returns with the child
  reaped, the message received whole (19 bytes, as one read), all ends of the pipe closed and nothing
  left in it.
\<close>

theorem simple_pipe_delivers:
  assumes "simple_step\<^sup>*\<^sup>* simple_start s" and "s_par s = SP_Return" and "s_chi s \<noteq> SC_None"
  shows "s_cout s = [S_Waiting, S_Received ''Hello through pipe!'' 19]
    \<and> s_out s = [S_Header, S_Created, S_Sending ''Hello through pipe!'', S_Child_Done]
    \<and> s_chi s = SC_Reaped \<and> s_pipe s = no_pipe"
proof -
  from simple_sys.reach_inv [OF assms(1)] simple_return_cases assms(2,3) have "s = simple_at SP_Return SC_Reaped" by blast
  then show ?thesis by (simp add: simple_at_def holds_def write_msg_def no_pipe_def)
qed

definition simple_sched :: "sactor list" where
  "simple_sched = [S_Parent True, S_Parent True, S_Parent True, S_Parent True, S_Child, S_Child, S_Parent True,
     S_Parent True, S_Parent True, S_Parent True, S_Child, S_Parent True, S_Child, S_Child, S_Child, S_Parent True,
     S_Parent True]"

theorem simple_pipe_delivers_witness:
  "\<exists>s. simple_step\<^sup>*\<^sup>* simple_start s \<and> s_par s = SP_Return \<and> s_chi s \<noteq> SC_None
    \<and> s_cout s = [S_Waiting, S_Received ''Hello through pipe!'' 19]"
proof -
  have "\<exists>s. simple_step\<^sup>*\<^sup>* simple_start s \<and> s_par s = SP_Return \<and> s_chi s \<noteq> SC_None"
    by (rule run_sched_witness [where as = simple_sched])
      (simp add: simple_sched_def simple_start_def simple_parent_def simple_child_def sprint_def pipe_defs pipe_capacity_def
        write_msg_def insert_Diff_if)
  then show ?thesis using simple_pipe_delivers by blast
qed

end
