(* ===== verification/Pipe_Bidirectional.thy ===== *)
theory Pipe_Bidirectional
  imports Pipe_Simple
begin

text \<open>
  \<^verbatim>\<open>bidirectional_pipe_demo\<close> of \<^verbatim>\<open>src/examples/pipe_demo.c\<close>: one pipe in each direction. The
  result of \<^verbatim>\<open>fork\<close> is only compared with 0, so that after a failed \<^verbatim>\<open>fork\<close> the process goes on
  as the parent. The array \<^verbatim>\<open>msg\<close> is not initialised: its bytes (\<open>junk\<close>) are a parameter.
\<close>

section \<open>The program\<close>

text \<open>The statements of the parent (lines 67 to 79 and 100 to 113) and of the child (lines 83 to 96).\<close>

datatype bpar = BP_Header | BP_Pipe1 | BP_Pipe2 | BP_Fork | BP_CloseR1 | BP_CloseW2 | BP_Write | BP_CloseW1
  | BP_Read | BP_Print | BP_CloseR2 | BP_Wait | BP_Return | BP_Killed

datatype bchi = BC_None | BC_CloseW1 | BC_CloseR2 | BC_Read | BC_Print | BC_CloseR1 | BC_Write | BC_CloseW2
  | BC_Exit | BC_Zombie | BC_Reaped | BC_Killed

datatype bline = B_Header | B_Perror string | B_From_Child "string option" | B_From_Parent "string option"

record bstate =
  b_par :: bpar
  b_chi :: bchi
  b_pipe1 :: "proc pipe"
  b_pipe2 :: "proc pipe"
  b_msg :: string
  b_cmsg :: string
  b_out :: "bline list"
  b_cout :: "bline list"

definition greeting :: string where
  "greeting = ''Hello Child!''"

definition reply :: string where
  "reply = ''Hi Parent!''"

text \<open>The bytes \<open>d\<close> read into the start of \<^verbatim>\<open>msg\<close>.\<close>

definition filled :: "string \<Rightarrow> string \<Rightarrow> string" where
  "filled d a = d @ drop (length d) a"

text \<open>
  One statement of the parent; \<open>ok\<close> is the outcome of \<^verbatim>\<open>pipe\<close> and \<^verbatim>\<open>fork\<close>. \<^verbatim>\<open>wait\<close> returns at
  once when there is no child.
\<close>

definition bidir_parent :: "bool \<Rightarrow> bstate \<Rightarrow> bstate option" where
  "bidir_parent ok s =
     (case b_par s of
        BP_Header \<Rightarrow> Some (s\<lparr>b_out := b_out s @ [B_Header], b_par := BP_Pipe1\<rparr>)
      | BP_Pipe1 \<Rightarrow>
          Some (if ok then s\<lparr>b_pipe1 := pipe_create Parent, b_par := BP_Pipe2\<rparr>
                else s\<lparr>b_out := b_out s @ [B_Perror ''pipe''], b_par := BP_Return\<rparr>)
      | BP_Pipe2 \<Rightarrow>
          Some (if ok then s\<lparr>b_pipe2 := pipe_create Parent, b_par := BP_Fork\<rparr>
                else s\<lparr>b_out := b_out s @ [B_Perror ''pipe''], b_par := BP_Return\<rparr>)
      | BP_Fork \<Rightarrow>
          Some (if ok then s\<lparr>b_pipe1 := pipe_fork Parent Child (b_pipe1 s), b_pipe2 := pipe_fork Parent Child (b_pipe2 s),
                  b_cmsg := b_msg s, b_chi := BC_CloseW1, b_par := BP_CloseR1\<rparr>
                else s\<lparr>b_par := BP_CloseR1\<rparr>)
      | BP_CloseR1 \<Rightarrow> Some (s\<lparr>b_pipe1 := close_rd Parent (b_pipe1 s), b_par := BP_CloseW2\<rparr>)
      | BP_CloseW2 \<Rightarrow> Some (s\<lparr>b_pipe2 := close_wr Parent (b_pipe2 s), b_par := BP_Write\<rparr>)
      | BP_Write \<Rightarrow>
          (case pipe_write Parent (greeting @ [NUL]) (b_pipe1 s) of
             Blocks \<Rightarrow> None
           | Fails \<Rightarrow> Some (s\<lparr>b_par := BP_CloseW1\<rparr>)
           | Sigpipe \<Rightarrow> Some (s\<lparr>b_pipe1 := pipe_exit Parent (b_pipe1 s), b_pipe2 := pipe_exit Parent (b_pipe2 s),
                            b_par := BP_Killed\<rparr>)
           | Returns q \<Rightarrow> Some (s\<lparr>b_pipe1 := q, b_par := BP_CloseW1\<rparr>))
      | BP_CloseW1 \<Rightarrow> Some (s\<lparr>b_pipe1 := close_wr Parent (b_pipe1 s), b_par := BP_Read\<rparr>)
      | BP_Read \<Rightarrow>
          (case pipe_read Parent 100 (b_pipe2 s) of
             Returns (d, q) \<Rightarrow> Some (s\<lparr>b_pipe2 := q, b_msg := filled d (b_msg s), b_par := BP_Print\<rparr>)
           | Blocks \<Rightarrow> None
           | _ \<Rightarrow> Some (s\<lparr>b_par := BP_Print\<rparr>))
      | BP_Print \<Rightarrow> Some (s\<lparr>b_out := b_out s @ [B_From_Child (c_string (b_msg s))], b_par := BP_CloseR2\<rparr>)
      | BP_CloseR2 \<Rightarrow> Some (s\<lparr>b_pipe2 := close_rd Parent (b_pipe2 s), b_par := BP_Wait\<rparr>)
      | BP_Wait \<Rightarrow>
          (if b_chi s \<in> {BC_Zombie, BC_Killed} then Some (s\<lparr>b_chi := BC_Reaped, b_par := BP_Return\<rparr>)
           else if b_chi s = BC_None then Some (s\<lparr>b_par := BP_Return\<rparr>) else None)
      | BP_Return \<Rightarrow> None
      | BP_Killed \<Rightarrow> None)"

text \<open>One statement of the child.\<close>

definition bidir_child :: "bstate \<Rightarrow> bstate option" where
  "bidir_child s =
     (case b_chi s of
        BC_CloseW1 \<Rightarrow> Some (s\<lparr>b_pipe1 := close_wr Child (b_pipe1 s), b_chi := BC_CloseR2\<rparr>)
      | BC_CloseR2 \<Rightarrow> Some (s\<lparr>b_pipe2 := close_rd Child (b_pipe2 s), b_chi := BC_Read\<rparr>)
      | BC_Read \<Rightarrow>
          (case pipe_read Child 100 (b_pipe1 s) of
             Returns (d, q) \<Rightarrow> Some (s\<lparr>b_pipe1 := q, b_cmsg := filled d (b_cmsg s), b_chi := BC_Print\<rparr>)
           | Blocks \<Rightarrow> None
           | _ \<Rightarrow> Some (s\<lparr>b_chi := BC_Print\<rparr>))
      | BC_Print \<Rightarrow> Some (s\<lparr>b_cout := b_cout s @ [B_From_Parent (c_string (b_cmsg s))], b_chi := BC_CloseR1\<rparr>)
      | BC_CloseR1 \<Rightarrow> Some (s\<lparr>b_pipe1 := close_rd Child (b_pipe1 s), b_chi := BC_Write\<rparr>)
      | BC_Write \<Rightarrow>
          (case pipe_write Child (reply @ [NUL]) (b_pipe2 s) of
             Blocks \<Rightarrow> None
           | Fails \<Rightarrow> Some (s\<lparr>b_chi := BC_CloseW2\<rparr>)
           | Sigpipe \<Rightarrow> Some (s\<lparr>b_pipe1 := pipe_exit Child (b_pipe1 s), b_pipe2 := pipe_exit Child (b_pipe2 s),
                            b_chi := BC_Killed\<rparr>)
           | Returns q \<Rightarrow> Some (s\<lparr>b_pipe2 := q, b_chi := BC_CloseW2\<rparr>))
      | BC_CloseW2 \<Rightarrow> Some (s\<lparr>b_pipe2 := close_wr Child (b_pipe2 s), b_chi := BC_Exit\<rparr>)
      | BC_Exit \<Rightarrow> Some (s\<lparr>b_pipe1 := pipe_exit Child (b_pipe1 s), b_pipe2 := pipe_exit Child (b_pipe2 s),
                      b_chi := BC_Zombie\<rparr>)
      | _ \<Rightarrow> None)"

datatype bactor = B_Parent bool | B_Child

fun bidir_act :: "bactor \<Rightarrow> bstate \<Rightarrow> bstate option" where
  "bidir_act (B_Parent ok) s = bidir_parent ok s"
| "bidir_act B_Child s = bidir_child s"

definition bidir_start :: "string \<Rightarrow> bstate" where
  "bidir_start junk = \<lparr>b_par = BP_Header, b_chi = BC_None, b_pipe1 = no_pipe, b_pipe2 = no_pipe,
     b_msg = junk, b_cmsg = [], b_out = [], b_cout = []\<rparr>"

abbreviation bidir_step :: "bstate \<Rightarrow> bstate \<Rightarrow> bool" where
  "bidir_step \<equiv> step_of bidir_act"

text \<open>The lines as printed; \<^verbatim>\<open>%s\<close> needs a terminated string.\<close>

fun bline_text :: "bline \<Rightarrow> string option" where
  "bline_text B_Header = Some ''\<newline>=== Bidirectional Communication (2 Pipes) ===\<newline>''"
| "bline_text (B_Perror m) = Some m"
| "bline_text (B_From_Child m) = map_option (\<lambda>m. ''[Parent] Received from child: '' @ m @ ''\<newline>'') m"
| "bline_text (B_From_Parent m) = map_option (\<lambda>m. ''[Child] Received from parent: '' @ m @ ''\<newline>'') m"

section \<open>The state is determined by the program points\<close>

fun bpar_rank :: "bpar \<Rightarrow> nat" where
  "bpar_rank BP_Header = 0"
| "bpar_rank BP_Pipe1 = 1"
| "bpar_rank BP_Pipe2 = 2"
| "bpar_rank BP_Fork = 3"
| "bpar_rank BP_CloseR1 = 4"
| "bpar_rank BP_CloseW2 = 5"
| "bpar_rank BP_Write = 6"
| "bpar_rank BP_CloseW1 = 7"
| "bpar_rank BP_Read = 8"
| "bpar_rank BP_Print = 9"
| "bpar_rank BP_CloseR2 = 10"
| "bpar_rank BP_Wait = 11"
| "bpar_rank BP_Return = 12"
| "bpar_rank BP_Killed = 12"

fun bchi_rank :: "bchi \<Rightarrow> nat" where
  "bchi_rank BC_None = 0"
| "bchi_rank BC_CloseW1 = 1"
| "bchi_rank BC_CloseR2 = 2"
| "bchi_rank BC_Read = 3"
| "bchi_rank BC_Print = 4"
| "bchi_rank BC_CloseR1 = 5"
| "bchi_rank BC_Write = 6"
| "bchi_rank BC_CloseW2 = 7"
| "bchi_rank BC_Exit = 8"
| "bchi_rank BC_Zombie = 9"
| "bchi_rank BC_Killed = 9"
| "bchi_rank BC_Reaped = 10"

text \<open>The state when the parent is at \<open>p\<close> and the child at \<open>c\<close>.\<close>

definition bidir_at :: "string \<Rightarrow> bpar \<Rightarrow> bchi \<Rightarrow> bstate" where
  "bidir_at junk p c =
     (let pr = bpar_rank p; cr = bchi_rank c in
      \<lparr>b_par = p, b_chi = c,
       b_pipe1 = \<lparr>p_buf = (if 6 < pr \<and> cr \<le> 3 then greeting @ [NUL] else []),
                  p_rd = holds (pr \<le> 4) (cr \<le> 5), p_wr = holds (pr \<le> 7) (cr \<le> 1)\<rparr>,
       b_pipe2 = \<lparr>p_buf = (if pr \<le> 8 \<and> 6 < cr then reply @ [NUL] else []),
                  p_rd = holds (pr \<le> 10) (cr \<le> 2), p_wr = holds (pr \<le> 5) (cr \<le> 7)\<rparr>,
       b_msg = (if 8 < pr then filled (reply @ [NUL]) junk else junk),
       b_cmsg = (if 3 < cr then filled (greeting @ [NUL]) junk else junk),
       b_out = B_Header # (if 9 < pr then [B_From_Child (Some reply)] else []),
       b_cout = (if 4 < cr then [B_From_Parent (Some greeting)] else [])\<rparr>)"

definition bidir_together :: "bpar \<Rightarrow> bchi \<Rightarrow> bool" where
  "bidir_together p c \<longleftrightarrow> p \<noteq> BP_Killed \<and> c \<noteq> BC_Killed \<and> 4 \<le> bpar_rank p \<and> 1 \<le> bchi_rank c \<and>
     (3 < bchi_rank c \<longrightarrow> 6 < bpar_rank p) \<and> (8 < bpar_rank p \<longrightarrow> 6 < bchi_rank c) \<and>
     (c = BC_Reaped \<longleftrightarrow> 11 < bpar_rank p)"

text \<open>The states with no child: before the fork, and after a failure.\<close>

definition bidir_alone :: "string \<Rightarrow> bstate list" where
  "bidir_alone junk =
     (let s = bidir_start junk; h = s\<lparr>b_out := [B_Header]\<rparr>;
          f = h\<lparr>b_pipe1 := pipe_create Parent, b_pipe2 := pipe_create Parent\<rparr>;
          f1 = f\<lparr>b_pipe1 := close_rd Parent (b_pipe1 f)\<rparr>;
          f2 = f1\<lparr>b_pipe2 := close_wr Parent (b_pipe2 f)\<rparr> in
      [s, h\<lparr>b_par := BP_Pipe1\<rparr>,
       h\<lparr>b_out := [B_Header, B_Perror ''pipe''], b_par := BP_Return\<rparr>,
       h\<lparr>b_pipe1 := pipe_create Parent, b_par := BP_Pipe2\<rparr>,
       h\<lparr>b_pipe1 := pipe_create Parent, b_out := [B_Header, B_Perror ''pipe''], b_par := BP_Return\<rparr>,
       f\<lparr>b_par := BP_Fork\<rparr>, f\<lparr>b_par := BP_CloseR1\<rparr>, f1\<lparr>b_par := BP_CloseW2\<rparr>, f2\<lparr>b_par := BP_Write\<rparr>,
       h\<lparr>b_par := BP_Killed\<rparr>])"

definition bidir_inv :: "string \<Rightarrow> bstate \<Rightarrow> bool" where
  "bidir_inv junk s \<longleftrightarrow>
     s \<in> set (bidir_alone junk) \<or> bidir_together (b_par s) (b_chi s) \<and> s = bidir_at junk (b_par s) (b_chi s)"

definition bidir_measure :: "bstate \<Rightarrow> nat" where
  "bidir_measure s = (12 - bpar_rank (b_par s)) + (10 - bchi_rank (b_chi s))"

lemma bidir_at_sel [simp]: "b_par (bidir_at junk p c) = p" "b_chi (bidir_at junk p c) = c"
  by (simp_all add: bidir_at_def Let_def)

lemma bidir_inv_at: "bidir_together p c \<Longrightarrow> bidir_inv junk (bidir_at junk p c)"
  by (simp add: bidir_inv_def)

lemma bidir_invE:
  assumes "bidir_inv junk s"
  obtains "s \<in> set (bidir_alone junk)" | p c where "s = bidir_at junk p c" "bidir_together p c"
  using assms by (auto simp: bidir_inv_def)

lemma bidir_alone_parent:
  "s \<in> set (bidir_alone junk) \<Longrightarrow> bidir_parent ok s = Some t
     \<Longrightarrow> (t \<in> set (bidir_alone junk) \<or> t = bidir_at junk BP_CloseR1 BC_CloseW1) \<and> bidir_measure t < bidir_measure s"
  by (auto simp: bidir_alone_def bidir_start_def bidir_parent_def bidir_at_def holds_def pipe_defs
      bidir_measure_def Let_def split: if_splits)

lemma bidir_alone_child: "s \<in> set (bidir_alone junk) \<Longrightarrow> bidir_child s = None"
  by (auto simp: bidir_alone_def bidir_start_def bidir_child_def Let_def)

lemma bidir_alone_progress:
  "s \<in> set (bidir_alone junk) \<Longrightarrow> b_par s \<notin> {BP_Return, BP_Killed} \<Longrightarrow> bidir_parent ok s \<noteq> None"
  by (auto simp: bidir_alone_def bidir_start_def bidir_parent_def Let_def pipe_defs)

text \<open>The strings in the arrays after the reads.\<close>

lemma filled_strings:
  "c_string (filled (greeting @ [NUL]) junk) = Some greeting"
  "c_string (filled (reply @ [NUL]) junk) = Some reply"
  using c_string_terminated [of greeting] c_string_terminated [of reply]
  by (simp_all add: filled_def greeting_def reply_def NUL_def)

fun bpar_next :: "bpar \<Rightarrow> bpar" where
  "bpar_next BP_CloseR1 = BP_CloseW2"
| "bpar_next BP_CloseW2 = BP_Write"
| "bpar_next BP_Write = BP_CloseW1"
| "bpar_next BP_CloseW1 = BP_Read"
| "bpar_next BP_Read = BP_Print"
| "bpar_next BP_Print = BP_CloseR2"
| "bpar_next BP_CloseR2 = BP_Wait"
| "bpar_next _ = BP_Return"

fun bchi_next :: "bchi \<Rightarrow> bchi" where
  "bchi_next BC_CloseW1 = BC_CloseR2"
| "bchi_next BC_CloseR2 = BC_Read"
| "bchi_next BC_Read = BC_Print"
| "bchi_next BC_Print = BC_CloseR1"
| "bchi_next BC_CloseR1 = BC_Write"
| "bchi_next BC_Write = BC_CloseW2"
| "bchi_next BC_CloseW2 = BC_Exit"
| "bchi_next _ = BC_Zombie"

text \<open>Messages are short: they fit the pipe and the array.\<close>

lemma message_lengths: "length greeting = 12" "length reply = 10" "greeting \<noteq> []" "reply \<noteq> []"
  by (simp_all add: greeting_def reply_def)

lemma bidir_parent_at:
  assumes "bidir_together p c"
  shows "bidir_parent ok (bidir_at junk p c) =
    (if p = BP_Return \<or> p = BP_Read \<and> bchi_rank c \<le> 6 \<or> p = BP_Wait \<and> c \<noteq> BC_Zombie then None
     else Some (bidir_at junk (bpar_next p) (if p = BP_Wait then BC_Reaped else c)))"
  using assms
  by (cases p; cases c) (simp_all add: bidir_together_def bidir_parent_def bidir_at_def holds_def pipe_defs
      message_lengths pipe_capacity_def insert_Diff_if filled_strings)

lemma bidir_child_at:
  assumes "bidir_together p c"
  shows "bidir_child (bidir_at junk p c) =
    (if c \<in> {BC_Zombie, BC_Reaped} \<or> c = BC_Read \<and> bpar_rank p \<le> 6 then None else Some (bidir_at junk p (bchi_next c)))"
  using assms
  by (cases c; cases p) (simp_all add: bidir_together_def bidir_child_def bidir_at_def holds_def pipe_defs
      message_lengths pipe_capacity_def insert_Diff_if filled_strings)

section \<open>Every execution\<close>

lemma bpar_next_rank:
  "bidir_together p c \<Longrightarrow> p \<noteq> BP_Return \<Longrightarrow> bpar_rank p < bpar_rank (bpar_next p) \<and> bpar_rank p < 12"
  by (cases p) (simp_all add: bidir_together_def)

lemma bchi_next_rank:
  "c \<notin> {BC_Zombie, BC_Reaped} \<Longrightarrow> bidir_together p c \<Longrightarrow> bchi_rank c < bchi_rank (bchi_next c)"
  by (cases c) (simp_all add: bidir_together_def)

lemma bchi_rank_le: "bchi_rank c \<le> 10"
  by (cases c) simp_all

lemma bidir_together_parent:
  "bidir_together p c \<Longrightarrow> p \<noteq> BP_Return \<Longrightarrow> p = BP_Read \<longrightarrow> 6 < bchi_rank c \<Longrightarrow> p = BP_Wait \<longrightarrow> c = BC_Zombie
     \<Longrightarrow> bidir_together (bpar_next p) (if p = BP_Wait then BC_Reaped else c)"
  by (cases p; cases c) (simp_all add: bidir_together_def)

lemma bidir_together_child:
  "bidir_together p c \<Longrightarrow> c \<notin> {BC_Zombie, BC_Reaped} \<Longrightarrow> c = BC_Read \<longrightarrow> 6 < bpar_rank p
     \<Longrightarrow> bidir_together p (bchi_next c)"
  by (cases c; cases p) (simp_all add: bidir_together_def)

lemma bidir_step_parent:
  assumes "bidir_inv junk s" and "bidir_parent ok s = Some t"
  shows "bidir_inv junk t \<and> bidir_measure t < bidir_measure s"
  using assms(1)
proof (cases rule: bidir_invE)
  case 1
  with bidir_alone_parent [OF 1 assms(2)] show ?thesis
    by (auto simp: bidir_inv_def bidir_together_def)
next
  case (2 p c)
  with assms(2) bidir_parent_at [of p c ok junk]
  have ne: "p \<noteq> BP_Return" "p = BP_Read \<longrightarrow> 6 < bchi_rank c" "p = BP_Wait \<longrightarrow> c = BC_Zombie"
    and t: "t = bidir_at junk (bpar_next p) (if p = BP_Wait then BC_Reaped else c)" by (auto split: if_splits)
  have "bidir_measure t < bidir_measure s"
    using bpar_next_rank [OF 2(2) ne(1)] ne(3) by (auto simp: t 2(1) bidir_measure_def)
  with bidir_together_parent [OF 2(2) ne] show ?thesis by (simp only: t bidir_inv_at simp_thms)
qed

lemma bidir_step_child:
  assumes "bidir_inv junk s" and "bidir_child s = Some t"
  shows "bidir_inv junk t \<and> bidir_measure t < bidir_measure s"
  using assms(1)
proof (cases rule: bidir_invE)
  case 1
  with assms(2) show ?thesis by (simp add: bidir_alone_child)
next
  case (2 p c)
  with assms(2) bidir_child_at [of p c junk]
  have ne: "c \<notin> {BC_Zombie, BC_Reaped}" "c = BC_Read \<longrightarrow> 6 < bpar_rank p"
    and t: "t = bidir_at junk p (bchi_next c)" by (auto split: if_splits)
  have "bidir_measure t < bidir_measure s"
    using bchi_next_rank [OF ne(1) 2(2)] bchi_rank_le [of "bchi_next c"] by (simp add: t 2(1) bidir_measure_def)
  with bidir_together_child [OF 2(2) ne] show ?thesis by (simp add: t bidir_inv_at)
qed

text \<open>When the parent waits for the child, the child can go on.\<close>

lemma bidir_progress:
  assumes "bidir_inv junk s" and "b_par s \<notin> {BP_Return, BP_Killed}"
  shows "\<exists>t. bidir_step s t"
  using assms(1)
proof (cases rule: bidir_invE)
  case 1
  with bidir_alone_progress assms(2) obtain t where "bidir_act (B_Parent True) s = Some t" by fastforce
  then show ?thesis by blast
next
  case (2 p c)
  show ?thesis
  proof (cases "p = BP_Read \<and> bchi_rank c \<le> 6 \<or> p = BP_Wait \<and> c \<noteq> BC_Zombie")
    case True
    with 2 have "bidir_act B_Child s = Some (bidir_at junk p (bchi_next c))"
      by (auto simp: bidir_child_at bidir_together_def)
    then show ?thesis by blast
  next
    case False
    with 2 assms(2) have "bidir_act (B_Parent True) s \<noteq> None" by (simp add: bidir_parent_at)
    then show ?thesis by blast
  qed
qed

interpretation bidir_sys: live_system bidir_step "bidir_start junk" "bidir_inv junk" bidir_measure
  "\<lambda>s. b_par s \<in> {BP_Return, BP_Killed}" for junk
proof
  show "bidir_inv junk (bidir_start junk)" by (simp add: bidir_inv_def bidir_alone_def Let_def)
next
  fix s t
  assume I: "bidir_inv junk s" and "bidir_step s t"
  then obtain a where a: "bidir_act a s = Some t" by (auto elim: step_ofE)
  then have "bidir_inv junk t \<and> bidir_measure t < bidir_measure s"
    by (cases a) (auto dest: bidir_step_parent [OF I] bidir_step_child [OF I])
  then show "bidir_inv junk t" and "bidir_measure t < bidir_measure s" by simp_all
qed (rule bidir_progress)

lemma bidir_end_cases:
  assumes "bidir_inv junk s" and "b_par s \<in> {BP_Return, BP_Killed}"
  shows "s = bidir_at junk BP_Return BC_Reaped \<or>
     b_chi s = BC_None \<and> b_par s = BP_Return \<and> b_out s = [B_Header, B_Perror ''pipe''] \<or>
     b_chi s = BC_None \<and> b_par s = BP_Killed \<and> b_out s = [B_Header]"
  using assms(1)
proof (cases rule: bidir_invE)
  case 1
  with assms(2) show ?thesis by (auto simp: bidir_alone_def bidir_start_def Let_def)
next
  case (2 p c)
  with assms(2) show ?thesis by (auto simp: bidir_together_def)
qed

text \<open>
  C37. Every execution of \<open>bidirectional_pipe_demo\<close> that cannot go on, whatever the bytes of the
  uninitialised \<^verbatim>\<open>msg\<close>, is over in one of three ways: \<^verbatim>\<open>pipe\<close> failed and the function returned; the
  child was made, both messages arrived whole and the child was reaped with all ends closed; or
  \<^verbatim>\<open>fork\<close> failed and \<^verbatim>\<open>SIGPIPE\<close> killed the program.
\<close>

theorem bidirectional_outcomes:
  assumes "bidir_step\<^sup>*\<^sup>* (bidir_start junk) s" and "\<nexists>t. bidir_step s t"
  shows "b_par s = BP_Return \<and> b_chi s = BC_None \<and> b_out s = [B_Header, B_Perror ''pipe'']
    \<or> b_par s = BP_Return \<and> b_chi s = BC_Reaped \<and> b_pipe1 s = no_pipe \<and> b_pipe2 s = no_pipe
      \<and> b_out s = [B_Header, B_From_Child (Some ''Hi Parent!'')] \<and> b_cout s = [B_From_Parent (Some ''Hello Child!'')]
    \<or> b_par s = BP_Killed \<and> b_chi s = BC_None \<and> b_out s = [B_Header]"
proof -
  from bidir_sys.stuck_is_final [OF assms] bidir_sys.reach_inv [OF assms(1)] bidir_end_cases
  consider "s = bidir_at junk BP_Return BC_Reaped"
    | "b_chi s = BC_None \<and> b_par s = BP_Return \<and> b_out s = [B_Header, B_Perror ''pipe'']"
    | "b_chi s = BC_None \<and> b_par s = BP_Killed \<and> b_out s = [B_Header]" by blast
  then show ?thesis
    by cases (simp_all add: bidir_at_def holds_def no_pipe_def greeting_def reply_def)
qed

text \<open>The failed \<^verbatim>\<open>fork\<close>: seven statements of the parent.\<close>

definition bidir_fork_fails :: "bactor list" where
  "bidir_fork_fails = [B_Parent True, B_Parent True, B_Parent True, B_Parent False, B_Parent True, B_Parent True, B_Parent True]"

theorem bidirectional_outcomes_witness:
  "\<exists>s. bidir_step\<^sup>*\<^sup>* (bidir_start (replicate 100 CHR ''x'')) s \<and> b_par s = BP_Killed \<and> b_chi s = BC_None \<and> b_out s = [B_Header]"
proof -
  have "\<exists>s. bidir_step\<^sup>*\<^sup>* (bidir_start (replicate 100 CHR ''x'')) s \<and> b_par s = BP_Killed \<and> b_chi s = BC_None"
    by (rule run_sched_witness [where as = bidir_fork_fails])
      (simp add: bidir_fork_fails_def bidir_start_def bidir_parent_def pipe_defs)
  then obtain s where s: "bidir_step\<^sup>*\<^sup>* (bidir_start (replicate 100 CHR ''x'')) s" "b_par s = BP_Killed" "b_chi s = BC_None"
    by blast
  moreover have "\<nexists>t. bidir_step s t"
  proof (rule notI, elim exE step_ofE)
    fix t a
    assume "bidir_act a s = Some t"
    with s show False by (cases a) (simp_all add: bidir_parent_def bidir_child_def)
  qed
  ultimately show ?thesis using bidirectional_outcomes by fastforce
qed

end
