(* ===== verification/Pipe_Exec.thy ===== *)
theory Pipe_Exec
  imports Pipe_Kernel
begin

text \<open>
  \<^verbatim>\<open>pipe_exec_demo\<close> of \<^verbatim>\<open>src/examples/pipe_demo.c\<close>: the pipeline \<^verbatim>\<open>ls -l | wc -l\<close>. The two programs
  are not part of the repository: \<^verbatim>\<open>ls\<close> is the bytes \<open>ls_out\<close> that it writes to its standard output,
  in chunks of any size, \<^verbatim>\<open>wc\<close> is the function \<open>wc\<close> from what it reads, up to end of file, to what it
  prints. A descriptor of the pipe is a process with a slot: the number \<^verbatim>\<open>pipe\<close> gave (\<open>Orig\<close>)
  or the standard stream that \<^verbatim>\<open>dup2\<close> made a copy of it (\<open>Std\<close>). The results of \<^verbatim>\<open>pipe\<close>,
  \<^verbatim>\<open>fork\<close> and \<^verbatim>\<open>execlp\<close> are chosen by the environment; a failed \<^verbatim>\<open>fork\<close> leaves \<^verbatim>\<open>-1\<close> (\<open>None\<close>) in the
  variable, which \<^verbatim>\<open>waitpid\<close> then takes as any child.
\<close>

section \<open>The program\<close>

datatype eproc = E_Parent | E_Ls | E_Wc

datatype slot = Orig | Std

datatype ending = Exited int | Killed

text \<open>The parent (lines 118 to 129, 141, 153 to 157), the first child (131 to 137) and the second (143 to 149).\<close>

datatype epar = EP_Header | EP_Pipe | EP_Fork1 | EP_Fork2 | EP_CloseR | EP_CloseW | EP_Wait1 | EP_Wait2 | EP_Return

datatype els = L_None | L_CloseR | L_Dup | L_CloseW | L_Exec | L_Run | L_Perror | L_Exit | L_Zombie ending | L_Reaped ending

datatype ewc = W_None | W_CloseW | W_Dup | W_CloseR | W_Exec | W_Run | W_Perror | W_Exit | W_Zombie ending | W_Reaped ending

record estate =
  e_par :: epar
  e_ls :: els
  e_wc :: ewc
  e_pid1 :: "eproc option"
  e_pid2 :: "eproc option"
  e_pipe :: "(eproc \<times> slot) pipe"
  e_rest :: string
  e_got :: string
  e_out :: "string list"
  e_errs :: "string list"

text \<open>Not a child of the parent any more, or never.\<close>

fun ls_gone :: "els \<Rightarrow> bool" where
  "ls_gone L_None \<longleftrightarrow> True"
| "ls_gone (L_Reaped st) \<longleftrightarrow> True"
| "ls_gone _ \<longleftrightarrow> False"

fun wc_gone :: "ewc \<Rightarrow> bool" where
  "wc_gone W_None \<longleftrightarrow> True"
| "wc_gone (W_Reaped st) \<longleftrightarrow> True"
| "wc_gone _ \<longleftrightarrow> False"

definition exec_exit :: "eproc \<Rightarrow> estate \<Rightarrow> estate" where
  "exec_exit p s = s\<lparr>e_pipe := pipe_exit (p, Std) (pipe_exit (p, Orig) (e_pipe s))\<rparr>"

definition wait_ls :: "estate \<Rightarrow> estate option" where
  "wait_ls s =
     (case e_ls s of
        L_Zombie st \<Rightarrow> Some (s\<lparr>e_ls := L_Reaped st\<rparr>)
      | l \<Rightarrow> if ls_gone l then Some s else None)"

definition wait_wc :: "estate \<Rightarrow> estate option" where
  "wait_wc s =
     (case e_wc s of
        W_Zombie st \<Rightarrow> Some (s\<lparr>e_wc := W_Reaped st\<rparr>)
      | w \<Rightarrow> if wc_gone w then Some s else None)"

text \<open>\<^verbatim>\<open>waitpid\<close>: blocks on a child that has not ended, fails at once when there is no such child.\<close>

definition exec_waitpid :: "eproc option \<Rightarrow> estate \<Rightarrow> estate option" where
  "exec_waitpid pid s =
     (case pid of
        Some E_Ls \<Rightarrow> wait_ls s
      | Some E_Wc \<Rightarrow> wait_wc s
      | Some E_Parent \<Rightarrow> Some s
      | None \<Rightarrow>
          (case e_ls s of
             L_Zombie st \<Rightarrow> wait_ls s
           | l \<Rightarrow>
               (case e_wc s of
                  W_Zombie st \<Rightarrow> wait_wc s
                | w \<Rightarrow> if ls_gone l \<and> wc_gone w then Some s else None)))"

definition exec_header :: string where
  "exec_header = ''\<newline>=== Pipe with exec() - Implementing: ls | wc -l ===\<newline>''"

text \<open>One statement of the parent; \<open>ok\<close> is the outcome of \<^verbatim>\<open>pipe\<close> and \<^verbatim>\<open>fork\<close>.\<close>

definition exec_parent :: "bool \<Rightarrow> estate \<Rightarrow> estate option" where
  "exec_parent ok s =
     (case e_par s of
        EP_Header \<Rightarrow>
          Some (s\<lparr>e_out := e_out s @ [exec_header], e_par := EP_Pipe\<rparr>)
      | EP_Pipe \<Rightarrow>
          Some (if ok then s\<lparr>e_pipe := pipe_create (E_Parent, Orig), e_par := EP_Fork1\<rparr>
                else s\<lparr>e_errs := e_errs s @ [''pipe''], e_par := EP_Return\<rparr>)
      | EP_Fork1 \<Rightarrow>
          Some (if ok then s\<lparr>e_pid1 := Some E_Ls, e_ls := L_CloseR,
                        e_pipe := pipe_fork (E_Parent, Orig) (E_Ls, Orig) (e_pipe s), e_par := EP_Fork2\<rparr>
                else s\<lparr>e_pid1 := None, e_par := EP_Fork2\<rparr>)
      | EP_Fork2 \<Rightarrow>
          Some (if ok then s\<lparr>e_pid2 := Some E_Wc, e_wc := W_CloseW,
                        e_pipe := pipe_fork (E_Parent, Orig) (E_Wc, Orig) (e_pipe s), e_par := EP_CloseR\<rparr>
                else s\<lparr>e_pid2 := None, e_par := EP_CloseR\<rparr>)
      | EP_CloseR \<Rightarrow> Some (s\<lparr>e_pipe := close_rd (E_Parent, Orig) (e_pipe s), e_par := EP_CloseW\<rparr>)
      | EP_CloseW \<Rightarrow> Some (s\<lparr>e_pipe := close_wr (E_Parent, Orig) (e_pipe s), e_par := EP_Wait1\<rparr>)
      | EP_Wait1 \<Rightarrow> map_option (e_par_update (\<lambda>_. EP_Wait2)) (exec_waitpid (e_pid1 s) s)
      | EP_Wait2 \<Rightarrow> map_option (e_par_update (\<lambda>_. EP_Return)) (exec_waitpid (e_pid2 s) s)
      | EP_Return \<Rightarrow> None)"

text \<open>
  One step of the first child: its statements up to \<^verbatim>\<open>execlp\<close>, whose outcome is \<open>ok\<close>, then the
  program \<^verbatim>\<open>ls\<close>, which writes a chunk of \<open>n\<close> bytes (at least one), and exits when all is written.
\<close>

definition exec_ls :: "bool \<Rightarrow> nat \<Rightarrow> estate \<Rightarrow> estate option" where
  "exec_ls ok n s =
     (case e_ls s of
        L_CloseR \<Rightarrow> Some (s\<lparr>e_pipe := close_rd (E_Ls, Orig) (e_pipe s), e_ls := L_Dup\<rparr>)
      | L_Dup \<Rightarrow>
          Some (s\<lparr>e_pipe := (e_pipe s)\<lparr>p_wr := insert (E_Ls, Std) (p_wr (e_pipe s))\<rparr>, e_ls := L_CloseW\<rparr>)
      | L_CloseW \<Rightarrow> Some (s\<lparr>e_pipe := close_wr (E_Ls, Orig) (e_pipe s), e_ls := L_Exec\<rparr>)
      | L_Exec \<Rightarrow> Some (s\<lparr>e_ls := (if ok then L_Run else L_Perror)\<rparr>)
      | L_Run \<Rightarrow>
          (if e_rest s = [] then Some (exec_exit E_Ls (s\<lparr>e_ls := L_Zombie (Exited 0)\<rparr>))
           else case pipe_write (E_Ls, Std) (take (Suc n) (e_rest s)) (e_pipe s) of
                  Returns q \<Rightarrow> Some (s\<lparr>e_pipe := q, e_rest := drop (Suc n) (e_rest s)\<rparr>)
                | Sigpipe \<Rightarrow> Some (exec_exit E_Ls (s\<lparr>e_ls := L_Zombie Killed\<rparr>))
                | _ \<Rightarrow> None)
      | L_Perror \<Rightarrow> Some (s\<lparr>e_errs := e_errs s @ [''execlp ls''], e_ls := L_Exit\<rparr>)
      | L_Exit \<Rightarrow> Some (exec_exit E_Ls (s\<lparr>e_ls := L_Zombie (Exited 1)\<rparr>))
      | _ \<Rightarrow> None)"

text \<open>One step of the second child; the program \<^verbatim>\<open>wc\<close> reads chunks of at most \<open>n\<close> (at least one) bytes.\<close>

definition exec_wc :: "(string \<Rightarrow> string) \<Rightarrow> bool \<Rightarrow> nat \<Rightarrow> estate \<Rightarrow> estate option" where
  "exec_wc wc ok n s =
     (case e_wc s of
        W_CloseW \<Rightarrow> Some (s\<lparr>e_pipe := close_wr (E_Wc, Orig) (e_pipe s), e_wc := W_Dup\<rparr>)
      | W_Dup \<Rightarrow>
          Some (s\<lparr>e_pipe := (e_pipe s)\<lparr>p_rd := insert (E_Wc, Std) (p_rd (e_pipe s))\<rparr>, e_wc := W_CloseR\<rparr>)
      | W_CloseR \<Rightarrow> Some (s\<lparr>e_pipe := close_rd (E_Wc, Orig) (e_pipe s), e_wc := W_Exec\<rparr>)
      | W_Exec \<Rightarrow> Some (s\<lparr>e_wc := (if ok then W_Run else W_Perror)\<rparr>)
      | W_Run \<Rightarrow>
          (case pipe_read (E_Wc, Std) (Suc n) (e_pipe s) of
             Returns (d, q) \<Rightarrow>
               Some (if d = [] then exec_exit E_Wc (s\<lparr>e_out := e_out s @ [wc (e_got s)], e_wc := W_Zombie (Exited 0)\<rparr>)
                     else s\<lparr>e_pipe := q, e_got := e_got s @ d\<rparr>)
           | _ \<Rightarrow> None)
      | W_Perror \<Rightarrow> Some (s\<lparr>e_errs := e_errs s @ [''execlp wc''], e_wc := W_Exit\<rparr>)
      | W_Exit \<Rightarrow> Some (exec_exit E_Wc (s\<lparr>e_wc := W_Zombie (Exited 1)\<rparr>))
      | _ \<Rightarrow> None)"

datatype eactor = A_Parent bool | A_Ls bool nat | A_Wc bool nat

fun exec_act :: "(string \<Rightarrow> string) \<Rightarrow> eactor \<Rightarrow> estate \<Rightarrow> estate option" where
  "exec_act wc (A_Parent ok) s = exec_parent ok s"
| "exec_act wc (A_Ls ok n) s = exec_ls ok n s"
| "exec_act wc (A_Wc ok n) s = exec_wc wc ok n s"

definition exec_start :: "string \<Rightarrow> estate" where
  "exec_start ls_out = \<lparr>e_par = EP_Header, e_ls = L_None, e_wc = W_None, e_pid1 = None, e_pid2 = None,
     e_pipe = no_pipe, e_rest = ls_out, e_got = [], e_out = [], e_errs = []\<rparr>"

abbreviation exec_step :: "(string \<Rightarrow> string) \<Rightarrow> estate \<Rightarrow> estate \<Rightarrow> bool" where
  "exec_step wc \<equiv> step_of (exec_act wc)"

section \<open>Who holds the ends of the pipe\<close>

text \<open>The descriptors, as a function of the three program points.\<close>

fun par_rd :: "epar \<Rightarrow> (eproc \<times> slot) set" where
  "par_rd EP_Fork1 = {(E_Parent, Orig)}"
| "par_rd EP_Fork2 = {(E_Parent, Orig)}"
| "par_rd EP_CloseR = {(E_Parent, Orig)}"
| "par_rd _ = {}"

fun par_wr :: "epar \<Rightarrow> (eproc \<times> slot) set" where
  "par_wr EP_CloseW = {(E_Parent, Orig)}"
| "par_wr p = par_rd p"

fun ls_rd :: "els \<Rightarrow> (eproc \<times> slot) set" where
  "ls_rd L_CloseR = {(E_Ls, Orig)}"
| "ls_rd _ = {}"

fun ls_wr :: "els \<Rightarrow> (eproc \<times> slot) set" where
  "ls_wr L_None = {}"
| "ls_wr L_CloseR = {(E_Ls, Orig)}"
| "ls_wr L_Dup = {(E_Ls, Orig)}"
| "ls_wr L_CloseW = {(E_Ls, Orig), (E_Ls, Std)}"
| "ls_wr (L_Zombie st) = {}"
| "ls_wr (L_Reaped st) = {}"
| "ls_wr _ = {(E_Ls, Std)}"

fun wc_rd :: "ewc \<Rightarrow> (eproc \<times> slot) set" where
  "wc_rd W_None = {}"
| "wc_rd W_CloseW = {(E_Wc, Orig)}"
| "wc_rd W_Dup = {(E_Wc, Orig)}"
| "wc_rd W_CloseR = {(E_Wc, Orig), (E_Wc, Std)}"
| "wc_rd (W_Zombie st) = {}"
| "wc_rd (W_Reaped st) = {}"
| "wc_rd _ = {(E_Wc, Std)}"

fun wc_wr :: "ewc \<Rightarrow> (eproc \<times> slot) set" where
  "wc_wr W_CloseW = {(E_Wc, Orig)}"
| "wc_wr _ = {}"

definition ends_ok :: "estate \<Rightarrow> bool" where
  "ends_ok s \<longleftrightarrow> p_rd (e_pipe s) = par_rd (e_par s) \<union> ls_rd (e_ls s) \<union> wc_rd (e_wc s) \<and>
     p_wr (e_pipe s) = par_wr (e_par s) \<union> ls_wr (e_ls s) \<union> wc_wr (e_wc s)"

text \<open>Which children exist: the parent at \<open>p\<close>, the children at \<open>l\<close> and \<open>w\<close>, the variables \<^verbatim>\<open>pid1\<close>, \<^verbatim>\<open>pid2\<close>.\<close>

definition kids :: "epar \<Rightarrow> els \<Rightarrow> ewc \<Rightarrow> eproc option \<Rightarrow> eproc option \<Rightarrow> bool" where
  "kids p l w a b \<longleftrightarrow>
     (p \<in> {EP_Header, EP_Pipe, EP_Fork1} \<longrightarrow> l = L_None) \<and>
     (p \<in> {EP_Header, EP_Pipe, EP_Fork1, EP_Fork2} \<longrightarrow> w = W_None) \<and>
     a = (if l = L_None then None else Some E_Ls) \<and>
     b = (if w = W_None then None else Some E_Wc) \<and>
     (ls_gone l \<longrightarrow> l = L_None \<or> p \<in> {EP_Wait2, EP_Return}) \<and>
     (wc_gone w \<longrightarrow> w = W_None \<or> p \<in> {EP_Wait2, EP_Return}) \<and>
     (p \<in> {EP_Wait2, EP_Return} \<longrightarrow> ls_gone l) \<and>
     (p = EP_Return \<longrightarrow> wc_gone w) \<and>
     (p = EP_Wait2 \<and> l = L_None \<longrightarrow> wc_gone w)"

abbreviation kids_ok :: "estate \<Rightarrow> bool" where
  "kids_ok s \<equiv> kids (e_par s) (e_ls s) (e_wc s) (e_pid1 s) (e_pid2 s)"

lemma kids_ls: "kids p l w a b \<Longrightarrow> \<not> ls_gone l \<Longrightarrow> \<not> ls_gone l' \<Longrightarrow> kids p l' w a b"
  by (cases p) (auto simp: kids_def)

lemma kids_wc: "kids p l w a b \<Longrightarrow> \<not> wc_gone w \<Longrightarrow> \<not> wc_gone w' \<Longrightarrow> kids p l w' a b"
  by (cases p) (auto simp: kids_def)

text \<open>No process holds a descriptor of another.\<close>

lemma ends_own [simp]:
  "(E_Ls, x) \<notin> par_rd p" "(E_Wc, x) \<notin> par_rd p" "(E_Ls, x) \<notin> par_wr p" "(E_Wc, x) \<notin> par_wr p"
  by (cases p, simp_all)+

lemma ls_ends_own [simp]:
  "(E_Parent, x) \<notin> ls_rd l" "(E_Wc, x) \<notin> ls_rd l" "(E_Parent, x) \<notin> ls_wr l" "(E_Wc, x) \<notin> ls_wr l"
  by (cases l, simp_all)+

lemma wc_ends_own [simp]:
  "(E_Parent, x) \<notin> wc_rd w" "(E_Ls, x) \<notin> wc_rd w" "(E_Parent, x) \<notin> wc_wr w" "(E_Ls, x) \<notin> wc_wr w"
  by (cases w, simp_all)+

lemmas ends_defs = exec_exit_def pipe_exit_def close_rd_def close_wr_def Un_Diff insert_Diff_if insert_commute

lemma pipe_write_ends: "pipe_write p s q = Returns q' \<Longrightarrow> p_rd q' = p_rd q \<and> p_wr q' = p_wr q"
  by (auto simp: pipe_write_def split: if_splits)

lemma pipe_read_ends: "pipe_read p n q = Returns (d, q') \<Longrightarrow> p_rd q' = p_rd q \<and> p_wr q' = p_wr q"
  by (auto simp: pipe_read_def split: if_splits)

lemma ends_ok_ls: "ends_ok s \<Longrightarrow> exec_ls ok n s = Some t \<Longrightarrow> ends_ok t"
  by (cases "e_ls s") (auto simp: exec_ls_def ends_ok_def ends_defs dest!: pipe_write_ends split: if_splits io.splits)

lemma ends_ok_wc: "ends_ok s \<Longrightarrow> exec_wc wc ok n s = Some t \<Longrightarrow> ends_ok t"
  by (cases "e_wc s") (auto simp: exec_wc_def ends_ok_def ends_defs dest!: pipe_read_ends split: if_splits io.splits)

text \<open>A step of a child changes its own point, from one at which it lives to another.\<close>

lemma exec_ls_move:
  assumes "exec_ls ok n s = Some t"
  shows "\<not> ls_gone (e_ls s) \<and> \<not> ls_gone (e_ls t) \<and> e_par t = e_par s \<and> e_wc t = e_wc s \<and> e_pid1 t = e_pid1 s \<and> e_pid2 t = e_pid2 s"
  using assms by (cases "e_ls s") (auto simp: exec_ls_def exec_exit_def split: if_splits io.splits)

lemma exec_wc_move:
  assumes "exec_wc wc ok n s = Some t"
  shows "\<not> wc_gone (e_wc s) \<and> \<not> wc_gone (e_wc t) \<and> e_par t = e_par s \<and> e_ls t = e_ls s \<and> e_pid1 t = e_pid1 s \<and> e_pid2 t = e_pid2 s"
  using assms by (cases "e_wc s") (auto simp: exec_wc_def exec_exit_def split: if_splits io.splits)

lemma kids_ok_ls: "kids_ok s \<Longrightarrow> exec_ls ok n s = Some t \<Longrightarrow> kids_ok t"
  using kids_ls exec_ls_move by metis

lemma kids_ok_wc: "kids_ok s \<Longrightarrow> exec_wc wc ok n s = Some t \<Longrightarrow> kids_ok t"
  using kids_wc exec_wc_move by metis

text \<open>What the \<^verbatim>\<open>waitpid\<close> calls of the parent do: the first returns when \<^verbatim>\<open>ls\<close> is gone, the second when \<^verbatim>\<open>wc\<close> is.\<close>

lemma wait_ls_Some: "wait_ls s = Some t \<Longrightarrow> ls_gone (e_ls t) \<and> (t = s \<or> (\<exists>st. e_ls s = L_Zombie st \<and> t = s\<lparr>e_ls := L_Reaped st\<rparr>))"
  by (cases "e_ls s") (auto simp: wait_ls_def)

lemma wait_wc_Some: "wait_wc s = Some t \<Longrightarrow> wc_gone (e_wc t) \<and> (t = s \<or> (\<exists>st. e_wc s = W_Zombie st \<and> t = s\<lparr>e_wc := W_Reaped st\<rparr>))"
  by (cases "e_wc s") (auto simp: wait_wc_def)

lemma exec_wait1_cases:
  assumes "kids_ok s" and "exec_waitpid (e_pid1 s) s = Some t"
  obtains "t = s" "ls_gone (e_ls s)" "e_ls s = L_None \<longrightarrow> wc_gone (e_wc s)"
  | st where "e_ls s = L_Zombie st" "t = s\<lparr>e_ls := L_Reaped st\<rparr>"
  | st where "e_ls s = L_None" "e_wc s = W_Zombie st" "t = s\<lparr>e_wc := W_Reaped st\<rparr>"
proof (cases "e_ls s = L_None")
  case True
  with assms have "exec_waitpid None s = Some t" by (simp add: kids_def)
  with True that show ?thesis by (cases "e_wc s") (auto simp: exec_waitpid_def wait_wc_def)
next
  case False
  with assms have "wait_ls s = Some t" by (simp add: kids_def exec_waitpid_def)
  with False that wait_ls_Some show ?thesis by blast
qed

lemma exec_wait2_cases:
  assumes "kids_ok s" and "e_par s = EP_Wait2" and "exec_waitpid (e_pid2 s) s = Some t"
  obtains "t = s" "wc_gone (e_wc s)"
  | st where "e_wc s = W_Zombie st" "t = s\<lparr>e_wc := W_Reaped st\<rparr>"
proof (cases "e_wc s = W_None")
  case True
  with assms have "exec_waitpid None s = Some t" "ls_gone (e_ls s)" by (simp_all add: kids_def)
  with True that show ?thesis by (cases "e_ls s") (auto simp: exec_waitpid_def)
next
  case False
  with assms have "wait_wc s = Some t" by (simp add: kids_def exec_waitpid_def)
  with that wait_wc_Some show ?thesis by metis
qed

lemma kids_children:
  "kids EP_Header l w a b \<Longrightarrow> l = L_None \<and> w = W_None \<and> a = None \<and> b = None"
  "kids EP_Pipe l w a b \<Longrightarrow> l = L_None \<and> w = W_None \<and> a = None \<and> b = None"
  "kids EP_Fork1 l w a b \<Longrightarrow> l = L_None \<and> w = W_None \<and> a = None \<and> b = None"
  "kids EP_Fork2 l w a b \<Longrightarrow> w = W_None \<and> b = None"
  by (simp_all add: kids_def)

lemma kids_points:
  "kids p L_None W_None a b \<longleftrightarrow> a = None \<and> b = None"
  "kids EP_Fork2 L_CloseR W_None a b \<longleftrightarrow> a = Some E_Ls \<and> b = None"
  "kids EP_Fork2 l W_None a b \<Longrightarrow> kids EP_CloseR l W_CloseW a (Some E_Wc)"
  "kids EP_Fork2 l W_None a b \<Longrightarrow> kids EP_CloseR l W_None a None"
  "kids EP_CloseR l w a b \<Longrightarrow> kids EP_CloseW l w a b"
  "kids EP_CloseW l w a b \<Longrightarrow> kids EP_Wait1 l w a b"
  "kids EP_Wait1 (L_Zombie st) w a b \<Longrightarrow> kids EP_Wait2 (L_Reaped st) w a b"
  "kids EP_Wait1 L_None (W_Zombie st) a b \<Longrightarrow> kids EP_Wait2 L_None (W_Reaped st) a b"
  "kids EP_Wait1 l w a b \<Longrightarrow> ls_gone l \<Longrightarrow> l = L_None \<longrightarrow> wc_gone w \<Longrightarrow> kids EP_Wait2 l w a b"
  "kids EP_Wait2 l (W_Zombie st) a b \<Longrightarrow> kids EP_Return l (W_Reaped st) a b"
  "kids EP_Wait2 l w a b \<Longrightarrow> wc_gone w \<Longrightarrow> kids EP_Return l w a b"
  by (simp_all add: kids_def)

text \<open>The steps of the parent, one by one.\<close>

lemma exec_parent_cases:
  assumes "kids_ok s" and "exec_parent ok s = Some t"
  obtains (header) "e_par s = EP_Header" "e_ls s = L_None" "e_wc s = W_None" "t = s\<lparr>e_out := e_out s @ [exec_header], e_par := EP_Pipe\<rparr>"
  | (pipe) "e_par s = EP_Pipe" "e_ls s = L_None" "e_wc s = W_None" "t = s\<lparr>e_pipe := pipe_create (E_Parent, Orig), e_par := EP_Fork1\<rparr>"
  | (no_pipe) "e_par s = EP_Pipe" "e_ls s = L_None" "e_wc s = W_None" "t = s\<lparr>e_errs := e_errs s @ [''pipe''], e_par := EP_Return\<rparr>"
  | (fork1) "e_par s = EP_Fork1" "e_ls s = L_None" "e_wc s = W_None"
      "t = s\<lparr>e_pid1 := Some E_Ls, e_ls := L_CloseR, e_pipe := pipe_fork (E_Parent, Orig) (E_Ls, Orig) (e_pipe s), e_par := EP_Fork2\<rparr>"
  | (no_fork1) "e_par s = EP_Fork1" "e_ls s = L_None" "e_wc s = W_None" "t = s\<lparr>e_pid1 := None, e_par := EP_Fork2\<rparr>"
  | (fork2) "e_par s = EP_Fork2" "e_wc s = W_None"
      "t = s\<lparr>e_pid2 := Some E_Wc, e_wc := W_CloseW, e_pipe := pipe_fork (E_Parent, Orig) (E_Wc, Orig) (e_pipe s), e_par := EP_CloseR\<rparr>"
  | (no_fork2) "e_par s = EP_Fork2" "e_wc s = W_None" "t = s\<lparr>e_pid2 := None, e_par := EP_CloseR\<rparr>"
  | (closer) "e_par s = EP_CloseR" "t = s\<lparr>e_pipe := close_rd (E_Parent, Orig) (e_pipe s), e_par := EP_CloseW\<rparr>"
  | (closew) "e_par s = EP_CloseW" "t = s\<lparr>e_pipe := close_wr (E_Parent, Orig) (e_pipe s), e_par := EP_Wait1\<rparr>"
  | (wait1) "e_par s = EP_Wait1" "ls_gone (e_ls s)" "e_ls s = L_None \<longrightarrow> wc_gone (e_wc s)" "t = s\<lparr>e_par := EP_Wait2\<rparr>"
  | (reap1) st where "e_par s = EP_Wait1" "e_ls s = L_Zombie st" "t = s\<lparr>e_ls := L_Reaped st, e_par := EP_Wait2\<rparr>"
  | (any1) st where "e_par s = EP_Wait1" "e_ls s = L_None" "e_wc s = W_Zombie st" "t = s\<lparr>e_wc := W_Reaped st, e_par := EP_Wait2\<rparr>"
  | (wait2) "e_par s = EP_Wait2" "wc_gone (e_wc s)" "t = s\<lparr>e_par := EP_Return\<rparr>"
  | (reap2) st where "e_par s = EP_Wait2" "e_wc s = W_Zombie st" "t = s\<lparr>e_wc := W_Reaped st, e_par := EP_Return\<rparr>"
proof (cases "e_par s")
  case EP_Wait1
  with assms(2) obtain u where u: "exec_waitpid (e_pid1 s) s = Some u" "t = u\<lparr>e_par := EP_Wait2\<rparr>"
    by (auto simp: exec_parent_def)
  from assms(1) u(1) show ?thesis
    by (cases rule: exec_wait1_cases) (use EP_Wait1 u(2) wait1 reap1 any1 in simp_all)
next
  case EP_Wait2
  with assms(2) obtain u where u: "exec_waitpid (e_pid2 s) s = Some u" "t = u\<lparr>e_par := EP_Return\<rparr>"
    by (auto simp: exec_parent_def)
  from assms(1) EP_Wait2 u(1) show ?thesis
    by (cases rule: exec_wait2_cases) (use EP_Wait2 u(2) wait2 reap2 in simp_all)
next
  case EP_Header
  with assms kids_children show ?thesis by (intro header) (auto simp: exec_parent_def exec_header_def)
next
  case EP_Pipe
  with assms kids_children show ?thesis by (cases ok) (auto simp: exec_parent_def intro: pipe no_pipe)
next
  case EP_Fork1
  with assms kids_children show ?thesis by (cases ok) (auto simp: exec_parent_def intro: fork1 no_fork1)
next
  case EP_Fork2
  with assms kids_children show ?thesis by (cases ok) (auto simp: exec_parent_def intro: fork2 no_fork2)
next
  case EP_CloseR
  with assms(2) show ?thesis by (intro closer) (simp_all add: exec_parent_def)
next
  case EP_CloseW
  with assms(2) show ?thesis by (intro closew) (simp_all add: exec_parent_def)
next
  case EP_Return
  with assms(2) show ?thesis by (simp add: exec_parent_def)
qed

lemma ends_ok_parent:
  assumes "kids_ok s" and "exec_parent ok s = Some t" and "ends_ok s"
  shows "ends_ok t"
  using assms(1,2)
  by (cases rule: exec_parent_cases)
    (use assms(3) in \<open>simp_all add: ends_ok_def ends_defs pipe_create_def pipe_fork_def\<close>)

lemma kids_ok_parent:
  assumes "kids_ok s" and "exec_parent ok s = Some t"
  shows "kids_ok t"
  using assms
  by (cases rule: exec_parent_cases) (use assms(1) in \<open>simp_all add: kids_points\<close>)

section \<open>The bytes on their way\<close>

fun ls_status :: "els \<Rightarrow> ending option" where
  "ls_status (L_Zombie st) = Some st"
| "ls_status (L_Reaped st) = Some st"
| "ls_status _ = None"

fun wc_status :: "ewc \<Rightarrow> ending option" where
  "wc_status (W_Zombie st) = Some st"
| "wc_status (W_Reaped st) = Some st"
| "wc_status _ = None"

text \<open>
  Nothing is lost between \<^verbatim>\<open>ls\<close> and \<^verbatim>\<open>wc\<close>; \<^verbatim>\<open>ls\<close> is killed only when nobody can read; \<^verbatim>\<open>wc\<close> sees
  end of file only after \<^verbatim>\<open>ls\<close> has ended and the pipe is empty.
\<close>

definition data_ok :: "(string \<Rightarrow> string) \<Rightarrow> string \<Rightarrow> estate \<Rightarrow> bool" where
  "data_ok wc ls_out s \<longleftrightarrow>
     e_got s @ p_buf (e_pipe s) @ e_rest s = ls_out \<and>
     (e_ls s = L_None \<longrightarrow> p_buf (e_pipe s) = []) \<and>
     (ls_status (e_ls s) = Some (Exited 0) \<longrightarrow> e_rest s = []) \<and>
     (ls_status (e_ls s) = Some Killed \<longrightarrow> par_rd (e_par s) = {} \<and> wc_rd (e_wc s) = {} \<and> e_par s \<noteq> EP_Fork2) \<and>
     (wc_status (e_wc s) = Some (Exited 0) \<longrightarrow> ls_wr (e_ls s) = {} \<and> p_buf (e_pipe s) = []) \<and>
     e_out s = (if e_par s = EP_Header then [] else [exec_header]) @
       (if wc_status (e_wc s) = Some (Exited 0) then [wc (e_got s)] else [])"

text \<open>Steps of a child that touch no data.\<close>

definition same_data :: "estate \<Rightarrow> estate \<Rightarrow> bool" where
  "same_data s t \<longleftrightarrow> p_buf (e_pipe t) = p_buf (e_pipe s) \<and> e_rest t = e_rest s \<and> e_got t = e_got s \<and> e_out t = e_out s"

lemma data_ok_same_ls:
  assumes "data_ok wc ls_out s" and "same_data s t" and "e_par t = e_par s" and "e_wc t = e_wc s"
    and "ls_wr (e_ls s) \<noteq> {}" and "e_ls t \<noteq> L_None" and "ls_status (e_ls t) = None \<or> ls_status (e_ls t) = Some (Exited 1)"
  shows "data_ok wc ls_out t"
  using assms by (auto simp: data_ok_def same_data_def)

lemma data_ok_same_wc:
  assumes "data_ok wc ls_out s" and "same_data s t" and "e_par t = e_par s" and "e_ls t = e_ls s"
    and "wc_rd (e_wc s) \<noteq> {}" and "wc_status (e_wc s) = None" and "wc_status (e_wc t) = None \<or> wc_status (e_wc t) = Some (Exited 1)"
  shows "data_ok wc ls_out t"
  using assms unfolding data_ok_def same_data_def by auto

lemma ls_quiet_step:
  assumes "exec_ls ok n s = Some t" and "e_ls s \<noteq> L_Run"
  shows "same_data s t \<and> ls_wr (e_ls s) \<noteq> {} \<and> e_ls t \<noteq> L_None \<and> (ls_status (e_ls t) = None \<or> ls_status (e_ls t) = Some (Exited 1))"
  using assms
  by (cases "e_ls s") (auto simp: exec_ls_def same_data_def exec_exit_def pipe_exit_def close_rd_def close_wr_def split: if_splits)

lemma wc_quiet_step:
  assumes "exec_wc wc ok n s = Some t" and "e_wc s \<noteq> W_Run"
  shows "same_data s t \<and> wc_rd (e_wc s) \<noteq> {} \<and> wc_status (e_wc s) = None \<and> (wc_status (e_wc t) = None \<or> wc_status (e_wc t) = Some (Exited 1))"
  using assms
  by (cases "e_wc s") (auto simp: exec_wc_def same_data_def exec_exit_def pipe_exit_def close_rd_def close_wr_def)

text \<open>One step of the running \<^verbatim>\<open>ls\<close>: it ends, a chunk goes into the pipe, or nobody reads any more.\<close>

lemma ls_run_cases:
  assumes "exec_ls ok n s = Some t" and "e_ls s = L_Run"
  obtains "e_rest s = []" "t = exec_exit E_Ls (s\<lparr>e_ls := L_Zombie (Exited 0)\<rparr>)"
  | q where "pipe_write (E_Ls, Std) (take (Suc n) (e_rest s)) (e_pipe s) = Returns q" "e_rest s \<noteq> []"
      "t = s\<lparr>e_pipe := q, e_rest := drop (Suc n) (e_rest s)\<rparr>"
  | "p_rd (e_pipe s) = {}" "t = exec_exit E_Ls (s\<lparr>e_ls := L_Zombie Killed\<rparr>)"
  using assms by (auto simp: exec_ls_def pipe_write_def split: if_splits io.splits)

lemma wc_run_cases:
  assumes "exec_wc wc ok n s = Some t" and "e_wc s = W_Run"
  obtains "p_buf (e_pipe s) = []" "p_wr (e_pipe s) = {}"
      "t = exec_exit E_Wc (s\<lparr>e_out := e_out s @ [wc (e_got s)], e_wc := W_Zombie (Exited 0)\<rparr>)"
  | d q where "pipe_read (E_Wc, Std) (Suc n) (e_pipe s) = Returns (d, q)" "d \<noteq> []" "t = s\<lparr>e_pipe := q, e_got := e_got s @ d\<rparr>"
  using assms by (auto simp: exec_wc_def pipe_read_def split: if_splits)

lemma exec_exit_sel [simp]:
  "e_par (exec_exit p s) = e_par s" "e_ls (exec_exit p s) = e_ls s" "e_wc (exec_exit p s) = e_wc s"
  "e_rest (exec_exit p s) = e_rest s" "e_got (exec_exit p s) = e_got s" "e_out (exec_exit p s) = e_out s"
  "p_buf (e_pipe (exec_exit p s)) = p_buf (e_pipe s)"
  by (simp_all add: exec_exit_def pipe_exit_def close_rd_def close_wr_def)

lemma data_ok_ls:
  assumes "data_ok wc ls_out s" and "ends_ok s" and "exec_ls ok n s = Some t"
  shows "data_ok wc ls_out t"
proof (cases "e_ls s = L_Run")
  case True
  then have alive: "wc_status (e_wc s) \<noteq> Some (Exited 0)" using assms(1) by (auto simp: data_ok_def)
  from assms(3) True show ?thesis
  proof (cases rule: ls_run_cases)
    case 1
    with assms(1) alive show ?thesis by (simp add: data_ok_def)
  next
    case (2 q)
    with assms(1) alive True show ?thesis by (simp add: data_ok_def pipe_write_fifo [OF 2(1)])
  next
    case 3
    with assms(2) True have "par_rd (e_par s) = {}" "wc_rd (e_wc s) = {}" by (simp_all add: ends_ok_def)
    moreover from this have "e_par s \<noteq> EP_Fork2" by auto
    ultimately show ?thesis using assms(1) alive 3 by (simp add: data_ok_def)
  qed
next
  case False
  with assms ls_quiet_step exec_ls_move show ?thesis by (blast intro: data_ok_same_ls)
qed

lemma data_ok_wc:
  assumes "data_ok wc ls_out s" and "ends_ok s" and "exec_wc wc ok n s = Some t"
  shows "data_ok wc ls_out t"
proof (cases "e_wc s = W_Run")
  case True
  from assms(3) True show ?thesis
  proof (cases rule: wc_run_cases)
    case 1
    with assms(2) have "ls_wr (e_ls s) = {}" by (simp add: ends_ok_def)
    with assms(1) 1 True show ?thesis by (auto simp: data_ok_def)
  next
    case (2 d q)
    with assms(1) True pipe_read_fifo [OF 2(1)] show ?thesis by (auto simp: data_ok_def)
  qed
next
  case False
  with assms wc_quiet_step exec_wc_move show ?thesis by (blast intro: data_ok_same_wc)
qed

lemma data_ok_parent:
  assumes "kids_ok s" and "exec_parent ok s = Some t" and "data_ok wc ls_out s"
  shows "data_ok wc ls_out t"
  using assms(1,2)
  by (cases rule: exec_parent_cases;
      insert assms(3); clarsimp simp: data_ok_def close_rd_def close_wr_def pipe_fork_def pipe_create_def)

section \<open>Termination and progress\<close>

fun par_left :: "epar \<Rightarrow> nat" where
  "par_left EP_Header = 8"
| "par_left EP_Pipe = 7"
| "par_left EP_Fork1 = 6"
| "par_left EP_Fork2 = 5"
| "par_left EP_CloseR = 4"
| "par_left EP_CloseW = 3"
| "par_left EP_Wait1 = 2"
| "par_left EP_Wait2 = 1"
| "par_left EP_Return = 0"

fun ls_left :: "els \<Rightarrow> nat" where
  "ls_left L_None = 9"
| "ls_left L_CloseR = 8"
| "ls_left L_Dup = 7"
| "ls_left L_CloseW = 6"
| "ls_left L_Exec = 5"
| "ls_left L_Run = 4"
| "ls_left L_Perror = 3"
| "ls_left L_Exit = 2"
| "ls_left (L_Zombie st) = 1"
| "ls_left (L_Reaped st) = 0"

fun wc_left :: "ewc \<Rightarrow> nat" where
  "wc_left W_None = 9"
| "wc_left W_CloseW = 8"
| "wc_left W_Dup = 7"
| "wc_left W_CloseR = 6"
| "wc_left W_Exec = 5"
| "wc_left W_Run = 4"
| "wc_left W_Perror = 3"
| "wc_left W_Exit = 2"
| "wc_left (W_Zombie st) = 1"
| "wc_left (W_Reaped st) = 0"

text \<open>A byte is written once and read once.\<close>

definition exec_measure :: "estate \<Rightarrow> nat" where
  "exec_measure s = par_left (e_par s) + ls_left (e_ls s) + wc_left (e_wc s) +
     2 * length (e_rest s) + length (p_buf (e_pipe s))"

lemma ls_left_step: "exec_ls ok n s = Some t \<Longrightarrow> e_ls s \<noteq> L_Run \<Longrightarrow> ls_left (e_ls t) < ls_left (e_ls s)"
  by (cases "e_ls s") (auto simp: exec_ls_def)

lemma wc_left_step: "exec_wc wc ok n s = Some t \<Longrightarrow> e_wc s \<noteq> W_Run \<Longrightarrow> wc_left (e_wc t) < wc_left (e_wc s)"
  by (cases "e_wc s") (auto simp: exec_wc_def)

lemma exec_measure_ls:
  assumes "exec_ls ok n s = Some t"
  shows "exec_measure t < exec_measure s"
proof (cases "e_ls s = L_Run")
  case True
  from assms True show ?thesis
  proof (cases rule: ls_run_cases)
    case (2 q)
    then have "0 < length (e_rest s)" by simp
    then have "2 * (length (e_rest s) - Suc n) + min (length (e_rest s)) (Suc n) < 2 * length (e_rest s)" by linarith
    with 2 show ?thesis using True by (simp add: exec_measure_def pipe_write_fifo [OF 2(1)])
  qed (use True in \<open>simp_all add: exec_measure_def\<close>)
next
  case False
  with assms exec_ls_move [OF assms] ls_quiet_step ls_left_step show ?thesis
    by (fastforce simp: exec_measure_def same_data_def)
qed

lemma exec_measure_wc:
  assumes "exec_wc wc ok n s = Some t"
  shows "exec_measure t < exec_measure s"
proof (cases "e_wc s = W_Run")
  case True
  from assms True show ?thesis
  proof (cases rule: wc_run_cases)
    case (2 d q)
    from pipe_read_fifo [OF 2(1)] have "length d + length (p_buf q) = length (p_buf (e_pipe s))"
      by (metis length_append)
    moreover from 2 have "0 < length d" by simp
    ultimately have "length (p_buf q) < length (p_buf (e_pipe s))" by linarith
    with 2 show ?thesis using True by (simp add: exec_measure_def)
  qed (use True in \<open>simp_all add: exec_measure_def\<close>)
next
  case False
  with assms exec_wc_move [OF assms] wc_quiet_step wc_left_step show ?thesis
    by (fastforce simp: exec_measure_def same_data_def)
qed

lemma exec_measure_parent:
  assumes "kids_ok s" and "exec_parent ok s = Some t"
  shows "exec_measure t < exec_measure s"
  using assms
  by (cases rule: exec_parent_cases)
    (simp_all add: exec_measure_def close_rd_def close_wr_def pipe_fork_def pipe_create_def)

text \<open>A living child can go on, or waits for the other one, which can.\<close>

lemma wc_can_step:
  assumes "ends_ok s" and "wc_rd (e_wc s) \<noteq> {}" and "p_buf (e_pipe s) \<noteq> [] \<or> p_wr (e_pipe s) = {} \<or> e_wc s \<noteq> W_Run"
  shows "\<exists>t. exec_wc wc True 0 s = Some t"
  using assms by (cases "e_wc s") (auto simp: exec_wc_def ends_ok_def pipe_read_def)

lemma ls_can_step:
  assumes "ends_ok s" and "ls_wr (e_ls s) \<noteq> {}" and "par_rd (e_par s) = {}"
  shows "(\<exists>t. exec_ls True 0 s = Some t) \<or> wc_rd (e_wc s) \<noteq> {} \<and> p_buf (e_pipe s) \<noteq> []"
proof (cases "e_ls s = L_Run")
  case True
  show ?thesis
  proof (cases "e_rest s = [] \<or> p_rd (e_pipe s) = {} \<or> length (p_buf (e_pipe s)) < pipe_capacity")
    case True
    moreover have "length (take (Suc 0) (e_rest s)) = 1" if "e_rest s \<noteq> []" using that by (cases "e_rest s") simp_all
    ultimately show ?thesis
      using assms(1) \<open>e_ls s = L_Run\<close> by (auto simp: exec_ls_def pipe_write_def ends_ok_def)
  next
    case False
    with assms(1,3) True have "wc_rd (e_wc s) \<noteq> {}" by (simp add: ends_ok_def)
    with False show ?thesis by (auto simp: pipe_capacity_def)
  qed
next
  case False
  with assms(2) show ?thesis by (cases "e_ls s") (simp_all add: exec_ls_def)
qed

definition exec_inv :: "(string \<Rightarrow> string) \<Rightarrow> string \<Rightarrow> estate \<Rightarrow> bool" where
  "exec_inv wc ls_out s \<longleftrightarrow> kids_ok s \<and> ends_ok s \<and> data_ok wc ls_out s"

lemma ls_points: "ls_gone l \<or> (\<exists>st. l = L_Zombie st) \<or> ls_wr l \<noteq> {}"
  by (cases l) simp_all

lemma wc_points: "wc_gone w \<or> (\<exists>st. w = W_Zombie st) \<or> wc_rd w \<noteq> {}"
  by (cases w) simp_all

lemma gone_ends: "ls_gone l \<Longrightarrow> ls_wr l = {}" "wc_gone w \<Longrightarrow> wc_wr w = {}"
  by (cases l; simp) (cases w; simp)

text \<open>With \<^verbatim>\<open>ls\<close> gone and the parent waiting, \<^verbatim>\<open>wc\<close> is gone, has ended or can go on: it sees end of file.\<close>

lemma wc_not_stuck:
  assumes "ends_ok s" and "ls_wr (e_ls s) = {}" and "par_wr (e_par s) = {}" and "wc_rd (e_wc s) \<noteq> {}"
  shows "\<exists>t. exec_wc wc True 0 s = Some t"
proof (cases "e_wc s = W_Run")
  case True
  with assms have "p_wr (e_pipe s) = {}" by (simp add: ends_ok_def)
  with assms show ?thesis by (intro wc_can_step) simp_all
next
  case False
  with assms show ?thesis by (intro wc_can_step) simp_all
qed

lemma wait1_progress:
  assumes "kids_ok s" and "ends_ok s" and "e_par s = EP_Wait1"
  shows "\<exists>a t. exec_act wc a s = Some t"
proof -
  consider "e_ls s = L_None" | st where "e_ls s = L_Zombie st" | "ls_wr (e_ls s) \<noteq> {}"
    using ls_points [of "e_ls s"] assms(1,3) by (auto simp: kids_def)
  then show ?thesis
  proof cases
    case 1
    consider "wc_gone (e_wc s) \<or> (\<exists>st. e_wc s = W_Zombie st)" | "wc_rd (e_wc s) \<noteq> {}"
      using wc_points by blast
    then show ?thesis
    proof cases
      case 1
      with assms \<open>e_ls s = L_None\<close> have "\<exists>t. exec_act wc (A_Parent True) s = Some t"
        by (cases "e_wc s") (auto simp: exec_parent_def exec_waitpid_def wait_wc_def kids_def)
      then show ?thesis by blast
    next
      case 2
      with assms \<open>e_ls s = L_None\<close> wc_not_stuck [of s wc] have "\<exists>t. exec_act wc (A_Wc True 0) s = Some t" by simp
      then show ?thesis by blast
    qed
  next
    case 2
    with assms have "\<exists>t. exec_act wc (A_Parent True) s = Some t"
      by (simp add: exec_parent_def exec_waitpid_def wait_ls_def kids_def)
    then show ?thesis by blast
  next
    case 3
    with ls_can_step [OF assms(2)] wc_can_step [OF assms(2), of wc] assms(3)
    have "(\<exists>t. exec_act wc (A_Ls True 0) s = Some t) \<or> (\<exists>t. exec_act wc (A_Wc True 0) s = Some t)" by auto
    then show ?thesis by blast
  qed
qed

lemma wait2_progress:
  assumes "kids_ok s" and "ends_ok s" and "e_par s = EP_Wait2"
  shows "\<exists>a t. exec_act wc a s = Some t"
proof -
  from assms(1,3) have ls: "ls_gone (e_ls s)" by (simp add: kids_def)
  consider "wc_gone (e_wc s) \<or> (\<exists>st. e_wc s = W_Zombie st)" | "wc_rd (e_wc s) \<noteq> {}"
    using wc_points by blast
  then show ?thesis
  proof cases
    case 1
    have "\<exists>t. exec_waitpid (e_pid2 s) s = Some t"
    proof (cases "e_wc s = W_None")
      case True
      with ls assms(1) show ?thesis by (cases "e_ls s") (simp_all add: exec_waitpid_def kids_def)
    next
      case False
      with assms(1) have "e_pid2 s = Some E_Wc" by (simp add: kids_def)
      with 1 False show ?thesis by (cases "e_wc s") (simp_all add: exec_waitpid_def wait_wc_def)
    qed
    with assms(3) have "\<exists>t. exec_act wc (A_Parent True) s = Some t" by (auto simp: exec_parent_def)
    then show ?thesis by blast
  next
    case 2
    with assms gone_ends(1) [OF ls] wc_not_stuck [of s wc] have "\<exists>t. exec_act wc (A_Wc True 0) s = Some t" by simp
    then show ?thesis by blast
  qed
qed

lemma exec_progress:
  assumes "exec_inv wc ls_out s" and "e_par s \<noteq> EP_Return"
  shows "\<exists>t. exec_step wc s t"
proof -
  have "\<exists>a t. exec_act wc a s = Some t"
  proof (cases "e_par s \<in> {EP_Wait1, EP_Wait2}")
    case True
    moreover from assms(1) have "kids_ok s" "ends_ok s" by (simp_all add: exec_inv_def)
    ultimately show ?thesis using wait1_progress wait2_progress by blast
  next
    case False
    with assms(2) have "\<exists>t. exec_act wc (A_Parent True) s = Some t" by (cases "e_par s") (simp_all add: exec_parent_def)
    then show ?thesis by blast
  qed
  then show ?thesis by blast
qed

lemma exec_act_inv:
  assumes "exec_inv wc ls_out s" and "exec_act wc a s = Some t"
  shows "exec_inv wc ls_out t \<and> exec_measure t < exec_measure s"
proof (cases a)
  case (A_Parent ok)
  with assms have I: "kids_ok s" "ends_ok s" "data_ok wc ls_out s" and t: "exec_parent ok s = Some t"
    by (simp_all add: exec_inv_def)
  from kids_ok_parent [OF I(1) t] ends_ok_parent [OF I(1) t I(2)] data_ok_parent [OF I(1) t I(3)]
    exec_measure_parent [OF I(1) t]
  show ?thesis by (simp add: exec_inv_def)
next
  case (A_Ls ok n)
  with assms have I: "kids_ok s" "ends_ok s" "data_ok wc ls_out s" and t: "exec_ls ok n s = Some t"
    by (simp_all add: exec_inv_def)
  from kids_ok_ls [OF I(1) t] ends_ok_ls [OF I(2) t] data_ok_ls [OF I(3,2) t] exec_measure_ls [OF t]
  show ?thesis by (simp add: exec_inv_def)
next
  case (A_Wc ok n)
  with assms have I: "kids_ok s" "ends_ok s" "data_ok wc ls_out s" and t: "exec_wc wc ok n s = Some t"
    by (simp_all add: exec_inv_def)
  from kids_ok_wc [OF I(1) t] ends_ok_wc [OF I(2) t] data_ok_wc [OF I(3,2) t] exec_measure_wc [OF t]
  show ?thesis by (simp add: exec_inv_def)
qed

interpretation exec_sys: live_system "exec_step wc" "exec_start ls_out" "exec_inv wc ls_out" exec_measure
  "\<lambda>s. e_par s = EP_Return" for wc ls_out
proof
  show "exec_inv wc ls_out (exec_start ls_out)"
    by (simp add: exec_inv_def exec_start_def kids_points ends_ok_def data_ok_def no_pipe_def)
next
  fix s t
  assume "exec_inv wc ls_out s" and "exec_step wc s t"
  then show "exec_inv wc ls_out t" and "exec_measure t < exec_measure s" by (auto elim!: step_ofE dest: exec_act_inv)
qed (rule exec_progress)

text \<open>
  C5. The pipeline is the composition of its programs: when both children ran their program to its end,
  \<^verbatim>\<open>wc\<close> has printed what it prints on exactly the output of \<^verbatim>\<open>ls\<close>, however the bytes were cut into
  writes and reads and the processes interleaved.
\<close>

theorem exec_pipeline:
  assumes "(exec_step wc)\<^sup>*\<^sup>* (exec_start ls_out) s" and "e_par s = EP_Return"
    and "e_ls s = L_Reaped (Exited 0)" and "e_wc s = W_Reaped (Exited 0)"
  shows "e_out s = [exec_header, wc ls_out]"
proof -
  from exec_sys.reach_inv [OF assms(1)] have "data_ok wc ls_out s" by (simp add: exec_inv_def)
  with assms(2-4) show ?thesis by (auto simp: data_ok_def)
qed

text \<open>
  C18. \<open>pipe_exec_demo\<close> returns, whichever of \<^verbatim>\<open>pipe\<close>, the two \<^verbatim>\<open>fork\<close>s and the two \<^verbatim>\<open>execlp\<close>s fail:
  no execution is longer than 26 steps and two for every byte of \<^verbatim>\<open>ls\<close>, one that cannot go on has returned,
  and then every child is reaped and no descriptor of the pipe is left open.
\<close>

theorem exec_terminates:
  "(\<forall>n s. (exec_step wc ^^ n) (exec_start ls_out) s \<longrightarrow> n \<le> 26 + 2 * length ls_out)
   \<and> (\<forall>s. (exec_step wc)\<^sup>*\<^sup>* (exec_start ls_out) s \<longrightarrow> (\<nexists>t. exec_step wc s t) \<longrightarrow>
        e_par s = EP_Return \<and> ls_gone (e_ls s) \<and> wc_gone (e_wc s)
        \<and> p_rd (e_pipe s) = {} \<and> p_wr (e_pipe s) = {})"
proof (intro conjI allI impI)
  show "n \<le> 26 + 2 * length ls_out" if "(exec_step wc ^^ n) (exec_start ls_out) s" for n s
    using exec_sys.bounded_runs [OF that] by (simp add: exec_measure_def exec_start_def no_pipe_def)
next
  fix s
  assume r: "(exec_step wc)\<^sup>*\<^sup>* (exec_start ls_out) s" and "\<nexists>t. exec_step wc s t"
  then show par: "e_par s = EP_Return" by (rule exec_sys.stuck_is_final)
  from exec_sys.reach_inv [OF r] have I: "kids_ok s" "ends_ok s" by (simp_all add: exec_inv_def)
  from I(1) par show gone: "ls_gone (e_ls s)" "wc_gone (e_wc s)" by (simp_all add: kids_def)
  then have "ls_rd (e_ls s) = {}" "wc_rd (e_wc s) = {}" by (cases "e_ls s"; simp) (use gone in \<open>cases "e_wc s"; simp\<close>)
  with gone_ends gone I(2) par show "p_rd (e_pipe s) = {}" "p_wr (e_pipe s) = {}" by (simp_all add: ends_ok_def)
qed

text \<open>A run: one line of \<^verbatim>\<open>ls\<close>, written in two chunks, counted by \<^verbatim>\<open>wc\<close>.\<close>

definition count_lines :: "string \<Rightarrow> string" where
  "count_lines s = show_nat (length (filter (\<lambda>c. c = CHR 0x0A) s)) @ ''\<newline>''"

definition exec_sched :: "eactor list" where
  "exec_sched = [A_Parent True, A_Parent True, A_Parent True, A_Parent True, A_Parent True, A_Parent True,
     A_Ls True 1, A_Ls True 1, A_Ls True 1, A_Ls True 1, A_Ls True 1,
     A_Wc True 0, A_Wc True 0, A_Wc True 0, A_Wc True 0, A_Wc True 0,
     A_Ls True 1, A_Ls True 1, A_Wc True 0, A_Wc True 0, A_Wc True 0, A_Parent True, A_Parent True]"

lemma exec_sched_runs:
  "\<exists>s. (exec_step count_lines)\<^sup>*\<^sup>* (exec_start ''ab\<newline>'') s \<and> e_par s = EP_Return
    \<and> e_ls s = L_Reaped (Exited 0) \<and> e_wc s = W_Reaped (Exited 0)"
  by (rule run_sched_witness [where as = exec_sched])
    (simp add: exec_sched_def exec_start_def exec_parent_def exec_ls_def exec_wc_def exec_waitpid_def wait_ls_def
      wait_wc_def exec_exit_def pipe_defs pipe_capacity_def insert_Diff_if)

theorem exec_pipeline_witness:
  "\<exists>s. (exec_step count_lines)\<^sup>*\<^sup>* (exec_start ''ab\<newline>'') s \<and> e_par s = EP_Return \<and> e_out s = [exec_header, ''1\<newline>'']"
proof -
  have "count_lines ''ab\<newline>'' = ''1\<newline>''" by (simp add: count_lines_def show_eval)
  with exec_sched_runs exec_pipeline [of count_lines "''ab\<newline>''"] show ?thesis by metis
qed

theorem exec_terminates_witness:
  "\<exists>s. (exec_step count_lines)\<^sup>*\<^sup>* (exec_start ''ab\<newline>'') s \<and> e_par s = EP_Return
    \<and> p_rd (e_pipe s) = {} \<and> p_wr (e_pipe s) = {}"
proof -
  from exec_sched_runs obtain s where s: "(exec_step count_lines)\<^sup>*\<^sup>* (exec_start ''ab\<newline>'') s" "e_par s = EP_Return"
    "e_ls s = L_Reaped (Exited 0)" "e_wc s = W_Reaped (Exited 0)" by blast
  have "\<nexists>t. exec_step count_lines s t"
  proof (rule notI, elim exE step_ofE)
    fix t a
    assume "exec_act count_lines a s = Some t"
    with s show False by (cases a) (simp_all add: exec_parent_def exec_ls_def exec_wc_def)
  qed
  with s exec_terminates [of count_lines "''ab\<newline>''"] show ?thesis by blast
qed

end
