(* ===== verification/Pipe_Main.thy ===== *)
theory Pipe_Main
  imports Pipe_Bidirectional Pipe_Exec
begin

text \<open>
  \<^verbatim>\<open>pipe_capacity_demo\<close> and \<^verbatim>\<open>main\<close> of \<^verbatim>\<open>src/examples/pipe_demo.c\<close>. \<^verbatim>\<open>main\<close> runs the four demos one
  after the other, each a system of processes of its own; it goes on to the next one when the parent has
  returned, and ends with the process when a demo is killed.
\<close>

section \<open>The capacity demo\<close>

datatype cappc = CP_Header | CP_Pipe | CP_Query | CP_Close0 | CP_Close1 | CP_Return

record capstate =
  cap_pc :: cappc
  cap_pipe :: "proc pipe"
  cap_out :: "string list"
  cap_errs :: "string list"

definition capacity_header :: string where
  "capacity_header = ''\<newline>=== Pipe Capacity Demo ===\<newline>''"

text \<open>
  What the query prints: \<open>query\<close> is \<open>None\<close> where \<^verbatim>\<open>F_GETPIPE_SZ\<close> is not defined (as with the headers the file includes), and
  the result of \<^verbatim>\<open>fcntl\<close> otherwise.
\<close>

definition capacity_lines :: "int option \<Rightarrow> string list" where
  "capacity_lines query =
     (case query of
        Some capacity \<Rightarrow>
          (if capacity \<noteq> - 1
           then [''Pipe capacity: '' @ show_int capacity @ '' bytes ('' @ show_int (c_div capacity 1024) @ '' KB)\<newline>'']
           else [])
      | None \<Rightarrow> [''Pipe capacity query not supported on this system\<newline>'', ''Typical pipe capacity: 64 KB\<newline>''])"

text \<open>One statement of \<open>pipe_capacity_demo\<close>; \<open>ok\<close> is the outcome of \<^verbatim>\<open>pipe\<close>.\<close>

definition pipe_capacity_demo :: "int option \<Rightarrow> bool \<Rightarrow> capstate \<Rightarrow> capstate option" where
  "pipe_capacity_demo query ok s =
     (case cap_pc s of
        CP_Header \<Rightarrow> Some (s\<lparr>cap_out := cap_out s @ [capacity_header], cap_pc := CP_Pipe\<rparr>)
      | CP_Pipe \<Rightarrow>
          Some (if ok then s\<lparr>cap_pipe := pipe_create Parent, cap_pc := CP_Query\<rparr>
                else s\<lparr>cap_errs := cap_errs s @ [''pipe''], cap_pc := CP_Return\<rparr>)
      | CP_Query \<Rightarrow>
          Some (s\<lparr>cap_out := cap_out s @ capacity_lines query, cap_pc := CP_Close0\<rparr>)
      | CP_Close0 \<Rightarrow> Some (s\<lparr>cap_pipe := close_rd Parent (cap_pipe s), cap_pc := CP_Close1\<rparr>)
      | CP_Close1 \<Rightarrow> Some (s\<lparr>cap_pipe := close_wr Parent (cap_pipe s), cap_pc := CP_Return\<rparr>)
      | CP_Return \<Rightarrow> None)"

definition capacity_start :: capstate where
  "capacity_start = \<lparr>cap_pc = CP_Header, cap_pipe = no_pipe, cap_out = [], cap_errs = []\<rparr>"

fun cap_left :: "cappc \<Rightarrow> nat" where
  "cap_left CP_Header = 5"
| "cap_left CP_Pipe = 4"
| "cap_left CP_Query = 3"
| "cap_left CP_Close0 = 2"
| "cap_left CP_Close1 = 1"
| "cap_left CP_Return = 0"

text \<open>The descriptors are open between \<^verbatim>\<open>pipe\<close> and the two calls of \<^verbatim>\<open>close\<close>.\<close>

definition cap_inv :: "capstate \<Rightarrow> bool" where
  "cap_inv s \<longleftrightarrow> p_rd (cap_pipe s) = (if cap_pc s \<in> {CP_Query, CP_Close0} then {Parent} else {}) \<and>
     p_wr (cap_pipe s) = (if cap_pc s \<in> {CP_Query, CP_Close0, CP_Close1} then {Parent} else {})"

lemma cap_step:
  assumes "pipe_capacity_demo query ok s = Some t" and "cap_inv s"
  shows "cap_inv t \<and> cap_left (cap_pc t) < cap_left (cap_pc s)"
  using assms
  by (cases "cap_pc s"; cases ok; clarsimp simp: pipe_capacity_demo_def cap_inv_def pipe_create_def close_rd_def close_wr_def)

lemma cap_progress: "cap_pc s \<noteq> CP_Return \<Longrightarrow> \<exists>t. pipe_capacity_demo query ok s = Some t"
  by (cases "cap_pc s") (simp_all add: pipe_capacity_demo_def)

section \<open>main\<close>

datatype phase = P_Start | P_Simple | P_Bidir | P_Exec | P_Capacity | P_End | P_Done | P_Killed

record pmain =
  pm_phase :: phase
  pm_simple :: sstate
  pm_bidir :: bstate
  pm_exec :: estate
  pm_cap :: capstate
  pm_out :: "string list"

text \<open>What moves: a process of the demo that is running, or \<^verbatim>\<open>main\<close> itself.\<close>

datatype pactor = P_Main | P_S sactor | P_B bactor | P_E eactor | P_C bool

definition pipe_first_line :: string where
  "pipe_first_line = ''=== Pipe System Calls Demo ===\<newline>''"

definition pipe_last_line :: string where
  "pipe_last_line = ''\<newline>=== Demo Complete ===\<newline>''"

definition pipe_main :: "pmain \<Rightarrow> pmain option" where
  "pipe_main s =
     (case pm_phase s of
        P_Start \<Rightarrow> Some (s\<lparr>pm_out := pm_out s @ [pipe_first_line], pm_phase := P_Simple\<rparr>)
      | P_Simple \<Rightarrow> (if s_par (pm_simple s) = SP_Return then Some (s\<lparr>pm_phase := P_Bidir\<rparr>) else None)
      | P_Bidir \<Rightarrow>
          (if b_par (pm_bidir s) = BP_Return then Some (s\<lparr>pm_phase := P_Exec\<rparr>)
           else if b_par (pm_bidir s) = BP_Killed then Some (s\<lparr>pm_phase := P_Killed\<rparr>)
           else None)
      | P_Exec \<Rightarrow> (if e_par (pm_exec s) = EP_Return then Some (s\<lparr>pm_phase := P_Capacity\<rparr>) else None)
      | P_Capacity \<Rightarrow> (if cap_pc (pm_cap s) = CP_Return then Some (s\<lparr>pm_phase := P_End\<rparr>) else None)
      | P_End \<Rightarrow> Some (s\<lparr>pm_out := pm_out s @ [pipe_last_line], pm_phase := P_Done\<rparr>)
      | _ \<Rightarrow> None)"

fun pipe_act :: "(string \<Rightarrow> string) \<Rightarrow> int option \<Rightarrow> pactor \<Rightarrow> pmain \<Rightarrow> pmain option" where
  "pipe_act wc query P_Main s = pipe_main s"
| "pipe_act wc query (P_S a) s =
     (if pm_phase s = P_Simple then map_option (\<lambda>x. s\<lparr>pm_simple := x\<rparr>) (simple_act a (pm_simple s)) else None)"
| "pipe_act wc query (P_B a) s =
     (if pm_phase s = P_Bidir then map_option (\<lambda>x. s\<lparr>pm_bidir := x\<rparr>) (bidir_act a (pm_bidir s)) else None)"
| "pipe_act wc query (P_E a) s =
     (if pm_phase s = P_Exec then map_option (\<lambda>x. s\<lparr>pm_exec := x\<rparr>) (exec_act wc a (pm_exec s)) else None)"
| "pipe_act wc query (P_C ok) s =
     (if pm_phase s = P_Capacity then map_option (\<lambda>x. s\<lparr>pm_cap := x\<rparr>) (pipe_capacity_demo query ok (pm_cap s)) else None)"

definition pipe_start :: "string \<Rightarrow> string \<Rightarrow> pmain" where
  "pipe_start junk ls_out = \<lparr>pm_phase = P_Start, pm_simple = simple_start, pm_bidir = bidir_start junk,
     pm_exec = exec_start ls_out, pm_cap = capacity_start, pm_out = []\<rparr>"

abbreviation pipe_step :: "(string \<Rightarrow> string) \<Rightarrow> int option \<Rightarrow> pmain \<Rightarrow> pmain \<Rightarrow> bool" where
  "pipe_step wc query \<equiv> step_of (pipe_act wc query)"

fun phase_left :: "phase \<Rightarrow> nat" where
  "phase_left P_Start = 6"
| "phase_left P_Simple = 5"
| "phase_left P_Bidir = 4"
| "phase_left P_Exec = 3"
| "phase_left P_Capacity = 2"
| "phase_left P_End = 1"
| "phase_left P_Done = 0"
| "phase_left P_Killed = 0"

definition pipe_measure :: "pmain \<Rightarrow> nat" where
  "pipe_measure s = phase_left (pm_phase s) + simple_measure (pm_simple s) + bidir_measure (pm_bidir s) +
     exec_measure (pm_exec s) + cap_left (cap_pc (pm_cap s))"

text \<open>What is over in which phase.\<close>

definition phase_ok :: "pmain \<Rightarrow> bool" where
  "phase_ok s \<longleftrightarrow>
     (pm_phase s \<notin> {P_Start, P_Simple} \<longrightarrow> s_par (pm_simple s) = SP_Return) \<and>
     (pm_phase s \<in> {P_Exec, P_Capacity, P_End, P_Done} \<longrightarrow> b_par (pm_bidir s) = BP_Return) \<and>
     (pm_phase s = P_Killed \<longrightarrow> b_par (pm_bidir s) = BP_Killed) \<and>
     (pm_phase s \<in> {P_Capacity, P_End, P_Done} \<longrightarrow> e_par (pm_exec s) = EP_Return) \<and>
     (pm_phase s \<in> {P_End, P_Done} \<longrightarrow> cap_pc (pm_cap s) = CP_Return) \<and>
     pm_out s = (if pm_phase s = P_Start then [] else [pipe_first_line]) @
       (if pm_phase s = P_Done then [pipe_last_line] else [])"

definition pipe_inv :: "(string \<Rightarrow> string) \<Rightarrow> string \<Rightarrow> string \<Rightarrow> pmain \<Rightarrow> bool" where
  "pipe_inv wc junk ls_out s \<longleftrightarrow> phase_ok s \<and> simple_inv (pm_simple s) \<and> bidir_inv junk (pm_bidir s) \<and>
     exec_inv wc ls_out (pm_exec s) \<and> cap_inv (pm_cap s)"

lemma pipe_main_ok:
  assumes "pipe_main s = Some t" and "phase_ok s"
  shows "phase_ok t \<and> phase_left (pm_phase t) < phase_left (pm_phase s) \<and> pm_simple t = pm_simple s \<and>
    pm_bidir t = pm_bidir s \<and> pm_exec t = pm_exec s \<and> pm_cap t = pm_cap s"
  using assms by (cases "pm_phase s") (auto simp: pipe_main_def phase_ok_def split: if_splits)

lemma pipe_act_inv:
  assumes "pipe_inv wc junk ls_out s" and "pipe_act wc query a s = Some t"
  shows "pipe_inv wc junk ls_out t \<and> pipe_measure t < pipe_measure s"
proof (cases a)
  case P_Main
  with assms have "pipe_main s = Some t" "phase_ok s" by (simp_all add: pipe_inv_def)
  from pipe_main_ok [OF this] assms(1) show ?thesis by (simp add: pipe_inv_def pipe_measure_def)
next
  case (P_S b)
  with assms(2) obtain x where x: "pm_phase s = P_Simple" "simple_act b (pm_simple s) = Some x" "t = s\<lparr>pm_simple := x\<rparr>"
    by (auto split: if_splits)
  from assms(1) have "simple_inv (pm_simple s)" by (simp add: pipe_inv_def)
  with x(2) simple_sys.step_inv simple_sys.decreases have "simple_inv x \<and> simple_measure x < simple_measure (pm_simple s)" by blast
  with assms(1) x(1,3) show ?thesis by (simp add: pipe_inv_def pipe_measure_def phase_ok_def)
next
  case (P_B b)
  with assms(2) obtain x where x: "pm_phase s = P_Bidir" "bidir_act b (pm_bidir s) = Some x" "t = s\<lparr>pm_bidir := x\<rparr>"
    by (auto split: if_splits)
  from assms(1) have "bidir_inv junk (pm_bidir s)" by (simp add: pipe_inv_def)
  with x(2) bidir_sys.step_inv bidir_sys.decreases have "bidir_inv junk x \<and> bidir_measure x < bidir_measure (pm_bidir s)" by blast
  with assms(1) x(1,3) show ?thesis by (simp add: pipe_inv_def pipe_measure_def phase_ok_def)
next
  case (P_E b)
  with assms(2) obtain x where x: "pm_phase s = P_Exec" "exec_act wc b (pm_exec s) = Some x" "t = s\<lparr>pm_exec := x\<rparr>"
    by (auto split: if_splits)
  from assms(1) have "exec_inv wc ls_out (pm_exec s)" by (simp add: pipe_inv_def)
  from exec_act_inv [OF this x(2)] assms(1) x(1,3) show ?thesis by (simp add: pipe_inv_def pipe_measure_def phase_ok_def)
next
  case (P_C ok)
  with assms(2) obtain x where x: "pm_phase s = P_Capacity" "pipe_capacity_demo query ok (pm_cap s) = Some x" "t = s\<lparr>pm_cap := x\<rparr>"
    by (auto split: if_splits)
  from assms(1) have "cap_inv (pm_cap s)" by (simp add: pipe_inv_def)
  from cap_step [OF x(2) this] assms(1) x(1,3) show ?thesis by (simp add: pipe_inv_def pipe_measure_def phase_ok_def)
qed

text \<open>The progress of \<^verbatim>\<open>main\<close> is that of the demo that is running.\<close>

lemma pipe_progress:
  assumes "pipe_inv wc junk ls_out s" and "pm_phase s \<notin> {P_Done, P_Killed}"
  shows "\<exists>t. pipe_step wc query s t"
proof -
  from assms(1) have I: "simple_inv (pm_simple s)" "bidir_inv junk (pm_bidir s)" "exec_inv wc ls_out (pm_exec s)"
    by (simp_all add: pipe_inv_def)
  have "\<exists>a t. pipe_act wc query a s = Some t"
  proof (cases "pipe_main s")
    case (Some t)
    then show ?thesis by (metis pipe_act.simps(1))
  next
    case None
    with assms(2) consider "pm_phase s = P_Simple" "s_par (pm_simple s) \<noteq> SP_Return"
      | "pm_phase s = P_Bidir" "b_par (pm_bidir s) \<notin> {BP_Return, BP_Killed}"
      | "pm_phase s = P_Exec" "e_par (pm_exec s) \<noteq> EP_Return"
      | "pm_phase s = P_Capacity" "cap_pc (pm_cap s) \<noteq> CP_Return"
      by (cases "pm_phase s") (auto simp: pipe_main_def split: if_splits)
    then show ?thesis
    proof cases
      case 1
      with simple_progress [OF I(1)] obtain a x where "simple_act a (pm_simple s) = Some x" by (auto elim: step_ofE)
      with 1 have "pipe_act wc query (P_S a) s \<noteq> None" by simp
      then show ?thesis by blast
    next
      case 2
      with bidir_progress [OF I(2)] obtain a x where "bidir_act a (pm_bidir s) = Some x" by (auto elim: step_ofE)
      with 2 have "pipe_act wc query (P_B a) s \<noteq> None" by simp
      then show ?thesis by blast
    next
      case 3
      with exec_progress [OF I(3)] obtain a x where "exec_act wc a (pm_exec s) = Some x" by (auto elim: step_ofE)
      with 3 have "pipe_act wc query (P_E a) s \<noteq> None" by simp
      then show ?thesis by blast
    next
      case 4
      with cap_progress [of "pm_cap s" query True] have "pipe_act wc query (P_C True) s \<noteq> None" by auto
      then show ?thesis by blast
    qed
  qed
  then show ?thesis by blast
qed

interpretation pipe_sys: live_system "pipe_step wc query" "pipe_start junk ls_out" "pipe_inv wc junk ls_out" pipe_measure
  "\<lambda>s. pm_phase s \<in> {P_Done, P_Killed}" for wc query junk ls_out
proof
  show "pipe_inv wc junk ls_out (pipe_start junk ls_out)"
    using simple_sys.init_inv bidir_sys.init_inv exec_sys.init_inv
    by (simp add: pipe_inv_def pipe_start_def phase_ok_def cap_inv_def capacity_start_def no_pipe_def)
next
  fix s t
  assume "pipe_inv wc junk ls_out s" and "pipe_step wc query s t"
  then show "pipe_inv wc junk ls_out t" and "pipe_measure t < pipe_measure s" by (auto elim!: step_ofE dest: pipe_act_inv)
qed (rule pipe_progress)

text \<open>
  C19. \<^verbatim>\<open>main\<close> of \<open>pipe_demo\<close> ends, whatever the processes do and whichever calls fail, after at most 78 steps
  and two for every byte of \<^verbatim>\<open>ls\<close>; an execution that cannot go on has printed its last line, or it was killed by
  \<^verbatim>\<open>SIGPIPE\<close> in the bidirectional demo, without any child.
\<close>

theorem pipe_main_ends:
  "(\<forall>n s. (pipe_step wc query ^^ n) (pipe_start junk ls_out) s \<longrightarrow> n \<le> 78 + 2 * length ls_out)
   \<and> (\<forall>s. (pipe_step wc query)\<^sup>*\<^sup>* (pipe_start junk ls_out) s \<longrightarrow> (\<nexists>t. pipe_step wc query s t) \<longrightarrow>
        pm_phase s = P_Done \<and> pm_out s = [pipe_first_line, pipe_last_line]
        \<or> pm_phase s = P_Killed \<and> b_par (pm_bidir s) = BP_Killed \<and> b_chi (pm_bidir s) = BC_None)"
proof (intro conjI allI impI)
  show "n \<le> 78 + 2 * length ls_out" if "(pipe_step wc query ^^ n) (pipe_start junk ls_out) s" for n s
    using pipe_sys.bounded_runs [OF that]
    by (simp add: pipe_measure_def pipe_start_def simple_measure_def simple_start_def bidir_measure_def bidir_start_def
        exec_measure_def exec_start_def capacity_start_def no_pipe_def)
next
  fix s
  assume r: "(pipe_step wc query)\<^sup>*\<^sup>* (pipe_start junk ls_out) s" and "\<nexists>t. pipe_step wc query s t"
  then have fin: "pm_phase s \<in> {P_Done, P_Killed}" by (rule pipe_sys.stuck_is_final)
  from pipe_sys.reach_inv [OF r] have I: "phase_ok s" "bidir_inv junk (pm_bidir s)" by (simp_all add: pipe_inv_def)
  show "pm_phase s = P_Done \<and> pm_out s = [pipe_first_line, pipe_last_line]
        \<or> pm_phase s = P_Killed \<and> b_par (pm_bidir s) = BP_Killed \<and> b_chi (pm_bidir s) = BC_None"
  proof (cases "pm_phase s = P_Done")
    case True
    with I(1) show ?thesis by (simp add: phase_ok_def)
  next
    case False
    with fin I(1) have "pm_phase s = P_Killed" "b_par (pm_bidir s) = BP_Killed" by (auto simp: phase_ok_def)
    moreover from this bidir_end_cases [OF I(2)] have "b_chi (pm_bidir s) = BC_None" by auto
    ultimately show ?thesis by simp
  qed
qed

text \<open>A run in which every \<^verbatim>\<open>pipe\<close> fails.\<close>

definition no_pipes :: "pactor list" where
  "no_pipes = [P_Main, P_S (S_Parent True), P_S (S_Parent False), P_Main, P_B (B_Parent True), P_B (B_Parent False), P_Main,
     P_E (A_Parent True), P_E (A_Parent False), P_Main, P_C True, P_C False, P_Main, P_Main]"

theorem pipe_main_ends_witness:
  "\<exists>s. (pipe_step count_lines None)\<^sup>*\<^sup>* (pipe_start [] []) s \<and> pm_phase s = P_Done
     \<and> pm_out s = [pipe_first_line, pipe_last_line]"
proof -
  have "\<exists>s. (pipe_step count_lines None)\<^sup>*\<^sup>* (pipe_start [] []) s \<and> pm_phase s = P_Done"
    by (rule run_sched_witness [where as = no_pipes])
      (simp add: no_pipes_def pipe_start_def pipe_main_def simple_start_def simple_parent_def sprint_def bidir_start_def
        bidir_parent_def exec_start_def exec_parent_def capacity_start_def pipe_capacity_demo_def)
  then obtain s where s: "(pipe_step count_lines None)\<^sup>*\<^sup>* (pipe_start [] []) s" "pm_phase s = P_Done" by blast
  have "\<nexists>t. pipe_step count_lines None s t"
  proof (rule notI, elim exE step_ofE)
    fix t a
    assume "pipe_act count_lines None a s = Some t"
    with s(2) show False by (cases a) (simp_all add: pipe_main_def)
  qed
  with s pipe_main_ends [of count_lines None "[]" "[]"] show ?thesis by fastforce
qed

end
