(* ===== verification/Process_Manager.thy ===== *)
theory Process_Manager
  imports C_Library "HOL-Library.Word"
begin

text \<open>
  \<^verbatim>\<open>src/examples/process_manager.c\<close>: a parent that forks three children and waits for them. One step is
  one statement of one process. The environment chooses the results of \<^verbatim>\<open>fork\<close>, which of the ended
  children \<^verbatim>\<open>wait\<close> gives, the figures of \<^verbatim>\<open>getrusage\<close>, and may kill a child with a signal at any time.
  Every process has its own buffer of \<^verbatim>\<open>stdout\<close>, which \<^verbatim>\<open>fork\<close> copies and \<^verbatim>\<open>exit\<close> writes out; on a terminal
  (\<open>w_tty\<close>) it is written out at every newline too. What the parent prints is also kept in order (\<open>w_log\<close>).
\<close>

section \<open>Status words of wait\<close>

unbundle bit_operations_syntax

text \<open>The word the kernel makes when a process exits or is killed (\<open>core\<close>: with a core dump).\<close>

definition status_exit :: "int \<Rightarrow> int" where
  "status_exit code = push_bit 8 (code AND 255)"

definition status_kill :: "nat \<Rightarrow> bool \<Rightarrow> int" where
  "status_kill sig core = int sig OR (if core then 128 else 0)"

text \<open>The macros of \<^verbatim>\<open>sys/wait.h\<close>.\<close>

definition WTERMSIG :: "int \<Rightarrow> int" where
  "WTERMSIG st = st AND 127"

definition WIFEXITED :: "int \<Rightarrow> bool" where
  "WIFEXITED st \<longleftrightarrow> WTERMSIG st = 0"

definition WEXITSTATUS :: "int \<Rightarrow> int" where
  "WEXITSTATUS st = drop_bit 8 (st AND 65280)"

definition WIFSIGNALED :: "int \<Rightarrow> bool" where
  "WIFSIGNALED st \<longleftrightarrow> 0 < WTERMSIG st \<and> WTERMSIG st < 127"

lemma and_255: "(x::int) AND 255 = x mod 256"
  using take_bit_eq_mask [of 8 x] by (simp add: take_bit_eq_mod mask_eq_exp_minus_1)

lemma and_127: "(x::int) AND 127 = x mod 128"
  using take_bit_eq_mask [of 7 x] by (simp add: take_bit_eq_mod mask_eq_exp_minus_1)

lemma and_65280: "drop_bit 8 ((x::int) AND 65280) = (x div 256) mod 256"
proof -
  have "drop_bit 8 (x AND 65280) = drop_bit 8 x AND drop_bit 8 65280" by simp
  also have "\<dots> = drop_bit 8 x AND 255" by (simp add: drop_bit_eq_div)
  finally show ?thesis by (simp add: and_255 drop_bit_eq_div)
qed

lemma status_exit_mod: "status_exit c = 256 * (c mod 256)"
  by (simp add: status_exit_def and_255 push_bit_eq_mult)

lemma status_exit_decode: "WIFEXITED (status_exit c)" "WEXITSTATUS (status_exit c) = c mod 256"
proof -
  have "(256 * (c mod 256)) mod 128 = (0::int)"
    using mod_mult_self1_is_0 [of 128 "2 * (c mod 256)"] by simp
  then show "WIFEXITED (status_exit c)" by (simp add: WIFEXITED_def WTERMSIG_def and_127 status_exit_mod)
  show "WEXITSTATUS (status_exit c) = c mod 256"
    by (simp only: WEXITSTATUS_def and_65280 status_exit_mod) simp
qed

lemma status_kill_mod:
  assumes "sig < 127"
  shows "status_kill sig core mod 128 = int sig"
proof -
  have "status_kill sig core AND 127 = (int sig AND 127) OR ((if core then 128 else 0) AND 127)"
    unfolding status_kill_def by (rule bit_eqI) (auto simp: bit_simps)
  also have "\<dots> = int sig mod 128" by (simp add: and_127)
  finally show ?thesis using assms by (simp add: and_127)
qed

lemma status_kill_decode:
  assumes "0 < sig" and "sig < 127"
  shows "\<not> WIFEXITED (status_kill sig core)" "WIFSIGNALED (status_kill sig core)" "WTERMSIG (status_kill sig core) = int sig"
  using assms status_kill_mod [OF assms(2), of core]
  by (simp_all add: WIFEXITED_def WIFSIGNALED_def WTERMSIG_def and_127)

section \<open>The program\<close>

text \<open>What is printed; the constructors with one part have no newline at their end.\<close>

datatype wline = WL_Header | WL_Parent_Started | WL_Info int int int int | WL_Created nat int | WL_Waiting
  | WL_Terminated int | WL_Exit_Status int | WL_Signal int | WL_Usage "int \<times> int" "int \<times> int" | WL_All
  | WL_Child_Started nat | WL_Working nat nat | WL_Exiting nat nat

fun wline_text :: "wline \<Rightarrow> string" where
  "wline_text WL_Header = ''=== Process Manager Demo ===\<newline>\<newline>''"
| "wline_text WL_Parent_Started = ''[Parent] Started - ''"
| "wline_text (WL_Info p pp g sid) = ''PID: '' @ show_int p @ '', PPID: '' @ show_int pp @ '', PGID: '' @ show_int g @
     '', SID: '' @ show_int sid @ ''\<newline>''"
| "wline_text (WL_Created n p) = ''[Parent] Created child '' @ show_nat n @ '' with PID '' @ show_int p @ ''\<newline>''"
| "wline_text WL_Waiting = ''\<newline>[Parent] Waiting for children to complete...\<newline>\<newline>''"
| "wline_text (WL_Terminated p) = ''[Parent] Child PID '' @ show_int p @ '' terminated\<newline>''"
| "wline_text (WL_Exit_Status n) = ''         Exit status: '' @ show_int n @ ''\<newline>''"
| "wline_text (WL_Signal n) = ''         Killed by signal: '' @ show_int n @ ''\<newline>''"
| "wline_text (WL_Usage u y) = ''\<newline>[Parent] Children resource usage:\<newline>         User CPU time: '' @ show_int (fst u) @ ''.'' @
     zero_pad 6 (snd u) @ '' sec\<newline>         System CPU time: '' @ show_int (fst y) @ ''.'' @ zero_pad 6 (snd y) @ '' sec\<newline>''"
| "wline_text WL_All = ''\<newline>[Parent] All children completed. Exiting.\<newline>''"
| "wline_text (WL_Child_Started n) = ''[Child '' @ show_nat n @ ''] Started - ''"
| "wline_text (WL_Working n t) = ''[Child '' @ show_nat n @ ''] Working for '' @ show_nat t @ '' seconds...\<newline>''"
| "wline_text (WL_Exiting n t) = ''[Child '' @ show_nat n @ ''] Exiting with status '' @ show_nat t @ ''\<newline>''"

fun ends_line :: "wline \<Rightarrow> bool" where
  "ends_line WL_Parent_Started \<longleftrightarrow> False"
| "ends_line (WL_Child_Started n) \<longleftrightarrow> False"
| "ends_line _ \<longleftrightarrow> True"

text \<open>The statements of a child (\<^verbatim>\<open>child_task\<close>) and of the parent (\<^verbatim>\<open>main\<close>).\<close>

datatype task_pc = K_Started | K_Info | K_Working | K_Sleep | K_Exiting | K_Exit | K_Zombie int | K_Reaped int

record task =
  k_num :: nat
  k_pid :: int
  k_pc :: task_pc
  k_buf :: "wline list"

datatype wpc = W_Header | W_Started | W_Info | W_Fork nat | W_Perror | W_Created nat | W_Waiting | W_Wait nat
  | W_Term nat | W_Status nat | W_Usage | W_Final | W_Return | W_Ended int

record wstate =
  w_pc :: wpc
  w_tty :: bool
  w_pids :: "int list"
  w_status :: int
  w_child_pid :: int
  w_kids :: "task list"
  w_buf :: "wline list"
  w_screen :: "wline list"
  w_log :: "wline list"
  w_errs :: "string list"

text \<open>\<^verbatim>\<open>printf\<close> on a buffer: the new buffer, and what goes to the screen.\<close>

definition put :: "bool \<Rightarrow> wline \<Rightarrow> wline list \<Rightarrow> wline list \<times> wline list" where
  "put tty l buf = (if tty \<and> ends_line l then ([], buf @ [l]) else (buf @ [l], []))"

definition wprint :: "wline \<Rightarrow> wstate \<Rightarrow> wstate" where
  "wprint l s = (case put (w_tty s) l (w_buf s) of
     (b, x) \<Rightarrow> s\<lparr>w_buf := b, w_screen := w_screen s @ x, w_log := w_log s @ [l]\<rparr>)"

definition kprint :: "nat \<Rightarrow> task \<Rightarrow> wline \<Rightarrow> task_pc \<Rightarrow> wstate \<Rightarrow> wstate" where
  "kprint j k l pc s = (case put (w_tty s) l (k_buf k) of
     (b, x) \<Rightarrow> s\<lparr>w_kids := (w_kids s)[j := k\<lparr>k_buf := b, k_pc := pc\<rparr>], w_screen := w_screen s @ x\<rparr>)"

fun ended :: "task_pc \<Rightarrow> bool" where
  "ended (K_Zombie st) \<longleftrightarrow> True"
| "ended (K_Reaped st) \<longleftrightarrow> True"
| "ended _ \<longleftrightarrow> False"

fun reaped :: "task_pc \<Rightarrow> bool" where
  "reaped (K_Reaped st) \<longleftrightarrow> True"
| "reaped _ \<longleftrightarrow> False"

text \<open>
  What \<^verbatim>\<open>getpid\<close>, \<^verbatim>\<open>getppid\<close>, \<^verbatim>\<open>getpgid\<close> and \<^verbatim>\<open>getsid\<close> give in the parent, and the process that
  takes over orphans.
\<close>

record ids =
  i_pid :: int
  i_ppid :: int
  i_pgid :: int
  i_sid :: int
  i_reaper :: int

text \<open>One statement of child \<open>j\<close> (lines 22 to 31, with \<^verbatim>\<open>print_process_info\<close>).\<close>

definition child_task :: "ids \<Rightarrow> nat \<Rightarrow> wstate \<Rightarrow> wstate option" where
  "child_task ids j s =
     (if j < length (w_kids s) then
        (let k = w_kids s ! j in
         case k_pc k of
           K_Started \<Rightarrow> Some (kprint j k (WL_Child_Started (k_num k)) K_Info s)
         | K_Info \<Rightarrow>
             Some (kprint j k (WL_Info (k_pid k) (case w_pc s of W_Ended _ \<Rightarrow> i_reaper ids | _ \<Rightarrow> i_pid ids) (i_pgid ids) (i_sid ids))
                     K_Working s)
         | K_Working \<Rightarrow> Some (kprint j k (WL_Working (k_num k) (k_num k + 1)) K_Sleep s)
         | K_Sleep \<Rightarrow> Some (s\<lparr>w_kids := (w_kids s)[j := k\<lparr>k_pc := K_Exiting\<rparr>]\<rparr>)
         | K_Exiting \<Rightarrow> Some (kprint j k (WL_Exiting (k_num k) (k_num k)) K_Exit s)
         | K_Exit \<Rightarrow>
             Some (s\<lparr>w_kids := (w_kids s)[j := k\<lparr>k_buf := [], k_pc := K_Zombie (status_exit (int (k_num k)))\<rparr>],
                     w_screen := w_screen s @ k_buf k\<rparr>)
         | _ \<Rightarrow> None)
      else None)"

text \<open>A signal from outside ends a child; its buffer is lost.\<close>

definition kill_kid :: "nat \<Rightarrow> nat \<Rightarrow> bool \<Rightarrow> wstate \<Rightarrow> wstate option" where
  "kill_kid j sig core s =
     (if j < length (w_kids s) \<and> 0 < sig \<and> sig < 65 \<and> \<not> ended (k_pc (w_kids s ! j)) then
        Some (s\<lparr>w_kids := (w_kids s)[j := (w_kids s ! j)\<lparr>k_buf := [], k_pc := K_Zombie (status_kill sig core)\<rparr>]\<rparr>)
      else None)"

text \<open>What the kernel answers to the parent.\<close>

datatype answer = No_Answer | Forked int | Reap nat | Usage "((int \<times> int) \<times> (int \<times> int)) option"

text \<open>\<^verbatim>\<open>fork\<close>: a negative number, or the new and unused process id of a child with a copy of the buffer.\<close>

definition sys_fork :: "nat \<Rightarrow> int \<Rightarrow> wstate \<Rightarrow> wstate option" where
  "sys_fork i r s =
     (if r < 0 then Some (s\<lparr>w_pids := w_pids s @ [r], w_pc := W_Perror\<rparr>)
      else if r = 0 \<or> r \<in> set (w_pids s) then None
      else Some (s\<lparr>w_pids := w_pids s @ [r], w_pc := W_Created i,
                   w_kids := w_kids s @ [\<lparr>k_num = i + 1, k_pid = r, k_pc = K_Started, k_buf = w_buf s\<rparr>]\<rparr>))"

text \<open>\<^verbatim>\<open>wait\<close>: an ended child; \<^verbatim>\<open>-1\<close> when there is no child; otherwise it blocks.\<close>

definition sys_wait :: "nat \<Rightarrow> nat \<Rightarrow> wstate \<Rightarrow> wstate option" where
  "sys_wait n j s =
     (if list_all (\<lambda>k. reaped (k_pc k)) (w_kids s) then
        Some (s\<lparr>w_child_pid := - 1, w_errs := w_errs s @ [''wait''], w_pc := (if n + 1 < 3 then W_Wait (n + 1) else W_Usage)\<rparr>)
      else if j < length (w_kids s) then
        (case k_pc (w_kids s ! j) of
           K_Zombie st \<Rightarrow>
             Some (s\<lparr>w_kids := (w_kids s)[j := (w_kids s ! j)\<lparr>k_pc := K_Reaped st\<rparr>], w_child_pid := k_pid (w_kids s ! j),
                     w_status := st, w_pc := W_Term n\<rparr>)
         | _ \<Rightarrow> None)
      else None)"

text \<open>The line that describes a status (lines 74 to 79).\<close>

definition status_lines :: "int \<Rightarrow> wline list" where
  "status_lines st =
     (if WIFEXITED st then [WL_Exit_Status (WEXITSTATUS st)]
      else if WIFSIGNALED st then [WL_Signal (WTERMSIG st)]
      else [])"

text \<open>One statement of the parent (lines 33 to 93).\<close>

definition main_parent :: "ids \<Rightarrow> answer \<Rightarrow> wstate \<Rightarrow> wstate option" where
  "main_parent ids a s =
     (case w_pc s of
        W_Header \<Rightarrow> Some (wprint WL_Header s\<lparr>w_pc := W_Started\<rparr>)
      | W_Started \<Rightarrow> Some (wprint WL_Parent_Started s\<lparr>w_pc := W_Info\<rparr>)
      | W_Info \<Rightarrow> Some (wprint (WL_Info (i_pid ids) (i_ppid ids) (i_pgid ids) (i_sid ids)) s\<lparr>w_pc := W_Fork 0\<rparr>)
      | W_Fork i \<Rightarrow> (case a of Forked r \<Rightarrow> sys_fork i r s | _ \<Rightarrow> None)
      | W_Perror \<Rightarrow> Some (s\<lparr>w_errs := w_errs s @ [''fork''], w_screen := w_screen s @ w_buf s, w_buf := [], w_pc := W_Ended 1\<rparr>)
      | W_Created i \<Rightarrow>
          Some (wprint (WL_Created (i + 1) (w_pids s ! i)) s\<lparr>w_pc := (if i + 1 < 3 then W_Fork (i + 1) else W_Waiting)\<rparr>)
      | W_Waiting \<Rightarrow> Some (wprint WL_Waiting s\<lparr>w_pc := W_Wait 0\<rparr>)
      | W_Wait n \<Rightarrow> (case a of Reap j \<Rightarrow> sys_wait n j s | _ \<Rightarrow> None)
      | W_Term n \<Rightarrow> Some (wprint (WL_Terminated (w_child_pid s)) s\<lparr>w_pc := W_Status n\<rparr>)
      | W_Status n \<Rightarrow> Some (fold wprint (status_lines (w_status s)) s\<lparr>w_pc := (if n + 1 < 3 then W_Wait (n + 1) else W_Usage)\<rparr>)
      | W_Usage \<Rightarrow>
          (case a of
             Usage (Some (u, y)) \<Rightarrow> Some (wprint (WL_Usage u y) s\<lparr>w_pc := W_Final\<rparr>)
           | Usage None \<Rightarrow> Some (s\<lparr>w_pc := W_Final\<rparr>)
           | _ \<Rightarrow> None)
      | W_Final \<Rightarrow> Some (wprint WL_All s\<lparr>w_pc := W_Return\<rparr>)
      | W_Return \<Rightarrow> Some (s\<lparr>w_screen := w_screen s @ w_buf s, w_buf := [], w_pc := W_Ended 0\<rparr>)
      | W_Ended _ \<Rightarrow> None)"

datatype wactor = W_Parent answer | W_Child nat | W_Kill nat nat bool

fun manager_act :: "ids \<Rightarrow> wactor \<Rightarrow> wstate \<Rightarrow> wstate option" where
  "manager_act ids (W_Parent a) s = main_parent ids a s"
| "manager_act ids (W_Child j) s = child_task ids j s"
| "manager_act ids (W_Kill j sig core) s = kill_kid j sig core s"

definition manager_start :: "bool \<Rightarrow> wstate" where
  "manager_start tty = \<lparr>w_pc = W_Header, w_tty = tty, w_pids = [], w_status = 0, w_child_pid = 0, w_kids = [],
     w_buf = [], w_screen = [], w_log = [], w_errs = []\<rparr>"

abbreviation manager_step :: "ids \<Rightarrow> wstate \<Rightarrow> wstate \<Rightarrow> bool" where
  "manager_step ids \<equiv> step_of (manager_act ids)"

section \<open>Steps of the children\<close>

definition good_status :: "nat \<Rightarrow> int \<Rightarrow> bool" where
  "good_status n st \<longleftrightarrow> st = status_exit (int n) \<or> (\<exists>sig core. 0 < sig \<and> sig < 65 \<and> st = status_kill sig core)"

text \<open>All that the parent can see of a step of child \<open>j\<close>.\<close>

definition kid_move :: "nat \<Rightarrow> task \<Rightarrow> wstate \<Rightarrow> wstate \<Rightarrow> bool" where
  "kid_move j k s t \<longleftrightarrow> j < length (w_kids s) \<and> \<not> ended (k_pc (w_kids s ! j)) \<and> \<not> reaped (k_pc k) \<and>
     k_num k = k_num (w_kids s ! j) \<and> k_pid k = k_pid (w_kids s ! j) \<and>
     (\<forall>st. k_pc k = K_Zombie st \<longrightarrow> good_status (k_num k) st) \<and>
     t\<lparr>w_screen := []\<rparr> = s\<lparr>w_kids := (w_kids s)[j := k], w_screen := []\<rparr>"

lemma kid_move_sel:
  assumes "kid_move j k s t"
  shows "w_pc t = w_pc s" "w_tty t = w_tty s" "w_pids t = w_pids s" "w_status t = w_status s" "w_child_pid t = w_child_pid s"
    "w_kids t = (w_kids s)[j := k]" "w_buf t = w_buf s" "w_log t = w_log s" "w_errs t = w_errs s"
  using assms by (cases s; cases t; simp add: kid_move_def)+

fun kid_left :: "task_pc \<Rightarrow> nat" where
  "kid_left K_Started = 7"
| "kid_left K_Info = 6"
| "kid_left K_Working = 5"
| "kid_left K_Sleep = 4"
| "kid_left K_Exiting = 3"
| "kid_left K_Exit = 2"
| "kid_left (K_Zombie st) = 1"
| "kid_left (K_Reaped st) = 0"

lemma kprint_move:
  assumes "j < length (w_kids s)" and "\<not> ended (k_pc (w_kids s ! j))" and "\<not> ended pc"
    and "kid_left pc < kid_left (k_pc (w_kids s ! j))"
  shows "\<exists>k. kid_move j k s (kprint j (w_kids s ! j) l pc s) \<and> kid_left (k_pc k) < kid_left (k_pc (w_kids s ! j))"
proof -
  from assms(3) have "\<not> reaped pc" "\<forall>st. pc \<noteq> K_Zombie st" by (cases pc; simp)+
  with assms(1,2,4) show ?thesis
    by (intro exI [of _ "(w_kids s ! j)\<lparr>k_buf := fst (put (w_tty s) l (k_buf (w_kids s ! j))), k_pc := pc\<rparr>"])
      (simp add: kid_move_def kprint_def split_beta)
qed

lemma child_task_move:
  assumes "child_task ids j s = Some t"
  shows "\<exists>k. kid_move j k s t \<and> kid_left (k_pc k) < kid_left (k_pc (w_kids s ! j))"
proof -
  from assms have j: "j < length (w_kids s)" by (auto simp: child_task_def split: if_splits)
  show ?thesis
  proof (cases "k_pc (w_kids s ! j)")
    case K_Sleep
    with assms j show ?thesis by (auto simp: child_task_def kid_move_def intro!: exI [of _ "(w_kids s ! j)\<lparr>k_pc := K_Exiting\<rparr>"])
  next
    case K_Exit
    with assms j show ?thesis
      by (auto simp: child_task_def kid_move_def good_status_def Let_def
          intro!: exI [of _ "(w_kids s ! j)\<lparr>k_buf := [], k_pc := K_Zombie (status_exit (int (k_num (w_kids s ! j))))\<rparr>"])
  qed (use assms kprint_move [OF j] in \<open>auto simp: child_task_def Let_def j\<close>)
qed

lemma kill_kid_move:
  assumes "kill_kid j sig core s = Some t"
  shows "\<exists>k. kid_move j k s t \<and> kid_left (k_pc k) < kid_left (k_pc (w_kids s ! j))"
proof -
  have "1 < kid_left pc" if "\<not> ended pc" for pc using that by (cases pc) simp_all
  with assms show ?thesis
    by (intro exI [of _ "(w_kids s ! j)\<lparr>k_buf := [], k_pc := K_Zombie (status_kill sig core)\<rparr>"])
      (auto simp: kill_kid_def kid_move_def good_status_def split: if_splits)
qed

section \<open>The invariant\<close>

text \<open>How many children there are, and how many have been waited for, at each point of the parent.\<close>

fun pc_ok :: "wpc \<Rightarrow> bool" where
  "pc_ok (W_Fork i) \<longleftrightarrow> i < 3"
| "pc_ok (W_Created i) \<longleftrightarrow> i < 3"
| "pc_ok (W_Wait n) \<longleftrightarrow> n < 3"
| "pc_ok (W_Term n) \<longleftrightarrow> n < 3"
| "pc_ok (W_Status n) \<longleftrightarrow> n < 3"
| "pc_ok (W_Ended c) \<longleftrightarrow> c = 0 \<or> c = 1"
| "pc_ok _ \<longleftrightarrow> True"

fun failed :: "wpc \<Rightarrow> bool" where
  "failed W_Perror \<longleftrightarrow> True"
| "failed (W_Ended c) \<longleftrightarrow> c \<noteq> 0"
| "failed _ \<longleftrightarrow> False"

fun kid_count :: "wpc \<Rightarrow> nat" where
  "kid_count W_Header = 0"
| "kid_count W_Started = 0"
| "kid_count W_Info = 0"
| "kid_count (W_Fork i) = i"
| "kid_count (W_Created i) = i + 1"
| "kid_count _ = 3"

fun wait_count :: "wpc \<Rightarrow> nat" where
  "wait_count (W_Wait n) = n"
| "wait_count (W_Term n) = n + 1"
| "wait_count (W_Status n) = n + 1"
| "wait_count W_Usage = 3"
| "wait_count W_Final = 3"
| "wait_count W_Return = 3"
| "wait_count (W_Ended c) = (if c = 0 then 3 else 0)"
| "wait_count _ = 0"

abbreviation reaped_kids :: "task list \<Rightarrow> task list" where
  "reaped_kids ks \<equiv> filter (\<lambda>k. reaped (k_pc k)) ks"

definition shape :: "wpc \<Rightarrow> int list \<Rightarrow> nat list \<Rightarrow> int list \<Rightarrow> nat \<Rightarrow> bool" where
  "shape pc pids nums kpids r \<longleftrightarrow> pc_ok pc \<and> nums = map Suc [0..<length kpids] \<and> length kpids \<le> 3 \<and> distinct kpids \<and>
     (\<not> failed pc \<longrightarrow> length kpids = kid_count pc \<and> pids = kpids) \<and> r = wait_count pc"

abbreviation shape_ok :: "wstate \<Rightarrow> bool" where
  "shape_ok s \<equiv> shape (w_pc s) (w_pids s) (map k_num (w_kids s)) (map k_pid (w_kids s)) (length (reaped_kids (w_kids s)))"

definition status_ok :: "wstate \<Rightarrow> bool" where
  "status_ok s \<longleftrightarrow> (\<forall>k \<in> set (w_kids s). \<forall>st. k_pc k = K_Zombie st \<or> k_pc k = K_Reaped st \<longrightarrow> good_status (k_num k) st)"

lemma filter_update_neither: "\<not> P (xs ! j) \<Longrightarrow> \<not> P y \<Longrightarrow> filter P (xs[j := y]) = filter P xs"
  by (induction xs arbitrary: j) (auto split: nat.splits)

lemma map_update_same: "j < length xs \<Longrightarrow> f y = f (xs ! j) \<Longrightarrow> map f (xs[j := y]) = map f xs"
  by (metis list_update_id map_update)

lemma ended_reaped: "reaped pc \<Longrightarrow> ended pc"
  by (cases pc) simp_all

lemma kid_move_reaped:
  assumes "kid_move j k s t"
  shows "reaped_kids (w_kids t) = reaped_kids (w_kids s)"
  unfolding kid_move_sel(6) [OF assms]
  by (rule filter_update_neither) (use assms ended_reaped in \<open>auto simp: kid_move_def\<close>)

lemma kid_move_same:
  assumes "kid_move j k s t"
  shows "map k_pid (w_kids t) = map k_pid (w_kids s)" "map k_num (w_kids t) = map k_num (w_kids s)"
    "length (w_kids t) = length (w_kids s)"
  using assms by (simp_all add: kid_move_sel(6) [OF assms] map_update_same kid_move_def)

lemma shape_ok_kid: "shape_ok s \<Longrightarrow> kid_move j k s t \<Longrightarrow> shape_ok t"
  by (simp only: kid_move_same kid_move_reaped kid_move_sel(1,3))

lemma status_ok_kid:
  assumes "status_ok s" and "kid_move j k s t"
  shows "status_ok t"
proof -
  have "set (w_kids t) \<subseteq> insert k (set (w_kids s))"
    unfolding kid_move_sel(6) [OF assms(2)] by (rule set_update_subset_insert)
  moreover have "\<forall>st. k_pc k = K_Zombie st \<or> k_pc k = K_Reaped st \<longrightarrow> good_status (k_num k) st"
    using assms(2) by (auto simp: kid_move_def)
  ultimately show ?thesis using assms(1) unfolding status_ok_def by blast
qed

lemma wprint_sel [simp]:
  "w_pc (wprint l s) = w_pc s" "w_tty (wprint l s) = w_tty s" "w_pids (wprint l s) = w_pids s"
  "w_status (wprint l s) = w_status s" "w_child_pid (wprint l s) = w_child_pid s" "w_kids (wprint l s) = w_kids s"
  "w_log (wprint l s) = w_log s @ [l]" "w_errs (wprint l s) = w_errs s"
  by (simp_all add: wprint_def split: prod.split)

lemma fold_wprint_sel [simp]:
  "w_pc (fold wprint ls s) = w_pc s" "w_kids (fold wprint ls s) = w_kids s" "w_pids (fold wprint ls s) = w_pids s"
  "w_status (fold wprint ls s) = w_status s" "w_child_pid (fold wprint ls s) = w_child_pid s"
  "w_tty (fold wprint ls s) = w_tty s" "w_log (fold wprint ls s) = w_log s @ ls"
  by (induction ls arbitrary: s) simp_all

section \<open>Steps of the parent\<close>

lemma mset_filter_update:
  "j < length xs \<Longrightarrow> \<not> P (xs ! j) \<Longrightarrow> P y \<Longrightarrow> mset (filter P (xs[j := y])) = add_mset y (mset (filter P xs))"
  by (induction xs arbitrary: j) (auto split: nat.splits)

text \<open>While a child has not been waited for, \<^verbatim>\<open>wait\<close> gives an ended one.\<close>

lemma sys_wait_Some:
  assumes "sys_wait n j s = Some t" and "length (reaped_kids (w_kids s)) < length (w_kids s)"
  obtains st where "j < length (w_kids s)" "k_pc (w_kids s ! j) = K_Zombie st"
    "t = s\<lparr>w_kids := (w_kids s)[j := (w_kids s ! j)\<lparr>k_pc := K_Reaped st\<rparr>], w_child_pid := k_pid (w_kids s ! j),
           w_status := st, w_pc := W_Term n\<rparr>"
proof -
  from assms(2) have "\<not> list_all (\<lambda>k. reaped (k_pc k)) (w_kids s)"
    by (metis (no_types, lifting) filter_True less_irrefl list_all_iff)
  with assms(1) that show ?thesis by (auto simp: sys_wait_def split: if_splits task_pc.splits)
qed

text \<open>What the parent has said about a child it has waited for: its process id and its status word.\<close>

fun status_of :: "task_pc \<Rightarrow> int" where
  "status_of (K_Zombie st) = st"
| "status_of (K_Reaped st) = st"
| "status_of _ = 0"

definition verdict :: "task \<Rightarrow> int \<times> int" where
  "verdict k = (k_pid k, status_of (k_pc k))"

lemma wait_reaps:
  assumes "j < length ks" and "k_pc (ks ! j) = K_Zombie st"
  shows "mset (map verdict (reaped_kids (ks[j := (ks ! j)\<lparr>k_pc := K_Reaped st\<rparr>])))
      = add_mset (k_pid (ks ! j), st) (mset (map verdict (reaped_kids ks)))"
    and "length (reaped_kids (ks[j := (ks ! j)\<lparr>k_pc := K_Reaped st\<rparr>])) = Suc (length (reaped_kids ks))"
proof -
  have *: "mset (reaped_kids (ks[j := (ks ! j)\<lparr>k_pc := K_Reaped st\<rparr>]))
      = add_mset ((ks ! j)\<lparr>k_pc := K_Reaped st\<rparr>) (mset (reaped_kids ks))"
    by (rule mset_filter_update) (use assms in simp_all)
  then show "mset (map verdict (reaped_kids (ks[j := (ks ! j)\<lparr>k_pc := K_Reaped st\<rparr>])))
      = add_mset (k_pid (ks ! j), st) (mset (map verdict (reaped_kids ks)))"
    by (simp add: verdict_def del: mset_filter)
  from arg_cong [OF *, of size]
  show "length (reaped_kids (ks[j := (ks ! j)\<lparr>k_pc := K_Reaped st\<rparr>])) = Suc (length (reaped_kids ks))"
    by (simp only: size_mset size_add_mset)
qed

lemma shape_fork:
  assumes "shape (W_Fork i) pids nums kpids r" and "x \<notin> set kpids"
  shows "shape (W_Created i) (pids @ [x]) (nums @ [i + 1]) (kpids @ [x]) r"
  using assms by (auto simp: shape_def)

lemma shape_moves:
  "shape W_Header p nu kp r \<Longrightarrow> shape W_Started p nu kp r"
  "shape W_Started p nu kp r \<Longrightarrow> shape W_Info p nu kp r"
  "shape W_Info p nu kp r \<Longrightarrow> shape (W_Fork 0) p nu kp r"
  "shape (W_Fork i) p nu kp r \<Longrightarrow> shape W_Perror q nu kp r"
  "shape W_Perror p nu kp r \<Longrightarrow> shape (W_Ended 1) p nu kp r"
  "shape (W_Created i) p nu kp r \<Longrightarrow> i < 2 \<Longrightarrow> shape (W_Fork (Suc i)) p nu kp r"
  "shape (W_Created i) p nu kp r \<Longrightarrow> \<not> i < 2 \<Longrightarrow> shape W_Waiting p nu kp r"
  "shape W_Waiting p nu kp r \<Longrightarrow> shape (W_Wait 0) p nu kp r"
  "shape (W_Wait n) p nu kp r \<Longrightarrow> shape (W_Term n) p nu kp (Suc r)"
  "shape (W_Term n) p nu kp r \<Longrightarrow> shape (W_Status n) p nu kp r"
  "shape (W_Status n) p nu kp r \<Longrightarrow> n < 2 \<Longrightarrow> shape (W_Wait (Suc n)) p nu kp r"
  "shape (W_Status n) p nu kp r \<Longrightarrow> \<not> n < 2 \<Longrightarrow> shape W_Usage p nu kp r"
  "shape W_Usage p nu kp r \<Longrightarrow> shape W_Final p nu kp r"
  "shape W_Final p nu kp r \<Longrightarrow> shape W_Return p nu kp r"
  "shape W_Return p nu kp r \<Longrightarrow> shape (W_Ended 0) p nu kp r"
  by (auto simp: shape_def)

lemma shape_wait: "shape_ok s \<Longrightarrow> w_pc s = W_Wait n \<Longrightarrow> length (reaped_kids (w_kids s)) < length (w_kids s)"
  by (simp add: shape_def)

text \<open>The steps of the parent: it prints and goes on, forks, waits, or ends.\<close>

lemma main_parent_cases:
  assumes "shape_ok s" and "main_parent ids a s = Some t"
  obtains (header) "w_pc s = W_Header" "t = wprint WL_Header s\<lparr>w_pc := W_Started\<rparr>"
  | (started) "w_pc s = W_Started" "t = wprint WL_Parent_Started s\<lparr>w_pc := W_Info\<rparr>"
  | (info) "w_pc s = W_Info" "t = wprint (WL_Info (i_pid ids) (i_ppid ids) (i_pgid ids) (i_sid ids)) s\<lparr>w_pc := W_Fork 0\<rparr>"
  | (no_fork) i r where "w_pc s = W_Fork i" "r < 0" "t = s\<lparr>w_pids := w_pids s @ [r], w_pc := W_Perror\<rparr>"
  | (fork) i r where "w_pc s = W_Fork i" "0 < r" "r \<notin> set (w_pids s)"
      "t = s\<lparr>w_pids := w_pids s @ [r], w_pc := W_Created i,
             w_kids := w_kids s @ [\<lparr>k_num = i + 1, k_pid = r, k_pc = K_Started, k_buf = w_buf s\<rparr>]\<rparr>"
  | (perror) "w_pc s = W_Perror"
      "t = s\<lparr>w_errs := w_errs s @ [''fork''], w_screen := w_screen s @ w_buf s, w_buf := [], w_pc := W_Ended 1\<rparr>"
  | (created) i where "w_pc s = W_Created i"
      "t = wprint (WL_Created (i + 1) (w_pids s ! i)) s\<lparr>w_pc := (if i + 1 < 3 then W_Fork (i + 1) else W_Waiting)\<rparr>"
  | (waiting) "w_pc s = W_Waiting" "t = wprint WL_Waiting s\<lparr>w_pc := W_Wait 0\<rparr>"
  | (wait) n j st where "w_pc s = W_Wait n" "j < length (w_kids s)" "k_pc (w_kids s ! j) = K_Zombie st"
      "t = s\<lparr>w_kids := (w_kids s)[j := (w_kids s ! j)\<lparr>k_pc := K_Reaped st\<rparr>], w_child_pid := k_pid (w_kids s ! j),
             w_status := st, w_pc := W_Term n\<rparr>"
  | (reported) n where "w_pc s = W_Term n" "t = wprint (WL_Terminated (w_child_pid s)) s\<lparr>w_pc := W_Status n\<rparr>"
  | (status) n where "w_pc s = W_Status n"
      "t = fold wprint (status_lines (w_status s)) s\<lparr>w_pc := (if n + 1 < 3 then W_Wait (n + 1) else W_Usage)\<rparr>"
  | (usage) u where "w_pc s = W_Usage" "length u \<le> 1" "t = fold wprint u s\<lparr>w_pc := W_Final\<rparr>" "set u \<subseteq> {l. \<exists>x y. l = WL_Usage x y}"
  | (final) "w_pc s = W_Final" "t = wprint WL_All s\<lparr>w_pc := W_Return\<rparr>"
  | (return) "w_pc s = W_Return" "t = s\<lparr>w_screen := w_screen s @ w_buf s, w_buf := [], w_pc := W_Ended 0\<rparr>"
proof (cases "w_pc s")
  case (W_Fork i)
  with assms(2) obtain r where "sys_fork i r s = Some t" by (auto simp: main_parent_def split: answer.splits)
  with W_Fork no_fork [of i r] fork [of i r] show ?thesis by (auto simp: sys_fork_def split: if_splits)
next
  case (W_Wait n)
  with assms(2) obtain j where "sys_wait n j s = Some t" by (auto simp: main_parent_def split: answer.splits)
  then show ?thesis using W_Wait shape_wait [OF assms(1) W_Wait] by (elim sys_wait_Some) (auto intro: wait)
next
  case W_Usage
  with assms(2) obtain uy where uy: "a = Usage uy" by (auto simp: main_parent_def split: answer.splits)
  show ?thesis
  proof (cases uy)
    case None
    with assms(2) uy W_Usage show ?thesis by (intro usage [of "[]"]) (simp_all add: main_parent_def)
  next
    case (Some z)
    with assms(2) uy W_Usage show ?thesis
      by (intro usage [of "[WL_Usage (fst z) (snd z)]"]) (auto simp: main_parent_def split: prod.splits)
  qed
next
  case W_Header
  with assms(2) show ?thesis by (intro header) (simp_all add: main_parent_def)
next
  case W_Started
  with assms(2) show ?thesis by (intro started) (simp_all add: main_parent_def)
next
  case W_Info
  with assms(2) show ?thesis by (intro info) (simp_all add: main_parent_def)
next
  case W_Perror
  with assms(2) show ?thesis by (intro perror) (simp_all add: main_parent_def)
next
  case (W_Created i)
  with assms(2) show ?thesis by (intro created) (auto simp: main_parent_def)
next
  case W_Waiting
  with assms(2) show ?thesis by (intro waiting) (simp_all add: main_parent_def)
next
  case (W_Term n)
  with assms(2) show ?thesis by (intro reported) (auto simp: main_parent_def)
next
  case (W_Status n)
  with assms(2) show ?thesis by (intro status) (auto simp: main_parent_def)
next
  case W_Final
  with assms(2) show ?thesis by (intro final) (simp_all add: main_parent_def)
next
  case W_Return
  with assms(2) show ?thesis by (intro return) (simp_all add: main_parent_def)
next
  case (W_Ended c)
  with assms(2) show ?thesis by (simp add: main_parent_def)
qed

lemma shape_ok_parent:
  assumes "shape_ok s" and "main_parent ids a s = Some t"
  shows "shape_ok t"
  using assms
proof (cases rule: main_parent_cases)
  case (fork i r)
  with assms(1) have "r \<notin> set (map k_pid (w_kids s))" by (simp add: shape_def)
  from shape_fork [OF _ this] assms(1) fork show ?thesis by simp
next
  case (wait n j st)
  with assms(1) shape_moves(9) wait_reaps(2) [OF wait(2,3)] map_update_same [OF wait(2), of k_num] map_update_same [OF wait(2), of k_pid]
  show ?thesis by simp
qed (use assms(1) in \<open>simp_all add: shape_moves\<close>)

section \<open>What the parent prints\<close>

definition base_lines :: "ids \<Rightarrow> wline list" where
  "base_lines ids = [WL_Header, WL_Parent_Started, WL_Info (i_pid ids) (i_ppid ids) (i_pgid ids) (i_sid ids)]"

definition births :: "task list \<Rightarrow> wline list" where
  "births ks = map (\<lambda>k. WL_Created (k_num k) (k_pid k)) ks"

definition report :: "int \<times> int \<Rightarrow> wline list" where
  "report v = WL_Terminated (fst v) # status_lines (snd v)"

text \<open>
  The lines printed when the parent is at a point: \<open>bs\<close> announce the children, \<open>vs\<close> are the verdicts in the
  order of the waits (the last one not yet printed in full), \<open>u\<close> the resource usage.
\<close>

fun log_at :: "ids \<Rightarrow> wpc \<Rightarrow> wline list \<Rightarrow> (int \<times> int) list \<Rightarrow> wline list \<Rightarrow> wline list" where
  "log_at ids W_Header bs vs u = []"
| "log_at ids W_Started bs vs u = [WL_Header]"
| "log_at ids W_Info bs vs u = [WL_Header, WL_Parent_Started]"
| "log_at ids (W_Fork i) bs vs u = base_lines ids @ bs"
| "log_at ids (W_Created i) bs vs u = base_lines ids @ butlast bs"
| "log_at ids W_Waiting bs vs u = base_lines ids @ bs"
| "log_at ids (W_Term n) bs vs u = base_lines ids @ bs @ [WL_Waiting] @ concat (map report (butlast vs))"
| "log_at ids (W_Status n) bs vs u =
     base_lines ids @ bs @ [WL_Waiting] @ concat (map report (butlast vs)) @ [WL_Terminated (fst (last vs))]"
| "log_at ids W_Final bs vs u = base_lines ids @ bs @ [WL_Waiting] @ concat (map report vs) @ u"
| "log_at ids W_Return bs vs u = base_lines ids @ bs @ [WL_Waiting] @ concat (map report vs) @ u @ [WL_All]"
| "log_at ids (W_Ended c) bs vs u = base_lines ids @ bs @ [WL_Waiting] @ concat (map report vs) @ u @ [WL_All]"
| "log_at ids _ bs vs u = base_lines ids @ bs @ [WL_Waiting] @ concat (map report vs)"

fun reporting :: "wpc \<Rightarrow> bool" where
  "reporting (W_Term n) \<longleftrightarrow> True"
| "reporting (W_Status n) \<longleftrightarrow> True"
| "reporting _ \<longleftrightarrow> False"

definition usage_lines :: "wline list \<Rightarrow> bool" where
  "usage_lines u \<longleftrightarrow> length u \<le> 1 \<and> set u \<subseteq> {l. \<exists>x y. l = WL_Usage x y}"

definition log_with :: "ids \<Rightarrow> wstate \<Rightarrow> (int \<times> int) list \<Rightarrow> wline list \<Rightarrow> bool" where
  "log_with ids s vs u \<longleftrightarrow> mset vs = mset (map verdict (reaped_kids (w_kids s))) \<and>
     w_log s = log_at ids (w_pc s) (births (w_kids s)) vs u \<and>
     (reporting (w_pc s) \<longrightarrow> vs \<noteq> [] \<and> last vs = (w_child_pid s, w_status s)) \<and> usage_lines u"

definition log_ok :: "ids \<Rightarrow> wstate \<Rightarrow> bool" where
  "log_ok ids s \<longleftrightarrow> failed (w_pc s) \<or> (\<exists>vs u. log_with ids s vs u)"

lemma births_same: "map k_num ks = map k_num ks' \<Longrightarrow> map k_pid ks = map k_pid ks' \<Longrightarrow> births ks = births ks'"
  unfolding births_def by (induction ks ks' rule: list_induct2') auto

lemma log_ok_kid:
  assumes "log_ok ids s" and "kid_move j k s t"
  shows "log_ok ids t"
proof -
  have "births (w_kids t) = births (w_kids s)" by (rule births_same) (simp_all add: kid_move_same [OF assms(2)])
  with assms show ?thesis
    by (simp only: log_ok_def log_with_def kid_move_reaped [OF assms(2)] kid_move_sel(1,4,5,8) [OF assms(2)])
qed

lemma log_okI: "log_with ids s vs u \<Longrightarrow> log_ok ids s"
  by (auto simp: log_ok_def)

lemma log_ok_parent:
  assumes "shape_ok s" and "main_parent ids a s = Some t" and "log_ok ids s"
  shows "log_ok ids t"
  using assms(1,2)
proof (cases rule: main_parent_cases)
  case (fork i r)
  with assms(3) obtain vs u where "log_with ids s vs u" by (auto simp: log_ok_def)
  with fork have "log_with ids t vs u" by (simp add: log_with_def births_def)
  then show ?thesis by (rule log_okI)
next
  case (created i)
  with assms(1) have len: "length (w_kids s) = Suc i" "w_pids s ! i = k_pid (w_kids s ! i)"
    and nums: "map k_num (w_kids s) = map Suc [0..<Suc i]" by (auto simp: shape_def)
  from arg_cong [OF nums, of "\<lambda>xs. xs ! i"] len(1) have "k_num (w_kids s ! i) = Suc i" by (simp del: upt_Suc)
  moreover from len(1) have "w_kids s \<noteq> []" by auto
  ultimately have "births (w_kids s) \<noteq> []" "last (births (w_kids s)) = WL_Created (Suc i) (w_pids s ! i)"
    using len by (simp_all add: births_def last_map last_conv_nth)
  then have b: "butlast (births (w_kids s)) @ [WL_Created (Suc i) (w_pids s ! i)] = births (w_kids s)"
    by (metis append_butlast_last_id)
  from created assms(3) obtain vs u where "log_with ids s vs u" by (auto simp: log_ok_def)
  with created b have "log_with ids t vs u" by (auto simp: log_with_def)
  then show ?thesis by (rule log_okI)
next
  case (wait n j st)
  with assms(3) obtain vs u where v: "log_with ids s vs u" by (auto simp: log_ok_def)
  have "births (w_kids t) = births (w_kids s)"
    unfolding wait(4) by (rule births_same) (simp_all add: map_update_same wait(2))
  with v wait wait_reaps(1) [OF wait(2,3)] have "log_with ids t (vs @ [(k_pid (w_kids s ! j), st)]) u"
    by (simp add: log_with_def)
  then show ?thesis by (rule log_okI)
next
  case (status n)
  with assms(3) obtain vs u where v: "log_with ids s vs u" by (auto simp: log_ok_def)
  with status obtain ws where "vs = ws @ [(w_child_pid s, w_status s)]"
    by (simp add: log_with_def) (metis append_butlast_last_id)
  with v status have "log_with ids t vs u" by (auto simp: log_with_def report_def)
  then show ?thesis by (rule log_okI)
next
  case info
  with assms(1) have "births (w_kids s) = []" by (simp add: shape_def births_def)
  with info assms(3) show ?thesis by (auto simp: log_ok_def log_with_def base_lines_def)
next
  case waiting
  with assms(1) have "reaped_kids (w_kids s) = []" by (simp add: shape_def)
  with waiting assms(3) obtain u where "log_with ids s [] u" by (auto simp: log_ok_def log_with_def simp del: mset_filter)
  with waiting have "log_with ids t [] u" by (simp add: log_with_def)
  then show ?thesis by (rule log_okI)
next
  case (usage u)
  with assms(3) obtain vs u' where "log_with ids s vs u'" by (auto simp: log_ok_def)
  with usage have "log_with ids t vs u" by (simp add: log_with_def usage_lines_def)
  then show ?thesis by (rule log_okI)
qed (use assms(3) in \<open>auto simp: log_ok_def log_with_def base_lines_def\<close>)

section \<open>Termination and progress\<close>

fun parent_left :: "wpc \<Rightarrow> nat" where
  "parent_left W_Header = 43"
| "parent_left W_Started = 42"
| "parent_left W_Info = 41"
| "parent_left (W_Fork i) = 22 + 9 * (2 - i)"
| "parent_left W_Perror = 1"
| "parent_left (W_Created i) = 14 + 9 * (2 - i)"
| "parent_left W_Waiting = 13"
| "parent_left (W_Wait n) = 6 + 3 * (2 - n)"
| "parent_left (W_Term n) = 5 + 3 * (2 - n)"
| "parent_left (W_Status n) = 4 + 3 * (2 - n)"
| "parent_left W_Usage = 3"
| "parent_left W_Final = 2"
| "parent_left W_Return = 1"
| "parent_left (W_Ended c) = 0"

definition manager_measure :: "wstate \<Rightarrow> nat" where
  "manager_measure s = parent_left (w_pc s) + sum_list (map (\<lambda>k. kid_left (k_pc k)) (w_kids s))"

lemma manager_measure_kid:
  assumes "kid_move j k s t" and "kid_left (k_pc k) < kid_left (k_pc (w_kids s ! j))"
  shows "manager_measure t < manager_measure s"
proof -
  from assms(1) have "j < length (w_kids s)" by (simp add: kid_move_def)
  from sum_list_update_less [OF this, of "\<lambda>k. kid_left (k_pc k)" k] assms(2)
  show ?thesis by (simp add: manager_measure_def kid_move_sel(1,6) [OF assms(1)])
qed

lemma manager_measure_parent:
  assumes "shape_ok s" and "main_parent ids a s = Some t"
  shows "manager_measure t < manager_measure s"
  using assms
proof (cases rule: main_parent_cases)
  case (wait n j st)
  then have "sum_list (map (\<lambda>k. kid_left (k_pc k)) ((w_kids s)[j := (w_kids s ! j)\<lparr>k_pc := K_Reaped st\<rparr>]))
      < sum_list (map (\<lambda>k. kid_left (k_pc k)) (w_kids s))" by (intro sum_list_update_less) simp_all
  with wait show ?thesis by (simp add: manager_measure_def)
qed (auto simp: manager_measure_def)

fun over :: "wpc \<Rightarrow> bool" where
  "over (W_Ended c) \<longleftrightarrow> True"
| "over _ \<longleftrightarrow> False"

definition manager_final :: "wstate \<Rightarrow> bool" where
  "manager_final s \<longleftrightarrow> over (w_pc s) \<and> (\<forall>k \<in> set (w_kids s). ended (k_pc k))"

lemma task_can_step: "j < length (w_kids s) \<Longrightarrow> \<not> ended (k_pc (w_kids s ! j)) \<Longrightarrow> child_task ids j s \<noteq> None"
  by (cases "k_pc (w_kids s ! j)") (simp_all add: child_task_def Let_def)

text \<open>When all children have ended, the parent can go on: there is one to be waited for.\<close>

lemma parent_can_step:
  assumes "shape_ok s" and "\<forall>k \<in> set (w_kids s). ended (k_pc k)" and "\<not> over (w_pc s)"
  shows "\<exists>a. main_parent ids a s \<noteq> None"
proof (cases "w_pc s")
  case (W_Fork i)
  then have "main_parent ids (Forked (- 1)) s \<noteq> None" by (simp add: main_parent_def sys_fork_def)
  then show ?thesis ..
next
  case (W_Wait n)
  with shape_wait [OF assms(1)] have less: "length (reaped_kids (w_kids s)) < length (w_kids s)" by simp
  then have ex: "\<exists>k \<in> set (w_kids s). \<not> reaped (k_pc k)" by (metis (no_types, lifting) filter_True less_irrefl)
  then obtain j where j: "j < length (w_kids s)" "\<not> reaped (k_pc (w_kids s ! j))" by (auto simp: in_set_conv_nth)
  moreover from this assms(2) have "ended (k_pc (w_kids s ! j))" by simp
  ultimately obtain st where "k_pc (w_kids s ! j) = K_Zombie st" by (cases "k_pc (w_kids s ! j)") simp_all
  with W_Wait j ex have "main_parent ids (Reap j) s \<noteq> None" by (auto simp: main_parent_def sys_wait_def list_all_iff)
  then show ?thesis ..
next
  case W_Usage
  then have "main_parent ids (Usage None) s \<noteq> None" by (simp add: main_parent_def)
  then show ?thesis ..
qed (use assms(3) in \<open>simp_all add: main_parent_def\<close>)

lemma manager_progress:
  assumes "shape_ok s" and "\<not> manager_final s"
  shows "\<exists>t. manager_step ids s t"
proof -
  have "\<exists>a. manager_act ids a s \<noteq> None"
  proof (cases "\<forall>k \<in> set (w_kids s). ended (k_pc k)")
    case True
    with assms(2) have "\<not> over (w_pc s)" by (simp add: manager_final_def)
    from parent_can_step [OF assms(1) True this] obtain a where "main_parent ids a s \<noteq> None" by blast
    then have "manager_act ids (W_Parent a) s \<noteq> None" by simp
    then show ?thesis by blast
  next
    case False
    then obtain j where "j < length (w_kids s)" "\<not> ended (k_pc (w_kids s ! j))" by (auto simp: in_set_conv_nth)
    from task_can_step [OF this] have "manager_act ids (W_Child j) s \<noteq> None" by simp
    then show ?thesis by blast
  qed
  then show ?thesis by blast
qed

lemma status_ok_parent:
  assumes "shape_ok s" and "main_parent ids a s = Some t" and "status_ok s"
  shows "status_ok t"
  using assms(1,2)
proof (cases rule: main_parent_cases)
  case (wait n j st)
  have "set (w_kids t) \<subseteq> insert ((w_kids s ! j)\<lparr>k_pc := K_Reaped st\<rparr>) (set (w_kids s))"
    unfolding wait(4) using set_update_subset_insert by fastforce
  moreover have "good_status (k_num (w_kids s ! j)) st"
    using assms(3) wait(2,3) by (auto simp: status_ok_def)
  ultimately show ?thesis using assms(3) by (auto simp: status_ok_def)
qed (use assms(3) in \<open>auto simp: status_ok_def\<close>)

definition manager_inv :: "ids \<Rightarrow> wstate \<Rightarrow> bool" where
  "manager_inv ids s \<longleftrightarrow> shape_ok s \<and> status_ok s \<and> log_ok ids s"

lemma manager_act_inv:
  assumes "manager_inv ids s" and "manager_act ids a s = Some t"
  shows "manager_inv ids t \<and> manager_measure t < manager_measure s"
proof -
  from assms(1) have I: "shape_ok s" "status_ok s" "log_ok ids s" by (simp_all add: manager_inv_def)
  have task: ?thesis if "kid_move j k s t" "kid_left (k_pc k) < kid_left (k_pc (w_kids s ! j))" for j k
    using shape_ok_kid [OF I(1) that(1)] status_ok_kid [OF I(2) that(1)] log_ok_kid [OF I(3) that(1)]
      manager_measure_kid [OF that] by (simp add: manager_inv_def)
  show ?thesis
  proof (cases a)
    case (W_Parent x)
    with assms(2) have t: "main_parent ids x s = Some t" by simp
    from shape_ok_parent [OF I(1) t] status_ok_parent [OF I(1) t I(2)] log_ok_parent [OF I(1) t I(3)]
      manager_measure_parent [OF I(1) t] show ?thesis by (simp add: manager_inv_def)
  next
    case (W_Child j)
    with assms(2) child_task_move task show ?thesis by fastforce
  next
    case (W_Kill j sig core)
    with assms(2) kill_kid_move task show ?thesis by fastforce
  qed
qed

interpretation manager_sys: live_system "manager_step ids" "manager_start tty" "manager_inv ids" manager_measure manager_final
  for ids tty
proof
  show "manager_inv ids (manager_start tty)"
    by (simp add: manager_inv_def manager_start_def shape_def status_ok_def log_ok_def log_with_def births_def usage_lines_def
        exI [of _ "[]"])
next
  fix s t
  assume "manager_inv ids s" and "manager_step ids s t"
  then show "manager_inv ids t" and "manager_measure t < manager_measure s" by (auto elim!: step_ofE dest: manager_act_inv)
next
  fix s
  assume "manager_inv ids s" and "\<not> manager_final s"
  then show "\<exists>t. manager_step ids s t" by (intro manager_progress) (simp_all add: manager_inv_def)
qed

section \<open>Copies of the buffer\<close>

text \<open>A child that called \<^verbatim>\<open>exit\<close> has written out its buffer, a killed one has not.\<close>

fun flushed :: "task_pc \<Rightarrow> bool" where
  "flushed (K_Zombie st) \<longleftrightarrow> WIFEXITED st"
| "flushed (K_Reaped st) \<longleftrightarrow> WIFEXITED st"
| "flushed _ \<longleftrightarrow> False"

abbreviation headers :: "wline list \<Rightarrow> nat" where
  "headers ls \<equiv> count_list ls WL_Header"

definition tty_ok :: "wstate \<Rightarrow> bool" where
  "tty_ok s \<longleftrightarrow> headers (w_buf s) = 0 \<and> (\<forall>k \<in> set (w_kids s). headers (k_buf k) = 0) \<and>
     headers (w_screen s) = (if w_pc s = W_Header then 0 else 1)"

definition block_ok :: "wstate \<Rightarrow> bool" where
  "block_ok s \<longleftrightarrow> (w_pc s = W_Header \<longrightarrow> w_kids s = []) \<and>
     headers (w_buf s) = (if w_pc s = W_Header \<or> over (w_pc s) then 0 else 1) \<and>
     (\<forall>k \<in> set (w_kids s). \<not> ended (k_pc k) \<longrightarrow> headers (k_buf k) = 1) \<and>
     headers (w_screen s) = length (filter (\<lambda>k. flushed (k_pc k)) (w_kids s)) + (if over (w_pc s) then 1 else 0)"

text \<open>What a step of a child does to its buffer and the screen: it prints, exits or is killed.\<close>

definition kid_output :: "task \<Rightarrow> task \<Rightarrow> bool \<Rightarrow> wline list \<Rightarrow> bool" where
  "kid_output k k' tty x \<longleftrightarrow>
     \<not> ended (k_pc k') \<and> headers x + headers (k_buf k') = headers (k_buf k) \<and> (tty \<or> x = []) \<or>
     flushed (k_pc k') \<and> x = k_buf k \<and> k_buf k' = [] \<or>
     ended (k_pc k') \<and> \<not> flushed (k_pc k') \<and> x = [] \<and> k_buf k' = []"

definition kid_effect :: "nat \<Rightarrow> wstate \<Rightarrow> wstate \<Rightarrow> bool" where
  "kid_effect j s t \<longleftrightarrow>
     (\<exists>k' x. w_kids t = (w_kids s)[j := k'] \<and> w_screen t = w_screen s @ x \<and> kid_output (w_kids s ! j) k' (w_tty s) x)"

lemma kid_effectI:
  "w_kids t = (w_kids s)[j := k'] \<Longrightarrow> w_screen t = w_screen s @ x \<Longrightarrow> kid_output (w_kids s ! j) k' (w_tty s) x \<Longrightarrow> kid_effect j s t"
  by (auto simp: kid_effect_def)

lemma kprint_output:
  assumes "l \<noteq> WL_Header" and "\<not> ended pc"
  shows "kid_effect j s (kprint j (w_kids s ! j) l pc s)"
proof -
  obtain b x where bx: "put (w_tty s) l (k_buf (w_kids s ! j)) = (b, x)" by fastforce
  with assms have "kid_output (w_kids s ! j) ((w_kids s ! j)\<lparr>k_buf := b, k_pc := pc\<rparr>) (w_tty s) x"
    by (auto simp: put_def kid_output_def count_list_append split: if_splits)
  then show ?thesis by (intro kid_effectI) (simp_all add: kprint_def bx)
qed

lemma child_task_output:
  assumes "child_task ids j s = Some t"
  shows "kid_effect j s t"
  using assms
proof (cases "k_pc (w_kids s ! j)")
  case K_Sleep
  with assms show ?thesis
    by (intro kid_effectI [of _ _ _ "(w_kids s ! j)\<lparr>k_pc := K_Exiting\<rparr>" "[]"])
      (auto simp: child_task_def kid_output_def split: if_splits)
next
  case K_Exit
  with assms show ?thesis
    by (intro kid_effectI [of _ _ _ "(w_kids s ! j)\<lparr>k_buf := [], k_pc := K_Zombie (status_exit (int (k_num (w_kids s ! j))))\<rparr>"
        "k_buf (w_kids s ! j)"])
      (auto simp: child_task_def kid_output_def status_exit_decode Let_def split: if_splits)
qed (auto simp: child_task_def Let_def split: if_splits intro!: kprint_output)

lemma kill_kid_output:
  assumes "kill_kid j sig core s = Some t"
  shows "kid_effect j s t"
  using assms
  by (intro kid_effectI [of _ _ _ "(w_kids s ! j)\<lparr>k_buf := [], k_pc := K_Zombie (status_kill sig core)\<rparr>" "[]"])
    (auto simp: kill_kid_def kid_output_def status_kill_decode split: if_splits)

lemma set_update_all: "\<forall>k \<in> set ks. P k \<Longrightarrow> P k' \<Longrightarrow> \<forall>k \<in> set (ks[j := k']). P k"
  using set_update_subset_insert by fastforce

lemma tty_ok_kid:
  assumes "tty_ok s" and "w_kids t = (w_kids s)[j := k']" and "w_screen t = w_screen s @ x"
    and "kid_output (w_kids s ! j) k' tty x" and "w_pc t = w_pc s" and "w_buf t = w_buf s" and "j < length (w_kids s)"
  shows "tty_ok t"
proof -
  have "headers (k_buf (w_kids s ! j)) = 0" using assms(1,7) by (simp add: tty_ok_def)
  with assms(4) have "headers x = 0" "headers (k_buf k') = 0" by (auto simp: kid_output_def)
  moreover from this assms(1) have "\<forall>k \<in> set (w_kids t). headers (k_buf k) = 0"
    unfolding assms(2) by (intro set_update_all) (simp_all add: tty_ok_def)
  ultimately show ?thesis using assms(1,3,5,6) by (simp add: tty_ok_def count_list_append)
qed

lemma ended_flushed: "flushed pc \<Longrightarrow> ended pc"
  by (cases pc) simp_all

lemma block_ok_kid:
  assumes "block_ok s" and "w_kids t = (w_kids s)[j := k']" and "w_screen t = w_screen s @ x"
    and "kid_output (w_kids s ! j) k' False x" and "w_pc t = w_pc s" and "w_buf t = w_buf s" and "j < length (w_kids s)"
    and "\<not> ended (k_pc (w_kids s ! j))"
  shows "block_ok t"
proof -
  have one: "headers (k_buf (w_kids s ! j)) = 1" using assms(1,7,8) by (simp add: block_ok_def)
  have nf: "\<not> flushed (k_pc (w_kids s ! j))" using assms(8) ended_flushed by blast
  have kids: "\<forall>k \<in> set (w_kids t). \<not> ended (k_pc k) \<longrightarrow> headers (k_buf k) = 1"
    unfolding assms(2)
  proof (rule set_update_all)
    show "\<forall>k \<in> set (w_kids s). \<not> ended (k_pc k) \<longrightarrow> headers (k_buf k) = 1" using assms(1) by (simp add: block_ok_def)
    show "\<not> ended (k_pc k') \<longrightarrow> headers (k_buf k') = 1"
      using assms(4) one ended_flushed by (auto simp: kid_output_def)
  qed
  have "headers x + length (filter (\<lambda>k. flushed (k_pc k)) (w_kids s)) = length (filter (\<lambda>k. flushed (k_pc k)) (w_kids t))"
  proof (cases "flushed (k_pc k')")
    case True
    then have "x = k_buf (w_kids s ! j)" using assms(4) ended_flushed by (auto simp: kid_output_def)
    moreover have "size (mset (filter (\<lambda>k. flushed (k_pc k)) (w_kids t))) = Suc (size (mset (filter (\<lambda>k. flushed (k_pc k)) (w_kids s))))"
      unfolding assms(2) by (subst mset_filter_update) (use True nf assms(7) in simp_all)
    ultimately show ?thesis using one by (simp only: size_mset)
  next
    case False
    then have "x = []" using assms(4) by (auto simp: kid_output_def)
    moreover have "filter (\<lambda>k. flushed (k_pc k)) (w_kids t) = filter (\<lambda>k. flushed (k_pc k)) (w_kids s)"
      unfolding assms(2) by (rule filter_update_neither) (use False nf in simp_all)
    ultimately show ?thesis by simp
  qed
  with kids assms show ?thesis by (auto simp: block_ok_def count_list_append)
qed

lemma wprint_out:
  "\<not> w_tty s \<Longrightarrow> w_screen (wprint l s) = w_screen s \<and> w_buf (wprint l s) = w_buf s @ [l]"
  "w_tty s \<Longrightarrow> headers (w_screen (wprint l s)) + headers (w_buf (wprint l s)) = headers (w_screen s) + headers (w_buf s) + headers [l]"
  "w_tty s \<Longrightarrow> ends_line l \<Longrightarrow> w_buf (wprint l s) = []"
  by (simp_all add: wprint_def put_def count_list_append)

lemma fold_wprint_out:
  "\<not> w_tty s \<Longrightarrow> w_screen (fold wprint ls s) = w_screen s \<and> w_buf (fold wprint ls s) = w_buf s @ ls"
  "w_tty s \<Longrightarrow> headers (w_screen (fold wprint ls s)) + headers (w_buf (fold wprint ls s))
     = headers (w_screen s) + headers (w_buf s) + headers ls"
  "w_tty s \<Longrightarrow> headers (w_buf s) = 0 \<Longrightarrow> list_all ends_line ls \<Longrightarrow> headers (w_buf (fold wprint ls s)) = 0"
  by (induction ls arbitrary: s) (auto simp: wprint_out)

lemma status_lines_headers [simp]: "headers (status_lines st) = 0" "list_all ends_line (status_lines st)"
  by (simp_all add: status_lines_def)

lemma usage_headers:
  "set u \<subseteq> {l. \<exists>x y. l = WL_Usage x y} \<Longrightarrow> headers u = 0 \<and> list_all ends_line u"
  by (induction u) auto

text \<open>The parent on a terminal.\<close>

lemma tty_ok_pc [simp]: "pc \<noteq> W_Header \<Longrightarrow> w_pc s \<noteq> W_Header \<Longrightarrow> tty_ok (s\<lparr>w_pc := pc\<rparr>) = tty_ok s"
  by (simp add: tty_ok_def)

lemma tty_ok_wprint: "tty_ok s \<Longrightarrow> w_tty s \<Longrightarrow> w_pc s \<noteq> W_Header \<Longrightarrow> l \<noteq> WL_Header \<Longrightarrow> tty_ok (wprint l s)"
  by (auto simp: tty_ok_def wprint_def put_def count_list_append)

lemma tty_ok_fold:
  "tty_ok s \<Longrightarrow> w_tty s \<Longrightarrow> w_pc s \<noteq> W_Header \<Longrightarrow> headers ls = 0 \<Longrightarrow> tty_ok (fold wprint ls s)"
proof (induction ls arbitrary: s)
  case (Cons l ls)
  then show ?case by (simp add: tty_ok_wprint split: if_splits)
qed simp

lemma tty_ok_parent:
  assumes "shape_ok s" and "main_parent ids a s = Some t" and "tty_ok s" and "w_tty s"
  shows "tty_ok t"
  using assms(1,2)
proof (cases rule: main_parent_cases)
  case header
  with assms(3,4) show ?thesis by (simp add: tty_ok_def wprint_def put_def)
next
  case (fork i r)
  with assms(3) show ?thesis by (auto simp: tty_ok_def)
next
  case (wait n j st)
  with assms(3) have "\<forall>k \<in> set (w_kids t). headers (k_buf k) = 0"
    by (simp add: tty_ok_def) (intro set_update_all, simp_all)
  with wait assms(3) show ?thesis by (simp add: tty_ok_def)
next
  case (usage u)
  with assms(3,4) usage_headers show ?thesis by (simp add: tty_ok_fold)
next
  case (status n)
  with assms(3,4) show ?thesis by (simp add: tty_ok_fold)
next
  case (no_fork i r)
  with assms(3) show ?thesis by (simp add: tty_ok_def)
next
  case perror
  with assms(3) show ?thesis by (simp add: tty_ok_def count_list_append)
next
  case return
  with assms(3) show ?thesis by (simp add: tty_ok_def count_list_append)
qed (use assms(3,4) in \<open>auto simp: tty_ok_wprint\<close>)

text \<open>The parent with a buffer that only \<^verbatim>\<open>exit\<close> writes out.\<close>

lemma length_filter_update_same:
  "j < length xs \<Longrightarrow> P y = P (xs ! j) \<Longrightarrow> length (filter P (xs[j := y])) = length (filter P xs)"
  by (induction xs arbitrary: j) (auto split: nat.splits)

lemma block_ok_parent:
  assumes "shape_ok s" and "main_parent ids a s = Some t" and "block_ok s" and "\<not> w_tty s"
  shows "block_ok t"
  using assms(1,2)
proof (cases rule: main_parent_cases)
  case (fork i r)
  with assms(3) show ?thesis by (auto simp: block_ok_def)
next
  case (wait n j st)
  with assms(3) have "\<forall>k \<in> set (w_kids t). \<not> ended (k_pc k) \<longrightarrow> headers (k_buf k) = 1"
    by (simp add: block_ok_def) (intro set_update_all, simp_all)
  moreover have "length (filter (\<lambda>k. flushed (k_pc k)) (w_kids t)) = length (filter (\<lambda>k. flushed (k_pc k)) (w_kids s))"
    unfolding wait(4) using wait(2,3) by (simp add: length_filter_update_same)
  ultimately show ?thesis using wait assms(3) by (simp add: block_ok_def)
next
  case (usage u)
  with assms(3,4) usage_headers show ?thesis by (simp add: block_ok_def fold_wprint_out(1) count_list_append)
next
  case header
  with assms(3,4) show ?thesis by (simp add: block_ok_def wprint_out(1))
qed (use assms(3,4) in \<open>auto simp: block_ok_def wprint_out(1) fold_wprint_out(1) count_list_append\<close>)

definition out_ok :: "wstate \<Rightarrow> bool" where
  "out_ok s \<longleftrightarrow> (if w_tty s then tty_ok s else block_ok s)"

lemma out_ok_kid:
  assumes "out_ok s" and "kid_effect j s t" and "kid_move j k s t"
  shows "out_ok t"
proof -
  from assms(2) obtain k' x where e: "w_kids t = (w_kids s)[j := k']" "w_screen t = w_screen s @ x"
    "kid_output (w_kids s ! j) k' (w_tty s) x" by (auto simp: kid_effect_def)
  have m: "w_pc t = w_pc s" "w_buf t = w_buf s" "w_tty t = w_tty s" "j < length (w_kids s)" "\<not> ended (k_pc (w_kids s ! j))"
    using kid_move_sel [OF assms(3)] assms(3) by (simp_all add: kid_move_def)
  show ?thesis
  proof (cases "w_tty s")
    case True
    with assms(1) tty_ok_kid [OF _ e m(1,2,4)] m(3) show ?thesis by (simp add: out_ok_def)
  next
    case False
    with assms(1) block_ok_kid [OF _ e(1,2) _ m(1,2,4,5)] e(3) m(3) show ?thesis by (simp add: out_ok_def)
  qed
qed

lemma main_parent_tty:
  assumes "shape_ok s" and "main_parent ids a s = Some t"
  shows "w_tty t = w_tty s"
  using assms by (cases rule: main_parent_cases) simp_all

lemma out_ok_parent:
  assumes "shape_ok s" and "main_parent ids a s = Some t" and "out_ok s"
  shows "out_ok t"
  using assms tty_ok_parent [OF assms(1,2)] block_ok_parent [OF assms(1,2)] main_parent_tty [OF assms(1,2)]
  by (simp add: out_ok_def split: if_splits)

interpretation manager_out: invariant_system "manager_step ids" "manager_start tty"
  "\<lambda>s. manager_inv ids s \<and> out_ok s \<and> w_tty s = tty" for ids tty
proof
  show "manager_inv ids (manager_start tty) \<and> out_ok (manager_start tty) \<and> w_tty (manager_start tty) = tty"
    using manager_sys.init_inv [of ids tty] by (simp add: out_ok_def tty_ok_def block_ok_def manager_start_def)
next
  fix s t
  assume I: "manager_inv ids s \<and> out_ok s \<and> w_tty s = tty" and "manager_step ids s t"
  then obtain a where a: "manager_act ids a s = Some t" by (auto elim: step_ofE)
  from I have S: "shape_ok s" by (simp add: manager_inv_def)
  have "out_ok t \<and> w_tty t = w_tty s"
  proof (cases a)
    case (W_Parent x)
    with a have "main_parent ids x s = Some t" by simp
    from out_ok_parent [OF S this] main_parent_tty [OF S this] I show ?thesis by simp
  next
    case (W_Child j)
    with a have t: "child_task ids j s = Some t" by simp
    from child_task_move [OF this] obtain k where "kid_move j k s t" by blast
    with out_ok_kid [OF _ child_task_output [OF t]] I kid_move_sel(2) show ?thesis by blast
  next
    case (W_Kill j sig core)
    with a have t: "kill_kid j sig core s = Some t" by simp
    from kill_kid_move [OF this] obtain k where "kid_move j k s t" by blast
    with out_ok_kid [OF _ kill_kid_output [OF t]] I kid_move_sel(2) show ?thesis by blast
  qed
  with I manager_act_inv [OF _ a] show "manager_inv ids t \<and> out_ok t \<and> w_tty t = tty" by simp
qed

section \<open>Properties\<close>

text \<open>A line for every good status.\<close>

lemma good_status_lines:
  assumes "good_status n st" and "n < 256"
  shows "status_lines st = [WL_Exit_Status (int n)] \<or> (\<exists>sig. 0 < sig \<and> sig < 65 \<and> status_lines st = [WL_Signal (int sig)])"
  using assms(1) unfolding good_status_def
proof (elim disjE exE conjE)
  assume "st = status_exit (int n)"
  with assms(2) show ?thesis by (simp add: status_lines_def status_exit_decode)
next
  fix sig core
  assume "0 < sig" "sig < 65" "st = status_kill sig core"
  then show ?thesis by (intro disjI2 exI [of _ sig]) (simp add: status_lines_def status_kill_decode)
qed

text \<open>
  C6. When \<^verbatim>\<open>main\<close> of \<open>process_manager\<close> returns 0, in whatever order the children ended and whether or not some were
  killed, each of the three children has been waited for, and the parent has printed exactly one report per child: its
  process id, followed by its number as exit status, or by the signal that killed it.
\<close>

theorem manager_reports:
  assumes "(manager_step ids)\<^sup>*\<^sup>* (manager_start tty) s" and "w_pc s = W_Ended 0"
  shows "map k_num (w_kids s) = [1, 2, 3] \<and> distinct (map k_pid (w_kids s)) \<and> list_all (\<lambda>k. reaped (k_pc k)) (w_kids s)
    \<and> (\<exists>vs u. mset vs = mset (map verdict (w_kids s)) \<and> usage_lines u
        \<and> w_log s = base_lines ids @ births (w_kids s) @ [WL_Waiting] @ concat (map report vs) @ u @ [WL_All])
    \<and> list_all (\<lambda>k. status_lines (snd (verdict k)) = [WL_Exit_Status (int (k_num k))]
        \<or> (\<exists>sig. 0 < sig \<and> sig < 65 \<and> status_lines (snd (verdict k)) = [WL_Signal (int sig)])) (w_kids s)"
proof (intro conjI)
  from manager_sys.reach_inv [OF assms(1)] have I: "shape_ok s" "status_ok s" "log_ok ids s" by (simp_all add: manager_inv_def)
  from I(1) assms(2) have "map k_num (w_kids s) = map Suc [0..<3]" by (simp add: shape_def)
  then show nums: "map k_num (w_kids s) = [1, 2, 3]" by (simp add: upt_rec)
  from I(1) show "distinct (map k_pid (w_kids s))" by (simp add: shape_def)
  from I(1) assms(2) have "length (reaped_kids (w_kids s)) = length (w_kids s)" by (simp add: shape_def)
  then have all: "\<forall>k \<in> set (w_kids s). reaped (k_pc k)" by (metis (no_types, lifting) length_filter_less less_irrefl)
  then show "list_all (\<lambda>k. reaped (k_pc k)) (w_kids s)" by (simp add: list_all_iff)
  from all have "reaped_kids (w_kids s) = w_kids s" by simp
  with I(3) assms(2) show "\<exists>vs u. mset vs = mset (map verdict (w_kids s)) \<and> usage_lines u
        \<and> w_log s = base_lines ids @ births (w_kids s) @ [WL_Waiting] @ concat (map report vs) @ u @ [WL_All]"
    by (auto simp: log_ok_def log_with_def simp del: mset_filter)
  show "list_all (\<lambda>k. status_lines (snd (verdict k)) = [WL_Exit_Status (int (k_num k))]
        \<or> (\<exists>sig. 0 < sig \<and> sig < 65 \<and> status_lines (snd (verdict k)) = [WL_Signal (int sig)])) (w_kids s)"
    unfolding list_all_iff
  proof
    fix k
    assume k: "k \<in> set (w_kids s)"
    with all obtain st where st: "k_pc k = K_Reaped st" by (cases "k_pc k") auto
    from k have "k_num k \<in> set (map k_num (w_kids s))" by simp
    with nums have "k_num k < 256" by auto
    moreover from I(2) k st have "good_status (k_num k) st" by (auto simp: status_ok_def)
    ultimately show "status_lines (snd (verdict k)) = [WL_Exit_Status (int (k_num k))]
        \<or> (\<exists>sig. 0 < sig \<and> sig < 65 \<and> status_lines (snd (verdict k)) = [WL_Signal (int sig)])"
      using good_status_lines by (simp add: verdict_def st)
  qed
qed

text \<open>A run in which the second child is killed and the third ends first.\<close>

definition manager_sched :: "wactor list" where
  "manager_sched = [W_Parent No_Answer, W_Parent No_Answer, W_Parent No_Answer,
     W_Parent (Forked 11), W_Parent No_Answer, W_Parent (Forked 12), W_Parent No_Answer, W_Parent (Forked 13), W_Parent No_Answer,
     W_Parent No_Answer, W_Child 2, W_Child 2, W_Child 2, W_Child 2, W_Child 2, W_Child 2, W_Kill 1 9 False,
     W_Parent (Reap 2), W_Parent No_Answer, W_Parent No_Answer, W_Child 0, W_Child 0, W_Child 0, W_Child 0, W_Child 0, W_Child 0,
     W_Parent (Reap 1), W_Parent No_Answer, W_Parent No_Answer, W_Parent (Reap 0), W_Parent No_Answer, W_Parent No_Answer,
     W_Parent (Usage None), W_Parent No_Answer, W_Parent No_Answer]"

definition some_ids :: ids where
  "some_ids = \<lparr>i_pid = 10, i_ppid = 1, i_pgid = 10, i_sid = 1, i_reaper = 1\<rparr>"

lemmas manager_eval = manager_sched_def some_ids_def manager_start_def main_parent_def child_task_def kill_kid_def
  sys_fork_def sys_wait_def wprint_def kprint_def put_def status_exit_decode status_lines_def

lemma manager_sched_runs:
  "\<exists>s. (manager_step some_ids)\<^sup>*\<^sup>* (manager_start tty) s \<and> w_pc s = W_Ended 0
     \<and> map (\<lambda>k. k_pc k) (w_kids s) = [K_Reaped (status_exit 1), K_Reaped (status_kill 9 False), K_Reaped (status_exit 3)]"
  by (rule run_sched_witness [where as = manager_sched], cases tty)
    (simp_all add: manager_eval status_kill_decode)

theorem manager_reports_witness:
  "\<exists>s. (manager_step some_ids)\<^sup>*\<^sup>* (manager_start True) s \<and> w_pc s = W_Ended 0 \<and> map k_num (w_kids s) = [1, 2, 3]"
  using manager_sched_runs [of True] manager_reports [of some_ids True] by blast

text \<open>
  C29. \<open>process_manager\<close> has no deadlock and ends within 43 steps; an execution that cannot go on has ended the parent and
  every child, also when a \<^verbatim>\<open>fork\<close> fails and the parent leaves without waiting.
\<close>

theorem manager_terminates:
  "(\<forall>n s. (manager_step ids ^^ n) (manager_start tty) s \<longrightarrow> n \<le> 43)
   \<and> (\<forall>s. (manager_step ids)\<^sup>*\<^sup>* (manager_start tty) s \<longrightarrow> (\<nexists>t. manager_step ids s t) \<longrightarrow>
        (w_pc s = W_Ended 0 \<or> w_pc s = W_Ended 1) \<and> list_all (\<lambda>k. ended (k_pc k)) (w_kids s))"
proof (intro conjI allI impI)
  show "n \<le> 43" if "(manager_step ids ^^ n) (manager_start tty) s" for n s
    using manager_sys.bounded_runs [OF that] by (simp add: manager_measure_def manager_start_def)
next
  fix s
  assume r: "(manager_step ids)\<^sup>*\<^sup>* (manager_start tty) s" and "\<nexists>t. manager_step ids s t"
  then have f: "manager_final s" by (rule manager_sys.stuck_is_final)
  then show "list_all (\<lambda>k. ended (k_pc k)) (w_kids s)" by (simp add: manager_final_def list_all_iff)
  from manager_sys.reach_inv [OF r] have "pc_ok (w_pc s)" by (simp add: manager_inv_def shape_def)
  with f show "w_pc s = W_Ended 0 \<or> w_pc s = W_Ended 1" by (cases "w_pc s") (auto simp: manager_final_def)
qed

text \<open>The first \<^verbatim>\<open>fork\<close> fails.\<close>

theorem manager_terminates_witness:
  "\<exists>s. (manager_step some_ids)\<^sup>*\<^sup>* (manager_start True) s \<and> w_pc s = W_Ended 1 \<and> list_all (\<lambda>k. ended (k_pc k)) (w_kids s)"
proof -
  have "\<exists>s. (manager_step some_ids)\<^sup>*\<^sup>* (manager_start True) s \<and> w_pc s = W_Ended 1 \<and> w_kids s = []"
    by (rule run_sched_witness [where as = "[W_Parent No_Answer, W_Parent No_Answer, W_Parent No_Answer, W_Parent (Forked (- 1)),
          W_Parent No_Answer]"]) (simp add: manager_eval)
  then obtain s where s: "(manager_step some_ids)\<^sup>*\<^sup>* (manager_start True) s" "w_pc s = W_Ended 1" "w_kids s = []" by blast
  have "\<nexists>t. manager_step some_ids s t"
  proof (rule notI, elim exE step_ofE)
    fix t a
    assume "manager_act some_ids a s = Some t"
    with s show False by (cases a) (simp_all add: main_parent_def child_task_def kill_kid_def)
  qed
  with s manager_terminates [of some_ids True] show ?thesis by blast
qed

text \<open>
  C40. On a terminal the heading of \<open>process_manager\<close> appears once. Into a file or a pipe, where \<^verbatim>\<open>stdout\<close> is buffered
  as a whole, every child that exits writes out the copy of the buffer it got from \<^verbatim>\<open>fork\<close>: the heading appears once
  for the parent and once for each such child.
\<close>

theorem manager_header_copies:
  assumes "(manager_step ids)\<^sup>*\<^sup>* (manager_start tty) s" and "w_pc s = W_Ended 0"
  shows "count_list (w_screen s) WL_Header
    = (if tty then 1 else 1 + length (filter (\<lambda>k. WIFEXITED (snd (verdict k))) (w_kids s)))"
proof -
  from manager_out.reach_inv [OF assms(1)] have I: "manager_inv ids s" "out_ok s" "w_tty s = tty" by simp_all
  from I(1) assms(2) have "length (reaped_kids (w_kids s)) = length (w_kids s)" by (simp add: manager_inv_def shape_def)
  then have "\<forall>k \<in> set (w_kids s). reaped (k_pc k)" by (metis (no_types, lifting) length_filter_less less_irrefl)
  then have "flushed (k_pc k) = WIFEXITED (snd (verdict k))" if "k \<in> set (w_kids s)" for k
    using that by (cases "k_pc k") (auto simp: verdict_def)
  then have "filter (\<lambda>k. flushed (k_pc k)) (w_kids s) = filter (\<lambda>k. WIFEXITED (snd (verdict k))) (w_kids s)"
    by (rule filter_cong [OF refl])
  with I(2,3) assms(2) show ?thesis by (auto simp: out_ok_def tty_ok_def block_ok_def)
qed

theorem manager_header_copies_witness:
  "\<exists>s. (manager_step some_ids)\<^sup>*\<^sup>* (manager_start False) s \<and> w_pc s = W_Ended 0 \<and> count_list (w_screen s) WL_Header = 3"
proof -
  obtain s where s: "(manager_step some_ids)\<^sup>*\<^sup>* (manager_start False) s" "w_pc s = W_Ended 0"
    "map (\<lambda>k. k_pc k) (w_kids s) = [K_Reaped (status_exit 1), K_Reaped (status_kill 9 False), K_Reaped (status_exit 3)]"
    using manager_sched_runs [of False] by (elim exE conjE) (rule that)
  have "length (filter (\<lambda>k. WIFEXITED (snd (verdict k))) (w_kids s))
      = length (filter (\<lambda>pc. WIFEXITED (status_of pc)) (map (\<lambda>k. k_pc k) (w_kids s)))"
    by (simp add: filter_map verdict_def o_def)
  then have "length (filter (\<lambda>k. WIFEXITED (snd (verdict k))) (w_kids s)) = 2"
    unfolding s(3) by (simp add: status_exit_decode status_kill_decode)
  with manager_header_copies [OF s(1,2)] have "count_list (w_screen s) WL_Header = 3" by simp
  with s(1,2) show ?thesis by blast
qed

end
