(* ===== verification/Shm_Basic.thy ===== *)
theory Shm_Basic
  imports C_Library
begin

text \<open>
  \<^verbatim>\<open>demonstrate_basic_shm\<close> of \<^verbatim>\<open>src/examples/shm_demo.c\<close>: a parent and a child that share a
  \<^verbatim>\<open>struct shared_data\<close>. The child modifies it field by field, the message byte by byte; the parent only
  sleeps for a second before it reads, and its \<^verbatim>\<open>printf\<close> reads the message byte by byte too. Time is not part of the model:
  any interleaving is possible. The results of \<^verbatim>\<open>shmget\<close>, \<^verbatim>\<open>shmat\<close>, \<^verbatim>\<open>fork\<close> and of every \<^verbatim>\<open>shmctl\<close> are chosen by the
  environment. A segment that exists already is used as it is: \<open>old\<close> is what the bytes of the message hold.
\<close>

section \<open>The program\<close>

record shared_data =
  sg_counter :: int
  sg_message :: string
  sg_writer :: int

text \<open>The statements of the parent (lines 27 to 64 and 86 to 103) and of the child (lines 68 to 82).\<close>

datatype hpc = H_Start | H_Shmget | H_Print_Id | H_Shmat | H_Undo | H_Print_At | H_Zero | H_Strcpy | H_Nobody | H_Fork
  | H_Fork_Dt | H_Fork_Rm | H_Sleep | H_Print_After | H_Print_Counter | H_Read nat | H_Print_Writer | H_Wait
  | H_Shmdt | H_Rmid | H_Return

datatype gpc = G_None | G_Pid | G_Reading | G_Counter | G_Message | G_Set | G_Copy nat | G_Writer | G_Updated | G_Shmdt
  | G_Exit | G_Zombie | G_Reaped

datatype hline = HL_Header | HL_Perror string | HL_Created | HL_Attached | HL_After | HL_Counter int
  | HL_Message "string option" | HL_Writer int | HL_Removed | GL_Pid int | GL_Reading | GL_Counter int
  | GL_Message "string option" | GL_Updated

record hstate =
  h_par :: hpc
  h_chi :: gpc
  h_seg :: shared_data
  h_exists :: bool
  h_refused :: bool
  h_msg :: string
  h_att :: bool
  h_catt :: bool
  h_out :: "hline list"
  h_cout :: "hline list"

definition initial_message :: string where
  "initial_message = ''Initial message''"

definition modified_message :: string where
  "modified_message = ''Modified by child!'' @ [NUL]"

definition hprint :: "hline \<Rightarrow> hpc \<Rightarrow> hstate \<Rightarrow> hstate" where
  "hprint l p s = s\<lparr>h_out := h_out s @ [l], h_par := p\<rparr>"

text \<open>\<^verbatim>\<open>shmctl(shmid, IPC_RMID, NULL)\<close> where the result is ignored; \<open>h_refused\<close> records a failure.\<close>

definition basic_rmid :: "bool \<Rightarrow> hstate \<Rightarrow> hstate" where
  "basic_rmid ok s = (if ok then s\<lparr>h_exists := False\<rparr> else s\<lparr>h_refused := True\<rparr>)"

text \<open>
  \<^verbatim>\<open>%s\<close> reads byte \<open>i\<close> of the message: the NUL ends it, and without one in the array the behaviour is undefined
  (\<open>None\<close>). \<open>h_msg\<close> are the bytes read so far.
\<close>

definition read_byte :: "nat \<Rightarrow> hstate \<Rightarrow> hstate" where
  "read_byte i s =
     (let m = sg_message (h_seg s) in
      if length m \<le> i then hprint (HL_Message None) H_Print_Writer s
      else if m ! i = NUL then hprint (HL_Message (Some (h_msg s))) H_Print_Writer s
      else s\<lparr>h_msg := h_msg s @ [m ! i], h_par := H_Read (Suc i)\<rparr>)"

text \<open>One statement of the parent; \<open>ok\<close> is the outcome of a call that may fail.\<close>

definition basic_parent :: "bool \<Rightarrow> hstate \<Rightarrow> hstate option" where
  "basic_parent ok s =
     (case h_par s of
        H_Start \<Rightarrow> Some (hprint HL_Header H_Shmget s)
      | H_Shmget \<Rightarrow> Some (if ok then s\<lparr>h_exists := True, h_par := H_Print_Id\<rparr> else hprint (HL_Perror ''shmget'') H_Return s)
      | H_Print_Id \<Rightarrow> Some (hprint HL_Created H_Shmat s)
      | H_Shmat \<Rightarrow> Some (if ok then s\<lparr>h_att := True, h_par := H_Print_At\<rparr> else hprint (HL_Perror ''shmat'') H_Undo s)
      | H_Undo \<Rightarrow> Some ((basic_rmid ok s)\<lparr>h_par := H_Return\<rparr>)
      | H_Print_At \<Rightarrow> Some (hprint HL_Attached H_Zero s)
      | H_Zero \<Rightarrow> Some (s\<lparr>h_seg := (h_seg s)\<lparr>sg_counter := 0\<rparr>, h_par := H_Strcpy\<rparr>)
      | H_Strcpy \<Rightarrow>
          (case strcpy (sg_message (h_seg s)) initial_message of
             None \<Rightarrow> None
           | Some m \<Rightarrow> Some (s\<lparr>h_seg := (h_seg s)\<lparr>sg_message := m\<rparr>, h_par := H_Nobody\<rparr>))
      | H_Nobody \<Rightarrow> Some (s\<lparr>h_seg := (h_seg s)\<lparr>sg_writer := 0\<rparr>, h_par := H_Fork\<rparr>)
      | H_Fork \<Rightarrow>
          Some (if ok then s\<lparr>h_chi := G_Pid, h_catt := h_att s, h_par := H_Sleep\<rparr>
                else hprint (HL_Perror ''fork'') H_Fork_Dt s)
      | H_Fork_Dt \<Rightarrow> Some (s\<lparr>h_att := False, h_par := H_Fork_Rm\<rparr>)
      | H_Fork_Rm \<Rightarrow> Some ((basic_rmid ok s)\<lparr>h_par := H_Return\<rparr>)
      | H_Sleep \<Rightarrow> Some (s\<lparr>h_par := H_Print_After\<rparr>)
      | H_Print_After \<Rightarrow> Some (hprint HL_After H_Print_Counter s)
      | H_Print_Counter \<Rightarrow> Some (hprint (HL_Counter (sg_counter (h_seg s))) (H_Read 0) s)
      | H_Read i \<Rightarrow> Some (read_byte i s)
      | H_Print_Writer \<Rightarrow> Some (hprint (HL_Writer (sg_writer (h_seg s))) H_Wait s)
      | H_Wait \<Rightarrow> (if h_chi s = G_Zombie then Some (s\<lparr>h_chi := G_Reaped, h_par := H_Shmdt\<rparr>) else None)
      | H_Shmdt \<Rightarrow> Some (s\<lparr>h_att := False, h_par := H_Rmid\<rparr>)
      | H_Rmid \<Rightarrow>
          Some (hprint (if ok then HL_Removed else HL_Perror ''shmctl IPC_RMID'') H_Return (basic_rmid ok s))
      | H_Return \<Rightarrow> None)"

definition gprint :: "hline \<Rightarrow> gpc \<Rightarrow> hstate \<Rightarrow> hstate" where
  "gprint l p s = s\<lparr>h_cout := h_cout s @ [l], h_chi := p\<rparr>"

text \<open>One statement of the child, whose process id is \<open>pid\<close>; \<^verbatim>\<open>strcpy\<close> copies one byte per step.\<close>

definition basic_child :: "int \<Rightarrow> hstate \<Rightarrow> hstate option" where
  "basic_child pid s =
     (case h_chi s of
        G_Pid \<Rightarrow> Some (gprint (GL_Pid pid) G_Reading s)
      | G_Reading \<Rightarrow> Some (gprint GL_Reading G_Counter s)
      | G_Counter \<Rightarrow> Some (gprint (GL_Counter (sg_counter (h_seg s))) G_Message s)
      | G_Message \<Rightarrow> Some (gprint (GL_Message (c_string (sg_message (h_seg s)))) G_Set s)
      | G_Set \<Rightarrow> Some (s\<lparr>h_seg := (h_seg s)\<lparr>sg_counter := 42\<rparr>, h_chi := G_Copy 0\<rparr>)
      | G_Copy i \<Rightarrow>
          Some (s\<lparr>h_seg := (h_seg s)\<lparr>sg_message := (sg_message (h_seg s))[i := modified_message ! i]\<rparr>,
                  h_chi := (if modified_message ! i = NUL then G_Writer else G_Copy (Suc i))\<rparr>)
      | G_Writer \<Rightarrow> Some (s\<lparr>h_seg := (h_seg s)\<lparr>sg_writer := pid\<rparr>, h_chi := G_Updated\<rparr>)
      | G_Updated \<Rightarrow> Some (gprint GL_Updated G_Shmdt s)
      | G_Shmdt \<Rightarrow> Some (s\<lparr>h_catt := False, h_chi := G_Exit\<rparr>)
      | G_Exit \<Rightarrow> Some (s\<lparr>h_chi := G_Zombie\<rparr>)
      | _ \<Rightarrow> None)"

datatype hactor = H_Parent bool | H_Child

fun basic_act :: "int \<Rightarrow> hactor \<Rightarrow> hstate \<Rightarrow> hstate option" where
  "basic_act pid (H_Parent ok) s = basic_parent ok s"
| "basic_act pid H_Child s = basic_child pid s"

text \<open>The array \<^verbatim>\<open>message\<close> has 100 bytes.\<close>

definition message_bytes :: "string \<Rightarrow> string" where
  "message_bytes old = take 100 (old @ replicate 100 NUL)"

definition basic_start :: "string \<Rightarrow> hstate" where
  "basic_start old = \<lparr>h_par = H_Start, h_chi = G_None,
     h_seg = \<lparr>sg_counter = 0, sg_message = message_bytes old, sg_writer = 0\<rparr>,
     h_exists = False, h_refused = False, h_msg = [], h_att = False, h_catt = False, h_out = [], h_cout = []\<rparr>"

abbreviation basic_step :: "int \<Rightarrow> hstate \<Rightarrow> hstate \<Rightarrow> bool" where
  "basic_step pid \<equiv> step_of (basic_act pid)"

text \<open>The lines as printed.\<close>

fun hline_text :: "int \<Rightarrow> nat \<Rightarrow> hline \<Rightarrow> string option" where
  "hline_text shmid addr HL_Header = Some ''\<newline>=== Basic Shared Memory Demo ===\<newline>''"
| "hline_text shmid addr (HL_Perror m) = Some m"
| "hline_text shmid addr HL_Created = Some (''Created shared memory segment, ID: '' @ show_int shmid @ ''\<newline>'')"
| "hline_text shmid addr HL_Attached = Some (''Attached shared memory at address: '' @ show_ptr addr @ ''\<newline>'')"
| "hline_text shmid addr HL_After = Some ''\<newline>[Parent] Reading data after child modified:\<newline>''"
| "hline_text shmid addr (HL_Counter n) = Some (''         Counter: '' @ show_int n @ ''\<newline>'')"
| "hline_text shmid addr (HL_Message m) = map_option (\<lambda>m. ''         Message: '' @ m @ ''\<newline>'') m"
| "hline_text shmid addr (HL_Writer n) = Some (''         Writer PID: '' @ show_int n @ ''\<newline>'')"
| "hline_text shmid addr HL_Removed = Some ''\<newline>[Parent] Removed shared memory segment\<newline>''"
| "hline_text shmid addr (GL_Pid n) = Some (''\<newline>[Child] PID: '' @ show_int n @ ''\<newline>'')"
| "hline_text shmid addr GL_Reading = Some ''[Child] Reading initial data:\<newline>''"
| "hline_text shmid addr (GL_Counter n) = Some (''        Counter: '' @ show_int n @ ''\<newline>'')"
| "hline_text shmid addr (GL_Message m) = map_option (\<lambda>m. ''        Message: '' @ m @ ''\<newline>'') m"
| "hline_text shmid addr GL_Updated = Some ''[Child] Updated shared memory\<newline>''"

section \<open>The segment is determined by the point of the child\<close>

fun gpc_rank :: "gpc \<Rightarrow> nat" where
  "gpc_rank G_None = 0"
| "gpc_rank G_Pid = 1"
| "gpc_rank G_Reading = 2"
| "gpc_rank G_Counter = 3"
| "gpc_rank G_Message = 4"
| "gpc_rank G_Set = 5"
| "gpc_rank (G_Copy i) = 6 + i"
| "gpc_rank G_Writer = 25"
| "gpc_rank G_Updated = 26"
| "gpc_rank G_Shmdt = 27"
| "gpc_rank G_Exit = 28"
| "gpc_rank G_Zombie = 29"
| "gpc_rank G_Reaped = 30"

fun hpc_rank :: "hpc \<Rightarrow> nat" where
  "hpc_rank H_Start = 0"
| "hpc_rank H_Shmget = 1"
| "hpc_rank H_Print_Id = 2"
| "hpc_rank H_Shmat = 3"
| "hpc_rank H_Print_At = 4"
| "hpc_rank H_Zero = 5"
| "hpc_rank H_Strcpy = 6"
| "hpc_rank H_Nobody = 7"
| "hpc_rank H_Fork = 8"
| "hpc_rank H_Sleep = 9"
| "hpc_rank H_Print_After = 10"
| "hpc_rank H_Print_Counter = 11"
| "hpc_rank (H_Read i) = 12"
| "hpc_rank H_Print_Writer = 13"
| "hpc_rank H_Wait = 14"
| "hpc_rank H_Shmdt = 15"
| "hpc_rank H_Rmid = 16"
| "hpc_rank H_Undo = 16"
| "hpc_rank H_Fork_Dt = 15"
| "hpc_rank H_Fork_Rm = 16"
| "hpc_rank H_Return = 17"

text \<open>The bytes of the message after the first \<open>i\<close> bytes of the new one have been stored.\<close>

definition first_bytes :: "string \<Rightarrow> string" where
  "first_bytes old = initial_message @ [NUL] @ drop 16 (message_bytes old)"

definition mixed :: "nat \<Rightarrow> string \<Rightarrow> string" where
  "mixed i old = take i modified_message @ drop i (first_bytes old)"

text \<open>
  The bytes that can be at position \<open>j\<close> while the child copies, the strings that a reader can get who reads them one
  after the other, and what it prints.
\<close>

definition choices :: "string \<Rightarrow> nat \<Rightarrow> char set" where
  "choices old j = insert (first_bytes old ! j) (if j < 19 then {modified_message ! j} else {})"

definition torn_bytes :: "string \<Rightarrow> string \<Rightarrow> bool" where
  "torn_bytes old m \<longleftrightarrow> NUL \<notin> set m \<and> (\<forall>j < length m. m ! j \<in> choices old j)"

definition torn :: "string \<Rightarrow> string option \<Rightarrow> bool" where
  "torn old m \<longleftrightarrow> (case m of
     None \<Rightarrow> \<forall>j. 19 \<le> j \<longrightarrow> j < 100 \<longrightarrow> first_bytes old ! j \<noteq> NUL
   | Some t \<Rightarrow> length t < 100 \<and> torn_bytes old t \<and> NUL \<in> choices old (length t))"

fun copied :: "gpc \<Rightarrow> nat" where
  "copied (G_Copy i) = i"
| "copied c = (if gpc_rank c < 6 then 0 else 19)"

definition seg_at :: "int \<Rightarrow> string \<Rightarrow> gpc \<Rightarrow> shared_data" where
  "seg_at pid old c =
     \<lparr>sg_counter = (if gpc_rank c < 6 then 0 else 42), sg_message = mixed (copied c) old,
      sg_writer = (if gpc_rank c < 26 then 0 else pid)\<rparr>"

definition cout_at :: "int \<Rightarrow> gpc \<Rightarrow> hline list" where
  "cout_at pid c =
     take (gpc_rank c - 1) [GL_Pid pid, GL_Reading, GL_Counter 0, GL_Message (Some initial_message)] @
     (if gpc_rank c < 27 then [] else [GL_Updated])"

lemma shm_message_lengths: "length initial_message = 15" "length modified_message = 19" "length (message_bytes old) = 100"
  "length (first_bytes old) = 100"
  by (simp_all add: initial_message_def modified_message_def message_bytes_def first_bytes_def)

lemma mixed_0 [simp]: "mixed 0 old = first_bytes old"
  by (simp add: mixed_def)

lemma strcpy_initial: "strcpy (message_bytes old) initial_message = Some (first_bytes old)"
  by (simp add: strcpy_def memcpy_def shm_message_lengths first_bytes_def)

lemma mixed_step:
  assumes "i < 19"
  shows "(mixed i old)[i := modified_message ! i] = mixed (Suc i) old"
proof -
  have "drop i (first_bytes old) = first_bytes old ! i # drop (Suc i) (first_bytes old)"
    using assms by (simp add: Cons_nth_drop_Suc shm_message_lengths)
  moreover have "take (Suc i) modified_message = take i modified_message @ [modified_message ! i]"
    using assms by (simp add: take_Suc_conv_app_nth shm_message_lengths)
  ultimately show ?thesis
    using assms by (simp add: mixed_def list_update_append shm_message_lengths)
qed

lemma modified_nul:
  assumes "i < 19"
  shows "modified_message ! i = NUL \<longleftrightarrow> i = 18"
proof (cases "i < 18")
  case True
  then have "modified_message ! i = ''Modified by child!'' ! i"
    unfolding modified_message_def by (subst nth_append) simp
  moreover from True have "''Modified by child!'' ! i \<in> set ''Modified by child!''" by (intro nth_mem) simp
  moreover have "NUL \<notin> set ''Modified by child!''" by (simp add: NUL_def)
  ultimately show ?thesis using True by auto
next
  case False
  with assms have "i = 18" by simp
  then show ?thesis by (simp add: modified_message_def)
qed

lemma mixed_choice: "k \<le> 19 \<Longrightarrow> j < 100 \<Longrightarrow> mixed k old ! j \<in> choices old j"
  by (auto simp: mixed_def choices_def nth_append shm_message_lengths)

lemma length_mixed: "k \<le> 19 \<Longrightarrow> length (mixed k old) = 100"
  by (simp add: mixed_def shm_message_lengths)

lemma torn_snoc: "torn_bytes old m \<Longrightarrow> c \<in> choices old (length m) \<Longrightarrow> c \<noteq> NUL \<Longrightarrow> torn_bytes old (m @ [c])"
  by (auto simp: torn_bytes_def nth_append less_Suc_eq)

lemma torn_end: "torn_bytes old m \<Longrightarrow> length m < 100 \<Longrightarrow> NUL \<in> choices old (length m) \<Longrightarrow> torn old (Some m)"
  by (simp add: torn_def)

lemma torn_none:
  assumes "torn_bytes old m" and "length m = 100"
  shows "torn old None"
proof -
  have "first_bytes old ! j \<noteq> NUL" if "19 \<le> j" "j < 100" for j
  proof -
    from assms that have "m ! j \<in> choices old j" by (simp add: torn_bytes_def)
    with that have "m ! j = first_bytes old ! j" by (simp add: choices_def)
    moreover from assms that have "m ! j \<in> set m" by simp
    ultimately show ?thesis using assms(1) by (auto simp: torn_bytes_def)
  qed
  then show ?thesis by (simp add: torn_def)
qed

lemma first_nth:
  "j < 15 \<Longrightarrow> first_bytes old ! j = initial_message ! j" "first_bytes old ! 15 = NUL"
  by (simp_all add: first_bytes_def nth_append shm_message_lengths)

lemma torn_initial: "torn old (Some initial_message)"
proof -
  have "NUL \<notin> set initial_message" by (simp add: initial_message_def NUL_def)
  then show ?thesis by (simp add: torn_def torn_bytes_def choices_def shm_message_lengths first_nth)
qed

text \<open>In a new segment, whose bytes are zero, a reader gets at least 15 and at most 18 bytes.\<close>

lemma torn_fresh:
  assumes "torn [] m"
  shows "\<exists>t. m = Some t \<and> 15 \<le> length t \<and> length t \<le> 18"
proof -
  have zero: "first_bytes [] ! j = NUL" if "15 \<le> j" "j < 100" for j
    using that by (cases "j = 15") (simp_all add: first_bytes_def message_bytes_def nth_append shm_message_lengths)
  have some: "first_bytes [] ! j \<noteq> NUL" if "j < 15" for j
  proof -
    from that have "initial_message ! j \<in> set initial_message" by (simp add: shm_message_lengths)
    moreover have "NUL \<notin> set initial_message" by (simp add: initial_message_def NUL_def)
    ultimately show ?thesis using that by (auto simp: first_nth)
  qed
  from zero [of 19] assms obtain t where t: "m = Some t" "length t < 100" "torn_bytes [] t" "NUL \<in> choices [] (length t)"
    by (cases m) (auto simp: torn_def)
  have "\<not> length t < 15"
    using t(4) some [of "length t"] modified_nul [of "length t"] by (auto simp: choices_def)
  moreover have "length t \<le> 18"
  proof (rule ccontr)
    assume "\<not> length t \<le> 18"
    then have "t ! 18 \<in> choices [] 18" "t ! 18 \<in> set t" using t(3) by (simp_all add: torn_bytes_def)
    with t(3) zero [of 18] modified_nul [of 18] show False by (auto simp: choices_def torn_bytes_def)
  qed
  ultimately show ?thesis using t(1) by simp
qed

lemma first_string: "c_string (first_bytes old) = Some initial_message"
  using c_string_terminated [of initial_message] by (simp add: first_bytes_def initial_message_def NUL_def)

section \<open>The invariant\<close>

text \<open>Which points occur together, and what the parent has printed at each point.\<close>

definition htogether :: "hpc \<Rightarrow> gpc \<Rightarrow> bool" where
  "htogether p c \<longleftrightarrow> 9 \<le> hpc_rank p \<and> p \<notin> {H_Undo, H_Fork_Dt, H_Fork_Rm} \<and> 1 \<le> gpc_rank c \<and>
     (c = G_Reaped \<longleftrightarrow> 15 \<le> hpc_rank p) \<and> (\<forall>i. c = G_Copy i \<longrightarrow> i < 19)"

definition seen :: "int \<Rightarrow> string \<Rightarrow> int \<Rightarrow> string option \<Rightarrow> int \<Rightarrow> bool" where
  "seen pid old v m w \<longleftrightarrow> (v = 0 \<or> v = 42) \<and> torn old m \<and> (w = 0 \<or> w = pid)"

definition base_out :: "hline list" where
  "base_out = [HL_Header, HL_Created, HL_Attached]"

definition read_out :: "int \<Rightarrow> string option \<Rightarrow> int \<Rightarrow> hline list" where
  "read_out v m w = [HL_After, HL_Counter v, HL_Message m, HL_Writer w]"

text \<open>While the parent reads the message.\<close>

definition reading :: "string \<Rightarrow> hpc \<Rightarrow> string \<Rightarrow> bool" where
  "reading old p m \<longleftrightarrow> (hpc_rank p < 12 \<longrightarrow> m = []) \<and> (\<forall>i. p = H_Read i \<longrightarrow> length m = i \<and> i \<le> 100 \<and> torn_bytes old m)"

definition hlog :: "int \<Rightarrow> string \<Rightarrow> hpc \<Rightarrow> hline list \<Rightarrow> bool" where
  "hlog pid old p out \<longleftrightarrow>
     (\<exists>v m w. seen pid old v m w \<and>
        (p \<noteq> H_Return \<and> out = base_out @ take (hpc_rank p - 10) (read_out v m w) \<or>
         p = H_Return \<and> (\<exists>r \<in> {HL_Removed, HL_Perror ''shmctl IPC_RMID''}. out = base_out @ read_out v m w @ [r])))"

definition hrun :: "int \<Rightarrow> string \<Rightarrow> hstate \<Rightarrow> bool" where
  "hrun pid old s \<longleftrightarrow> htogether (h_par s) (h_chi s) \<and> h_seg s = seg_at pid old (h_chi s) \<and>
     h_att s = (hpc_rank (h_par s) \<le> 15) \<and> h_catt s = (gpc_rank (h_chi s) \<le> 27) \<and> h_cout s = cout_at pid (h_chi s) \<and>
     h_exists s = (h_par s \<noteq> H_Return \<or> last (h_out s) \<noteq> HL_Removed) \<and>
     h_refused s = (h_par s = H_Return \<and> last (h_out s) \<noteq> HL_Removed) \<and>
     reading old (h_par s) (h_msg s) \<and> hlog pid old (h_par s) (h_out s)"

text \<open>Before the fork and after a failure there is no child.\<close>

fun alone_out :: "hpc \<Rightarrow> hline list" where
  "alone_out H_Start = []"
| "alone_out H_Shmget = [HL_Header]"
| "alone_out H_Print_Id = [HL_Header]"
| "alone_out H_Shmat = [HL_Header, HL_Created]"
| "alone_out H_Print_At = [HL_Header, HL_Created]"
| "alone_out _ = base_out"

definition halone :: "string \<Rightarrow> hstate \<Rightarrow> bool" where
  "halone old s \<longleftrightarrow> h_chi s = G_None \<and> h_cout s = [] \<and> \<not> h_catt s \<and>
     (hpc_rank (h_par s) \<le> 8 \<or> h_par s \<in> {H_Undo, H_Fork_Dt, H_Fork_Rm, H_Return}) \<and>
     h_msg s = [] \<and> (h_refused s \<longrightarrow> h_par s = H_Return) \<and>
     h_exists s = (h_par s \<notin> {H_Start, H_Shmget, H_Return} \<or> h_refused s) \<and>
     h_att s = (h_par s \<in> {H_Print_At, H_Zero, H_Strcpy, H_Nobody, H_Fork, H_Fork_Dt}) \<and>
     (hpc_rank (h_par s) \<le> 8 \<longrightarrow> h_out s = alone_out (h_par s)) \<and>
     (hpc_rank (h_par s) \<le> 6 \<longrightarrow> sg_message (h_seg s) = message_bytes old) \<and>
     (h_par s \<in> {H_Strcpy, H_Nobody, H_Fork} \<longrightarrow> sg_counter (h_seg s) = 0) \<and>
     (h_par s \<in> {H_Nobody, H_Fork} \<longrightarrow> sg_message (h_seg s) = first_bytes old) \<and>
     (h_par s = H_Fork \<longrightarrow> sg_writer (h_seg s) = 0)"

definition basic_inv :: "int \<Rightarrow> string \<Rightarrow> hstate \<Rightarrow> bool" where
  "basic_inv pid old s \<longleftrightarrow> halone old s \<or> hrun pid old s"

text \<open>The parent reads at most 101 bytes.\<close>

definition read_left :: "hpc \<Rightarrow> nat" where
  "read_left p = (case p of H_Read i \<Rightarrow> 101 - i | _ \<Rightarrow> if hpc_rank p < 12 then 101 else 0)"

lemma read_left_simps [simp]:
  "read_left (H_Read i) = 101 - i"
  "(\<And>i. p \<noteq> H_Read i) \<Longrightarrow> read_left p = (if hpc_rank p < 12 then 101 else 0)"
  by (simp_all add: read_left_def split: hpc.splits)

definition basic_measure :: "hstate \<Rightarrow> nat" where
  "basic_measure s = (17 - hpc_rank (h_par s)) + read_left (h_par s) + (30 - gpc_rank (h_chi s))"

lemma halone_parent:
  assumes "halone old s" and "basic_parent ok s = Some t"
  shows "basic_inv pid old t \<and> basic_measure t < basic_measure s"
proof (cases "h_par s = H_Fork \<and> ok")
  case True
  with assms have t: "t = s\<lparr>h_chi := G_Pid, h_catt := h_att s, h_par := H_Sleep\<rparr>"
    and seg: "h_seg s = seg_at pid old G_Pid"
    by (auto simp: basic_parent_def halone_def seg_at_def)
  have "hlog pid old H_Sleep base_out"
    unfolding hlog_def by (intro exI [of _ 0] exI [of _ "Some initial_message"]) (simp add: seen_def torn_initial)
  with assms(1) True seg have "hrun pid old t"
    by (simp add: t hrun_def halone_def htogether_def cout_at_def seg_at_def reading_def)
  with assms(1) True show ?thesis by (simp add: basic_inv_def t basic_measure_def halone_def)
next
  case False
  have "halone old t \<and> basic_measure t < basic_measure s"
    using assms False
    by (cases "h_par s"; cases ok;
        clarsimp simp: basic_parent_def halone_def basic_measure_def hprint_def strcpy_initial base_out_def basic_rmid_def)
  then show ?thesis by (simp add: basic_inv_def)
qed

lemma halone_child: "halone old s \<Longrightarrow> basic_child pid s = None"
  by (simp add: halone_def basic_child_def)

lemma halone_progress: "halone old s \<Longrightarrow> h_par s \<noteq> H_Return \<Longrightarrow> \<exists>t. basic_parent True s = Some t"
  by (cases "h_par s") (simp_all add: basic_parent_def halone_def strcpy_initial)

text \<open>The steps of the child.\<close>

lemma hrun_child:
  assumes "hrun pid old s" and "basic_child pid s = Some t"
  shows "h_par t = h_par s \<and> h_seg t = seg_at pid old (h_chi t) \<and> h_att t = h_att s \<and>
    h_catt t = (gpc_rank (h_chi t) \<le> 27) \<and> h_cout t = cout_at pid (h_chi t) \<and> h_exists t = h_exists s \<and> h_refused t = h_refused s \<and>
    h_msg t = h_msg s \<and> h_out t = h_out s \<and>
    htogether (h_par s) (h_chi t) \<and> gpc_rank (h_chi s) < gpc_rank (h_chi t) \<and> gpc_rank (h_chi t) \<le> 30"
proof (cases "h_chi s")
  case (G_Copy i)
  with assms(1) have i: "i < 19" by (simp add: hrun_def htogether_def)
  with assms G_Copy show ?thesis
    by (cases "i = 18")
      (clarsimp simp: hrun_def basic_child_def seg_at_def modified_nul mixed_step htogether_def cout_at_def)+
qed (use assms in \<open>clarsimp simp: hrun_def basic_child_def seg_at_def htogether_def cout_at_def gprint_def first_string\<close>)+

lemma basic_inv_child:
  assumes "basic_inv pid old s" and "basic_child pid s = Some t"
  shows "basic_inv pid old t \<and> basic_measure t < basic_measure s"
proof -
  from assms halone_child have r: "hrun pid old s" by (auto simp: basic_inv_def)
  from hrun_child [OF this assms(2)] r have "hrun pid old t" by (simp add: hrun_def)
  with hrun_child [OF r assms(2)] show ?thesis by (auto simp: basic_inv_def basic_measure_def)
qed

text \<open>The steps of the parent while the child runs: it reads what the child has written so far.\<close>

lemma seg_seen:
  assumes "htogether p c"
  shows "sg_counter (seg_at pid old c) \<in> {0, 42}" "sg_writer (seg_at pid old c) \<in> {0, pid}" "copied c \<le> 19"
  using assms by (cases c; simp add: seg_at_def htogether_def; fail)+

lemma hlogE:
  assumes "hlog pid old p out" and "p \<noteq> H_Return"
  obtains v m w where "seen pid old v m w" "out = base_out @ take (hpc_rank p - 10) (read_out v m w)"
  using assms by (auto simp: hlog_def)

lemma hlogI: "q \<noteq> H_Return \<Longrightarrow> seen pid old v m w \<Longrightarrow> out = base_out @ take (hpc_rank q - 10) (read_out v m w) \<Longrightarrow> hlog pid old q out"
  by (auto simp: hlog_def)

lemma hlog_quiet:
  assumes "hlog pid old p out" and "p \<noteq> H_Return" and "q \<noteq> H_Return"
    and "min 4 (hpc_rank q - 10) = min 4 (hpc_rank p - 10)"
  shows "hlog pid old q out"
proof -
  from assms(1,2) obtain v m w where o: "seen pid old v m w" "out = base_out @ take (hpc_rank p - 10) (read_out v m w)"
    by (rule hlogE)
  have "take n (read_out v m w) = take (min 4 n) (read_out v m w)" for n
    by (simp add: read_out_def min_def)
  with assms(4) have "take (hpc_rank p - 10) (read_out v m w) = take (hpc_rank q - 10) (read_out v m w)" by metis
  with assms(3) o show ?thesis by (intro hlogI) simp_all
qed

lemma hlog_step:
  assumes "hlog pid old p out"
  shows "p = H_Print_After \<Longrightarrow> hlog pid old H_Print_Counter (out @ [HL_After])"
    and "p = H_Print_Counter \<Longrightarrow> v \<in> {0, 42} \<Longrightarrow> hlog pid old (H_Read 0) (out @ [HL_Counter v])"
    and "p = H_Read i \<Longrightarrow> torn old m \<Longrightarrow> hlog pid old H_Print_Writer (out @ [HL_Message m])"
    and "p = H_Print_Writer \<Longrightarrow> w \<in> {0, pid} \<Longrightarrow> hlog pid old H_Wait (out @ [HL_Writer w])"
    and "p = H_Rmid \<Longrightarrow> r \<in> {HL_Removed, HL_Perror ''shmctl IPC_RMID''} \<Longrightarrow> hlog pid old H_Return (out @ [r])"
proof -
  have "\<exists>v' m' w'. seen pid old v' m' w' \<and> out = base_out @ take (hpc_rank p - 10) (read_out v' m' w')" if "p \<noteq> H_Return"
    using assms that by (auto simp: hlog_def)
  then obtain v' m' w' where s: "seen pid old v' m' w' \<or> p = H_Return"
    and o: "p \<noteq> H_Return \<Longrightarrow> out = base_out @ take (hpc_rank p - 10) (read_out v' m' w')" by metis
  show "p = H_Print_After \<Longrightarrow> hlog pid old H_Print_Counter (out @ [HL_After])"
    using o s by (intro hlogI [where v = v' and m = m' and w = w']) (auto simp: read_out_def seen_def)
  show "p = H_Print_Counter \<Longrightarrow> v \<in> {0, 42} \<Longrightarrow> hlog pid old (H_Read 0) (out @ [HL_Counter v])"
    using o s by (intro hlogI [where v = v and m = m' and w = w']) (auto simp: read_out_def seen_def)
  show "p = H_Read i \<Longrightarrow> torn old m \<Longrightarrow> hlog pid old H_Print_Writer (out @ [HL_Message m])"
    using o s by (intro hlogI [where v = v' and m = m and w = w']) (auto simp: read_out_def seen_def)
  show "p = H_Print_Writer \<Longrightarrow> w \<in> {0, pid} \<Longrightarrow> hlog pid old H_Wait (out @ [HL_Writer w])"
    using o s by (intro hlogI [where v = v' and m = m' and w = w]) (auto simp: read_out_def seen_def)
  show "p = H_Rmid \<Longrightarrow> r \<in> {HL_Removed, HL_Perror ''shmctl IPC_RMID''} \<Longrightarrow> hlog pid old H_Return (out @ [r])"
    using o s by (auto simp: hlog_def read_out_def)
qed

text \<open>One byte is read: it is one of the two that can be there.\<close>

lemma read_step:
  assumes "hrun pid old s" and "h_par s = H_Read i"
  shows "hrun pid old (read_byte i s) \<and> basic_measure (read_byte i s) < basic_measure s"
proof -
  from assms have T: "htogether (H_Read i) (h_chi s)" and L: "hlog pid old (H_Read i) (h_out s)"
    and R: "length (h_msg s) = i" "i \<le> 100" "torn_bytes old (h_msg s)" by (simp_all add: hrun_def reading_def)
  from seg_seen(3) [OF T] have k: "copied (h_chi s) \<le> 19" .
  from assms have m: "sg_message (h_seg s) = mixed (copied (h_chi s)) old" by (simp add: hrun_def seg_at_def)
  have len: "length (sg_message (h_seg s)) = 100" using k by (simp add: m length_mixed)
  note simps = hrun_def htogether_def hprint_def basic_measure_def reading_def
  consider "i = 100" | "i < 100" "sg_message (h_seg s) ! i = NUL" | "i < 100" "sg_message (h_seg s) ! i \<noteq> NUL"
    using R(2) by fastforce
  then show ?thesis
  proof cases
    case 1
    with torn_none [OF R(3)] R(1) have "hlog pid old H_Print_Writer (h_out s @ [HL_Message None])"
      by (intro hlog_step(3) [OF L refl]) simp
    moreover from 1 have "read_byte i s = hprint (HL_Message None) H_Print_Writer s" by (simp add: read_byte_def len)
    ultimately show ?thesis using assms R(2) by (auto simp: simps)
  next
    case 2
    with mixed_choice [OF k, of i old] have "NUL \<in> choices old i" by (simp add: m)
    with R 2 have "torn old (Some (h_msg s))" by (intro torn_end) simp_all
    then have "hlog pid old H_Print_Writer (h_out s @ [HL_Message (Some (h_msg s))])" by (rule hlog_step(3) [OF L refl])
    moreover from 2 have "read_byte i s = hprint (HL_Message (Some (h_msg s))) H_Print_Writer s" by (simp add: read_byte_def len)
    ultimately show ?thesis using assms R(2) by (auto simp: simps)
  next
    case 3
    with mixed_choice [OF k, of i old] have "sg_message (h_seg s) ! i \<in> choices old (length (h_msg s))" by (simp add: m R(1))
    with 3 torn_snoc [OF R(3)] have "torn_bytes old (h_msg s @ [sg_message (h_seg s) ! i])" by blast
    moreover have "hlog pid old (H_Read (Suc i)) (h_out s)" by (rule hlog_quiet [OF L]) simp_all
    moreover from 3 have "read_byte i s = s\<lparr>h_msg := h_msg s @ [sg_message (h_seg s) ! i], h_par := H_Read (Suc i)\<rparr>"
      by (simp add: read_byte_def len)
    ultimately show ?thesis using assms 3 R(1) by (simp add: simps)
  qed
qed

lemma hrun_parent:
  assumes "hrun pid old s" and "basic_parent ok s = Some t"
  shows "hrun pid old t \<and> basic_measure t < basic_measure s"
proof -
  from assms(1) have T: "htogether (h_par s) (h_chi s)" and L: "hlog pid old (h_par s) (h_out s)" by (simp_all add: hrun_def)
  note log = hlog_step [OF L]
  note simps = hrun_def htogether_def basic_measure_def basic_parent_def hprint_def basic_rmid_def reading_def torn_bytes_def
  have quiet: "hlog pid old q (h_out s)" if "h_par s \<noteq> H_Return" "q \<noteq> H_Return"
    "min 4 (hpc_rank q - 10) = min 4 (hpc_rank (h_par s) - 10)" for q
    using hlog_quiet [OF L that] .
  from T consider "h_par s = H_Sleep" | "h_par s = H_Print_After" | "h_par s = H_Print_Counter" | i where "h_par s = H_Read i"
    | "h_par s = H_Print_Writer" | "h_par s = H_Wait" | "h_par s = H_Shmdt" | "h_par s = H_Rmid" | "h_par s = H_Return"
    by (cases "h_par s") (simp_all add: htogether_def)
  then show ?thesis
  proof cases
    case 1
    with assms quiet [of H_Print_After] show ?thesis by (auto simp: simps)
  next
    case 2
    with assms log(1) show ?thesis by (auto simp: simps)
  next
    case 3
    with assms log(2) [OF 3 seg_seen(1) [OF T]] show ?thesis by (auto simp: simps)
  next
    case (4 i)
    with assms read_step [OF assms(1) 4] show ?thesis by (simp add: basic_parent_def)
  next
    case 5
    with assms log(4) [OF 5 seg_seen(2) [OF T]] show ?thesis by (auto simp: simps)
  next
    case 6
    with assms(2) have "h_chi s = G_Zombie" "t = s\<lparr>h_chi := G_Reaped, h_par := H_Shmdt\<rparr>"
      by (auto simp: basic_parent_def split: if_splits)
    with 6 assms(1) quiet [of H_Shmdt] show ?thesis
      by (simp add: hrun_def htogether_def basic_measure_def seg_at_def cout_at_def reading_def)
  next
    case 7
    with assms quiet [of H_Rmid] show ?thesis by (auto simp: simps)
  next
    case 8
    with assms log(5) [OF 8, of HL_Removed] log(5) [OF 8, of "HL_Perror ''shmctl IPC_RMID''"] show ?thesis
      by (cases ok) (auto simp: simps)
  next
    case 9
    with assms(2) show ?thesis by (simp add: basic_parent_def)
  qed
qed


lemma basic_inv_parent:
  assumes "basic_inv pid old s" and "basic_parent ok s = Some t"
  shows "basic_inv pid old t \<and> basic_measure t < basic_measure s"
  using assms halone_parent hrun_parent unfolding basic_inv_def by blast

lemma hrun_progress:
  assumes "hrun pid old s" and "h_par s \<noteq> H_Return"
  shows "\<exists>a t. basic_act pid a s = Some t"
proof (cases "h_par s = H_Wait \<and> h_chi s \<noteq> G_Zombie")
  case True
  with assms(1) have "\<exists>t. basic_act pid H_Child s = Some t"
    by (cases "h_chi s") (auto simp: hrun_def htogether_def basic_child_def)
  then show ?thesis by blast
next
  case False
  with assms have "\<exists>t. basic_act pid (H_Parent True) s = Some t"
    by (cases "h_par s") (auto simp: hrun_def htogether_def basic_parent_def)
  then show ?thesis by blast
qed

interpretation basic_sys: live_system "basic_step pid" "basic_start old" "basic_inv pid old" basic_measure "\<lambda>s. h_par s = H_Return"
  for pid old
proof
  show "basic_inv pid old (basic_start old)" by (simp add: basic_inv_def halone_def basic_start_def)
next
  fix s t
  assume I: "basic_inv pid old s" and "basic_step pid s t"
  then obtain a where "basic_act pid a s = Some t" by (auto elim: step_ofE)
  then have "basic_inv pid old t \<and> basic_measure t < basic_measure s"
    by (cases a) (auto dest: basic_inv_parent [OF I] basic_inv_child [OF I])
  then show "basic_inv pid old t" and "basic_measure t < basic_measure s" by simp_all
next
  fix s
  assume "basic_inv pid old s" and r: "h_par s \<noteq> H_Return"
  then consider "halone old s" | "hrun pid old s" by (auto simp: basic_inv_def)
  then show "\<exists>t. basic_step pid s t"
  proof cases
    case 1
    with halone_progress r obtain t where "basic_act pid (H_Parent True) s = Some t" by fastforce
    then show ?thesis by blast
  next
    case 2
    with hrun_progress r show ?thesis by blast
  qed
qed

section \<open>Properties\<close>

lemma basic_end:
  assumes "basic_inv pid old s" and "h_par s = H_Return"
  shows "\<not> h_att s \<and> \<not> h_catt s \<and> (h_chi s = G_None \<or> h_chi s = G_Reaped) \<and>
    (h_exists s \<longleftrightarrow> h_refused s) \<and> (h_refused s \<longrightarrow> h_chi s = G_Reaped \<longrightarrow> last (h_out s) = HL_Perror ''shmctl IPC_RMID'')"
  using assms by (auto simp: basic_inv_def halone_def hrun_def htogether_def hlog_def)

text \<open>
  C36. Whenever \<open>demonstrate_basic_shm\<close> has returned after it made a child, the child has read the initial data, and the parent
  has read, in this order, a counter of 0 or 42, a message each of whose bytes is the old or the new one of its position,
  up to a position that holds a NUL, and 0 or the process id of the child: nothing better, since the parent does not wait for
  the child before it reads. In a new segment the message has 15 to 18 bytes; in one that is reused it may also not end
  in the array, and then only if the bytes left from before have no NUL.
\<close>

theorem basic_shm_values:
  assumes "(basic_step pid)\<^sup>*\<^sup>* (basic_start old) s" and "h_par s = H_Return" and "h_chi s \<noteq> G_None"
  shows "h_cout s = [GL_Pid pid, GL_Reading, GL_Counter 0, GL_Message (Some ''Initial message''), GL_Updated]
    \<and> (\<exists>v m w r. (v = 0 \<or> v = 42) \<and> torn old m \<and> (w = 0 \<or> w = pid)
        \<and> (r = HL_Removed \<or> r = HL_Perror ''shmctl IPC_RMID'')
        \<and> (old = [] \<longrightarrow> (\<exists>t. m = Some t \<and> 15 \<le> length t \<and> length t \<le> 18))
        \<and> h_out s = [HL_Header, HL_Created, HL_Attached, HL_After, HL_Counter v, HL_Message m, HL_Writer w, r])"
proof -
  from basic_sys.reach_inv [OF assms(1)] assms(3) have run: "hrun pid old s" by (auto simp: basic_inv_def halone_def)
  with assms(2) have "h_chi s = G_Reaped" by (simp add: hrun_def htogether_def)
  with run have "h_cout s = [GL_Pid pid, GL_Reading, GL_Counter 0, GL_Message (Some ''Initial message''), GL_Updated]"
    by (simp add: hrun_def cout_at_def initial_message_def)
  moreover from run assms(2) obtain v m w r where m: "seen pid old v m w" "r \<in> {HL_Removed, HL_Perror ''shmctl IPC_RMID''}"
    "h_out s = base_out @ read_out v m w @ [r]" by (auto simp: hrun_def hlog_def)
  moreover from m(1) torn_fresh have "old = [] \<longrightarrow> (\<exists>t. m = Some t \<and> 15 \<le> length t \<and> length t \<le> 18)" by (auto simp: seen_def)
  ultimately show ?thesis unfolding seen_def base_out_def read_out_def by fastforce
qed

text \<open>What the parent has printed stays printed.\<close>

lemma basic_out_grows: "basic_act pid a s = Some t \<Longrightarrow> \<exists>x. h_out t = h_out s @ x"
  by (cases a; cases "h_par s"; cases "h_chi s")
    (auto simp: basic_parent_def basic_child_def hprint_def gprint_def basic_rmid_def read_byte_def Let_def
      split: if_splits option.splits)

lemma basic_out_extends: "(basic_step pid)\<^sup>*\<^sup>* s t \<Longrightarrow> \<exists>x. h_out t = h_out s @ x"
proof (induction rule: rtranclp_induct)
  case (step t u)
  then obtain a x where "basic_act pid a t = Some u" "h_out t = h_out s @ x" by (auto elim: step_ofE)
  with basic_out_grows [of pid a t u] show ?case by auto
qed simp

lemma parent_first_run:
  "\<exists>s. (basic_step pid)\<^sup>*\<^sup>* (basic_start []) s \<and> h_par s = H_Wait \<and> h_chi s = G_Pid
     \<and> h_out s = [HL_Header, HL_Created, HL_Attached, HL_After, HL_Counter 0, HL_Message (Some initial_message), HL_Writer 0]"
  by (rule run_sched_witness [where as = "replicate 29 (H_Parent True)"]) code_simp

lemma child_stays: "basic_act pid a s = Some t \<Longrightarrow> h_chi s \<noteq> G_None \<Longrightarrow> h_chi t \<noteq> G_None"
  by (cases a; cases "h_par s"; cases "h_chi s")
    (auto simp: basic_parent_def basic_child_def hprint_def gprint_def basic_rmid_def read_byte_def Let_def
      split: if_splits option.splits)

lemma child_stays_reach: "(basic_step pid)\<^sup>*\<^sup>* s t \<Longrightarrow> h_chi s \<noteq> G_None \<Longrightarrow> h_chi t \<noteq> G_None"
  by (induction rule: rtranclp_induct) (auto elim!: step_ofE dest: child_stays)

text \<open>
  There is an execution of \<open>demonstrate_basic_shm\<close> in which the parent prints the initial values as the data \<open>after child
  modified\<close>: the second of \<^verbatim>\<open>sleep\<close> is over before the child runs. The child then does its work and everything is
  cleaned up as usual.
\<close>

theorem basic_shm_stale:
  "\<exists>s r. (basic_step pid)\<^sup>*\<^sup>* (basic_start []) s \<and> h_par s = H_Return \<and> h_chi s = G_Reaped
     \<and> h_out s = [HL_Header, HL_Created, HL_Attached, HL_After, HL_Counter 0, HL_Message (Some ''Initial message''), HL_Writer 0, r]"
proof -
  from parent_first_run obtain s where s: "(basic_step pid)\<^sup>*\<^sup>* (basic_start []) s" "h_chi s = G_Pid"
    "h_out s = [HL_Header, HL_Created, HL_Attached, HL_After, HL_Counter 0, HL_Message (Some initial_message), HL_Writer 0]" by blast
  from basic_sys.eventually_final [OF s(1)] obtain t where t: "(basic_step pid)\<^sup>*\<^sup>* s t" "h_par t = H_Return" by blast
  from s(1) t(1) have r: "(basic_step pid)\<^sup>*\<^sup>* (basic_start []) t" by simp
  from basic_out_extends [OF t(1)] s(3) obtain x where
    x: "h_out t = [HL_Header, HL_Created, HL_Attached, HL_After, HL_Counter 0, HL_Message (Some initial_message), HL_Writer 0] @ x"
    by auto
  have inv: "basic_inv pid [] t" by (rule basic_sys.reach_inv [OF r])
  have "\<not> halone [] t" using child_stays_reach [OF t(1)] s(2) by (auto simp: halone_def)
  with inv have run: "hrun pid [] t" by (simp add: basic_inv_def)
  with t(2) have "h_chi t = G_Reaped" by (simp add: hrun_def htogether_def)
  moreover from run t(2) x obtain z where "x = [z]" by (auto simp: hrun_def hlog_def base_out_def read_out_def)
  ultimately show ?thesis using r t(2) x by (auto simp: initial_message_def)
qed



theorem basic_shm_values_witness:
  "\<exists>s v m w r. (basic_step 7)\<^sup>*\<^sup>* (basic_start []) s \<and> (v = 0 \<or> v = 42) \<and> torn [] m \<and> (w = 0 \<or> w = 7)
     \<and> h_out s = [HL_Header, HL_Created, HL_Attached, HL_After, HL_Counter v, HL_Message m, HL_Writer w, r]"
proof -
  from parent_first_run [of 7] obtain s where s: "(basic_step 7)\<^sup>*\<^sup>* (basic_start []) s" "h_chi s = G_Pid" by blast
  from basic_sys.eventually_final [OF s(1)] obtain t where t: "(basic_step 7)\<^sup>*\<^sup>* s t" "h_par t = H_Return" by blast
  from s(1) t(1) have "(basic_step 7)\<^sup>*\<^sup>* (basic_start []) t" by simp
  moreover have "h_chi t \<noteq> G_None" using child_stays_reach [OF t(1)] s(2) by simp
  ultimately show ?thesis using basic_shm_values [of 7 "[]" t] t(2) by blast
qed

end
