(* ===== verification/Shm_Race.thy ===== *)
theory Shm_Race
  imports C_Library
begin

text \<open>
  \<^verbatim>\<open>examples/shm_demo.c\<close>, \<open>demonstrate_multiple_attachments\<close>: a parent and two children that
  each increment a shared \<^verbatim>\<open>int\<close> three times without synchronisation. An increment is a load and
  a store, so the three processes interleave at every access. The results of \<^verbatim>\<open>shmget\<close>,
  \<^verbatim>\<open>shmat\<close>, \<^verbatim>\<open>fork\<close> and \<^verbatim>\<open>shmctl\<close> are chosen by the environment; \<^verbatim>\<open>waitpid\<close> is the documented one, with
  the pid -1 (the result of a failed \<^verbatim>\<open>fork\<close>, which the program passes on) meaning any child.
\<close>

section \<open>The program\<close>

datatype kid = K1 | K2

text \<open>The statements of a child (lines 166 to 173 and 179 to 186).\<close>

datatype kpc = K_Unborn | K_Title | K_Loop | K_Load | K_Store | K_Print | K_Sleep | K_Shmdt | K_Exit
  | K_Zombie | K_Reaped

record kchild =
  k_pc :: kpc
  k_i :: nat
  k_tmp :: int

text \<open>The statements of the parent (lines 146 to 198).\<close>

datatype apc = A_Shmget | A_Shmat | A_Undo | A_Zero | A_Initial | A_Fork1 | A_Fork2 | A_Wait1 | A_Wait2
  | A_Final | A_Shmdt | A_Rmid | A_Return

datatype aline = Perror string | Initial int | Title kid | Counter kid int | FinalValue int

record astate =
  a_val :: int
  a_exists :: bool
  a_refused :: bool
  a_nattch :: nat
  a_kid :: "kid \<Rightarrow> kchild"
  a_main :: apc
  a_log :: "aline list"

definition kid_iters :: nat where
  "kid_iters = 3"

definition set_kid :: "kid \<Rightarrow> kchild \<Rightarrow> astate \<Rightarrow> astate" where
  "set_kid k l s = s\<lparr>a_kid := (a_kid s)(k := l)\<rparr>"

text \<open>One statement of child \<open>k\<close>.\<close>

definition shm_child :: "kid \<Rightarrow> astate \<Rightarrow> astate option" where
  "shm_child k s =
     (let l = a_kid s k in
      case k_pc l of
        K_Unborn \<Rightarrow> None
      | K_Title \<Rightarrow> Some (set_kid k (l\<lparr>k_pc := K_Loop\<rparr>) (s\<lparr>a_log := a_log s @ [Title k]\<rparr>))
      | K_Loop \<Rightarrow> Some (set_kid k (l\<lparr>k_pc := (if k_i l < kid_iters then K_Load else K_Shmdt)\<rparr>) s)
      | K_Load \<Rightarrow> Some (set_kid k (l\<lparr>k_pc := K_Store, k_tmp := a_val s\<rparr>) s)
      | K_Store \<Rightarrow> Some (set_kid k (l\<lparr>k_pc := K_Print\<rparr>) (s\<lparr>a_val := k_tmp l + 1\<rparr>))
      | K_Print \<Rightarrow> Some (set_kid k (l\<lparr>k_pc := K_Sleep\<rparr>) (s\<lparr>a_log := a_log s @ [Counter k (a_val s)]\<rparr>))
      | K_Sleep \<Rightarrow> Some (set_kid k (l\<lparr>k_pc := K_Loop, k_i := Suc (k_i l)\<rparr>) s)
      | K_Shmdt \<Rightarrow> Some (set_kid k (l\<lparr>k_pc := K_Exit\<rparr>) (s\<lparr>a_nattch := a_nattch s - 1\<rparr>))
      | K_Exit \<Rightarrow> Some (set_kid k (l\<lparr>k_pc := K_Zombie\<rparr>) s)
      | K_Zombie \<Rightarrow> None
      | K_Reaped \<Rightarrow> None)"

text \<open>\<^verbatim>\<open>fork\<close>: the child inherits the attachment. On failure nothing is created.\<close>

definition fork_kid :: "bool \<Rightarrow> kid \<Rightarrow> astate \<Rightarrow> astate" where
  "fork_kid ok k s =
     (if ok then set_kid k \<lparr>k_pc = K_Title, k_i = 0, k_tmp = 0\<rparr> (s\<lparr>a_nattch := Suc (a_nattch s)\<rparr>) else s)"

definition reap :: "kid \<Rightarrow> astate \<Rightarrow> astate" where
  "reap k s = set_kid k ((a_kid s k)\<lparr>k_pc := K_Reaped\<rparr>) s"

definition is_child :: "kpc \<Rightarrow> bool" where
  "is_child p \<longleftrightarrow> p \<notin> {K_Unborn, K_Reaped}"

text \<open>
  \<^verbatim>\<open>waitpid(pid, NULL, 0)\<close> where \<^verbatim>\<open>pid\<close> is what \<^verbatim>\<open>fork\<close> returned for \<open>k\<close>. A pid that is
  not (or no longer) a child fails at once (\<^verbatim>\<open>ECHILD\<close>), a running child blocks the caller; for a
  failed fork (pid -1) any child that has ended is reaped, and the call fails when there is none.
\<close>

definition waitpid :: "kid \<Rightarrow> astate \<Rightarrow> astate option" where
  "waitpid k s =
     (case k_pc (a_kid s k) of
        K_Zombie \<Rightarrow> Some (reap k s)
      | K_Reaped \<Rightarrow> Some s
      | K_Unborn \<Rightarrow>
          (if k_pc (a_kid s K1) = K_Zombie then Some (reap K1 s)
           else if k_pc (a_kid s K2) = K_Zombie then Some (reap K2 s)
           else if is_child (k_pc (a_kid s K1)) \<or> is_child (k_pc (a_kid s K2)) then None
           else Some s)
      | _ \<Rightarrow> None)"

text \<open>\<^verbatim>\<open>shmctl(shmid, IPC_RMID, NULL)\<close>, whose result the program ignores; \<open>a_refused\<close> records a failure.\<close>

definition race_rmid :: "bool \<Rightarrow> astate \<Rightarrow> astate" where
  "race_rmid ok s = (if ok then s\<lparr>a_exists := False, a_main := A_Return\<rparr> else s\<lparr>a_refused := True, a_main := A_Return\<rparr>)"

text \<open>One statement of the parent; \<open>ok\<close> is the outcome of a call that may fail.\<close>

definition demonstrate_multiple_attachments :: "bool \<Rightarrow> astate \<Rightarrow> astate option" where
  "demonstrate_multiple_attachments ok s =
     (case a_main s of
        A_Shmget \<Rightarrow>
          Some (if ok then s\<lparr>a_exists := True, a_main := A_Shmat\<rparr>
                else s\<lparr>a_log := a_log s @ [Perror ''shmget''], a_main := A_Return\<rparr>)
      | A_Shmat \<Rightarrow>
          Some (if ok then s\<lparr>a_nattch := Suc (a_nattch s), a_main := A_Zero\<rparr>
                else s\<lparr>a_log := a_log s @ [Perror ''shmat''], a_main := A_Undo\<rparr>)
      | A_Undo \<Rightarrow> Some (race_rmid ok s)
      | A_Zero \<Rightarrow> Some (s\<lparr>a_val := 0, a_main := A_Initial\<rparr>)
      | A_Initial \<Rightarrow> Some (s\<lparr>a_log := a_log s @ [Initial (a_val s)], a_main := A_Fork1\<rparr>)
      | A_Fork1 \<Rightarrow> Some ((fork_kid ok K1 s)\<lparr>a_main := A_Fork2\<rparr>)
      | A_Fork2 \<Rightarrow> Some ((fork_kid ok K2 s)\<lparr>a_main := A_Wait1\<rparr>)
      | A_Wait1 \<Rightarrow> map_option (\<lambda>t. t\<lparr>a_main := A_Wait2\<rparr>) (waitpid K1 s)
      | A_Wait2 \<Rightarrow> map_option (\<lambda>t. t\<lparr>a_main := A_Final\<rparr>) (waitpid K2 s)
      | A_Final \<Rightarrow> Some (s\<lparr>a_log := a_log s @ [FinalValue (a_val s)], a_main := A_Shmdt\<rparr>)
      | A_Shmdt \<Rightarrow> Some (s\<lparr>a_nattch := a_nattch s - 1, a_main := A_Rmid\<rparr>)
      | A_Rmid \<Rightarrow> Some (race_rmid ok s)
      | A_Return \<Rightarrow> None)"

datatype aactor = A_Parent bool | A_Kid kid

fun shm_act :: "aactor \<Rightarrow> astate \<Rightarrow> astate option" where
  "shm_act (A_Parent ok) s = demonstrate_multiple_attachments ok s"
| "shm_act (A_Kid k) s = shm_child k s"

definition shm_start :: "int \<Rightarrow> astate" where
  "shm_start v =
     \<lparr>a_val = v, a_exists = False, a_refused = False, a_nattch = 0,
      a_kid = (\<lambda>_. \<lparr>k_pc = K_Unborn, k_i = 0, k_tmp = 0\<rparr>), a_main = A_Shmget, a_log = []\<rparr>"

abbreviation shm_step :: "astate \<Rightarrow> astate \<Rightarrow> bool" where
  "shm_step \<equiv> step_of shm_act"

section \<open>Invariants of the counter\<close>

text \<open>The stores a child has done, and how the value relates to them.\<close>

definition stores :: "kchild \<Rightarrow> nat" where
  "stores l = (if k_pc l \<in> {K_Print, K_Sleep} then Suc (k_i l) else k_i l)"

definition total :: "astate \<Rightarrow> nat" where
  "total s = stores (a_kid s K1) + stores (a_kid s K2)"

definition other :: "kid \<Rightarrow> kid" where
  "other k = (case k of K1 \<Rightarrow> K2 | K2 \<Rightarrow> K1)"

lemma other_simps [simp]: "other K1 = K2" "other K2 = K1" "other k \<noteq> k" "k \<noteq> other k"
  by (auto simp: other_def split: kid.splits)

text \<open>The value a child loaded is not newer than the total, and not older than its own last store.\<close>

definition tmp_ok :: "astate \<Rightarrow> kid \<Rightarrow> bool" where
  "tmp_ok s k \<longleftrightarrow>
     (k_pc (a_kid s k) = K_Store \<longrightarrow>
        0 \<le> k_tmp (a_kid s k) \<and> k_tmp (a_kid s k) \<le> int (total s) \<and>
        (0 < stores (a_kid s k) \<longrightarrow> 1 \<le> k_tmp (a_kid s k)) \<and>
        (stores (a_kid s (other k)) = 0 \<longrightarrow> k_tmp (a_kid s k) = int (stores (a_kid s k))))"

definition val_ok :: "astate \<Rightarrow> bool" where
  "val_ok s \<longleftrightarrow>
     0 \<le> a_val s \<and> a_val s \<le> int (total s) \<and> (0 < total s \<longrightarrow> 1 \<le> a_val s) \<and>
     (2 \<le> stores (a_kid s K1) \<and> 2 \<le> stores (a_kid s K2) \<longrightarrow> 2 \<le> a_val s) \<and>
     (stores (a_kid s K1) = 0 \<or> stores (a_kid s K2) = 0 \<longrightarrow> a_val s = int (total s))"

definition started :: "apc \<Rightarrow> bool" where
  "started p \<longleftrightarrow> p \<notin> {A_Shmget, A_Shmat, A_Undo, A_Zero, A_Return}"

definition kid_ok :: "astate \<Rightarrow> kid \<Rightarrow> bool" where
  "kid_ok s k \<longleftrightarrow>
     (let l = a_kid s k in
      k_i l \<le> kid_iters \<and>
      (k_pc l \<in> {K_Unborn, K_Title} \<longrightarrow> k_i l = 0) \<and>
      (k_pc l \<in> {K_Load, K_Store, K_Print, K_Sleep} \<longrightarrow> k_i l < kid_iters) \<and>
      (k_pc l \<in> {K_Shmdt, K_Exit, K_Zombie, K_Reaped} \<longrightarrow> k_i l = kid_iters))"

lemma shm_child_cases [consumes 1, case_names Title Enter Leave Load Store Print Sleep Shmdt Exit]:
  assumes "shm_child k s = Some t"
  obtains "k_pc (a_kid s k) = K_Title"
      "t = s\<lparr>a_log := a_log s @ [Title k], a_kid := (a_kid s)(k := (a_kid s k)\<lparr>k_pc := K_Loop\<rparr>)\<rparr>"
  | "k_pc (a_kid s k) = K_Loop" "k_i (a_kid s k) < kid_iters"
      "t = s\<lparr>a_kid := (a_kid s)(k := (a_kid s k)\<lparr>k_pc := K_Load\<rparr>)\<rparr>"
  | "k_pc (a_kid s k) = K_Loop" "\<not> k_i (a_kid s k) < kid_iters"
      "t = s\<lparr>a_kid := (a_kid s)(k := (a_kid s k)\<lparr>k_pc := K_Shmdt\<rparr>)\<rparr>"
  | "k_pc (a_kid s k) = K_Load"
      "t = s\<lparr>a_kid := (a_kid s)(k := (a_kid s k)\<lparr>k_pc := K_Store, k_tmp := a_val s\<rparr>)\<rparr>"
  | "k_pc (a_kid s k) = K_Store"
      "t = s\<lparr>a_val := k_tmp (a_kid s k) + 1, a_kid := (a_kid s)(k := (a_kid s k)\<lparr>k_pc := K_Print\<rparr>)\<rparr>"
  | "k_pc (a_kid s k) = K_Print"
      "t = s\<lparr>a_log := a_log s @ [Counter k (a_val s)], a_kid := (a_kid s)(k := (a_kid s k)\<lparr>k_pc := K_Sleep\<rparr>)\<rparr>"
  | "k_pc (a_kid s k) = K_Sleep"
      "t = s\<lparr>a_kid := (a_kid s)(k := (a_kid s k)\<lparr>k_pc := K_Loop, k_i := Suc (k_i (a_kid s k))\<rparr>)\<rparr>"
  | "k_pc (a_kid s k) = K_Shmdt"
      "t = s\<lparr>a_nattch := a_nattch s - 1, a_kid := (a_kid s)(k := (a_kid s k)\<lparr>k_pc := K_Exit\<rparr>)\<rparr>"
  | "k_pc (a_kid s k) = K_Exit"
      "t = s\<lparr>a_kid := (a_kid s)(k := (a_kid s k)\<lparr>k_pc := K_Zombie\<rparr>)\<rparr>"
proof (cases "k_pc (a_kid s k)")
  case K_Title
  with assms that(1) show ?thesis by (simp add: shm_child_def set_kid_def Let_def)
next
  case K_Loop
  with assms that(2,3) show ?thesis by (simp add: shm_child_def set_kid_def Let_def split: if_splits)
next
  case K_Load
  with assms that(4) show ?thesis by (simp add: shm_child_def set_kid_def Let_def)
next
  case K_Store
  with assms that(5) show ?thesis by (simp add: shm_child_def set_kid_def Let_def)
next
  case K_Print
  with assms that(6) show ?thesis by (simp add: shm_child_def set_kid_def Let_def)
next
  case K_Sleep
  with assms that(7) show ?thesis by (simp add: shm_child_def set_kid_def Let_def)
next
  case K_Shmdt
  with assms that(8) show ?thesis by (simp add: shm_child_def set_kid_def Let_def)
next
  case K_Exit
  with assms that(9) show ?thesis by (simp add: shm_child_def set_kid_def Let_def)
qed (use assms in \<open>simp_all add: shm_child_def Let_def\<close>)

text \<open>Only a store changes the number of stores, and by one.\<close>

lemma child_stores:
  assumes "shm_child k s = Some t"
  shows "stores (a_kid t k) = stores (a_kid s k) + of_bool (k_pc (a_kid s k) = K_Store)"
    and "a_kid t (other k) = a_kid s (other k)"
    and "a_val t = (if k_pc (a_kid s k) = K_Store then k_tmp (a_kid s k) + 1 else a_val s)"
    and "a_main t = a_main s" and "a_exists t = a_exists s" and "a_refused t = a_refused s"
  using assms by (cases rule: shm_child_cases; simp add: stores_def)+

lemma total_other: "total s = stores (a_kid s k) + stores (a_kid s (other k))"
  by (cases k) (simp_all add: total_def)

lemma child_val_ok:
  assumes v: "val_ok s" and m: "tmp_ok s k" and step: "shm_child k s = Some t"
  shows "val_ok t"
proof (cases "k_pc (a_kid s k) = K_Store")
  case True
  with child_stores [OF step] m show ?thesis
    by (cases k) (auto simp: val_ok_def tmp_ok_def total_def)
next
  case False
  with child_stores [OF step] have "stores (a_kid t i) = stores (a_kid s i)" for i
    by (cases i; cases k) auto
  with False child_stores(3) [OF step] v show ?thesis by (simp add: val_ok_def total_def)
qed

lemma child_tmp_self:
  assumes v: "val_ok s" and step: "shm_child k s = Some t"
  shows "tmp_ok t k"
  using step v by (cases rule: shm_child_cases; cases k) (auto simp: tmp_ok_def val_ok_def total_def stores_def)

lemma child_tmp_other:
  assumes m: "tmp_ok s (other k)" and step: "shm_child k s = Some t"
  shows "tmp_ok t (other k)"
proof -
  have o: "other (other k) = k" by (cases k) simp_all
  have "total s \<le> total t" "stores (a_kid t k) = 0 \<Longrightarrow> stores (a_kid s k) = 0"
    using child_stores [OF step] by (simp_all add: total_other [of _ k])
  with m child_stores(2) [OF step] o show ?thesis by (auto simp: tmp_ok_def)
qed

lemma child_kid_ok:
  assumes "shm_child k s = Some t" and "kid_ok s k"
  shows "kid_ok t k"
  using assms by (cases rule: shm_child_cases) (simp_all add: kid_ok_def Let_def)

section \<open>The parent\<close>

fun kid_attached :: "kpc \<Rightarrow> bool" where
  "kid_attached K_Unborn = False"
| "kid_attached K_Exit = False"
| "kid_attached K_Zombie = False"
| "kid_attached K_Reaped = False"
| "kid_attached _ = True"

definition parent_attached :: "apc \<Rightarrow> bool" where
  "parent_attached p \<longleftrightarrow> p \<in> {A_Zero, A_Initial, A_Fork1, A_Fork2, A_Wait1, A_Wait2, A_Final, A_Shmdt}"

text \<open>
  The attachments of the segment are those of the live processes, and it exists until it is removed, or for ever when the
  removal is refused.
\<close>

definition attach_ok :: "astate \<Rightarrow> bool" where
  "attach_ok s \<longleftrightarrow>
     a_nattch s = of_bool (parent_attached (a_main s)) + of_bool (kid_attached (k_pc (a_kid s K1))) +
       of_bool (kid_attached (k_pc (a_kid s K2))) \<and>
     (a_exists s \<longleftrightarrow> a_main s \<notin> {A_Shmget, A_Return} \<or> a_refused s) \<and> (a_refused s \<longrightarrow> a_main s = A_Return)"

definition before_fork :: "kid \<Rightarrow> apc \<Rightarrow> bool" where
  "before_fork k p \<longleftrightarrow>
     p \<in> {A_Shmget, A_Shmat, A_Undo, A_Zero, A_Initial, A_Fork1} \<or> k = K2 \<and> p = A_Fork2"

definition waited :: "apc \<Rightarrow> bool" where
  "waited p \<longleftrightarrow> p \<in> {A_Final, A_Shmdt, A_Rmid, A_Return}"

text \<open>No child exists before its fork, and all have been reaped when the parent has waited twice.\<close>

definition family_ok :: "astate \<Rightarrow> bool" where
  "family_ok s \<longleftrightarrow>
     (before_fork K1 (a_main s) \<longrightarrow> k_pc (a_kid s K1) = K_Unborn) \<and>
     (before_fork K2 (a_main s) \<longrightarrow> k_pc (a_kid s K2) = K_Unborn) \<and>
     (a_main s = A_Wait2 \<longrightarrow> \<not> is_child (k_pc (a_kid s K1)) \<and>
        (k_pc (a_kid s K1) = K_Unborn \<longrightarrow> \<not> is_child (k_pc (a_kid s K2)))) \<and>
     (waited (a_main s) \<longrightarrow> \<not> is_child (k_pc (a_kid s K1)) \<and> \<not> is_child (k_pc (a_kid s K2)))"

text \<open>The final line shows the value at the end.\<close>

definition final_ok :: "astate \<Rightarrow> bool" where
  "final_ok s \<longleftrightarrow>
     (\<forall>v. FinalValue v \<in> set (a_log s) \<longrightarrow>
        v = a_val s \<and> val_ok s \<and> a_main s \<in> {A_Shmdt, A_Rmid, A_Return})"

definition race_inv :: "astate \<Rightarrow> bool" where
  "race_inv s \<longleftrightarrow>
     kid_ok s K1 \<and> kid_ok s K2 \<and> tmp_ok s K1 \<and> tmp_ok s K2 \<and> (started (a_main s) \<longrightarrow> val_ok s) \<and>
     attach_ok s \<and> family_ok s \<and> final_ok s"

lemma race_invD:
  assumes "race_inv s"
  shows "kid_ok s k" "tmp_ok s k" "started (a_main s) \<Longrightarrow> val_ok s" "attach_ok s" "family_ok s" "final_ok s"
  using assms by (cases k; simp add: race_inv_def)+

lemma is_child_simps [simp]:
  "is_child p \<Longrightarrow> p \<noteq> K_Unborn" "\<not> is_child K_Unborn" "\<not> is_child K_Reaped" "is_child K_Zombie"
  by (auto simp: is_child_def)

lemma family_child:
  assumes "family_ok s" and "is_child (k_pc (a_kid s k))"
  shows "\<not> before_fork k (a_main s)" "\<not> waited (a_main s)" "a_main s = A_Wait2 \<Longrightarrow> k = K2 \<and> k_pc (a_kid s K1) \<noteq> K_Unborn"
  using assms by (cases k; force simp: family_ok_def)+

text \<open>A child that can move is a child, so the parent is between its forks and its waits.\<close>

lemma moving_child:
  assumes "shm_child k s = Some t" and "family_ok s"
  shows "is_child (k_pc (a_kid s k))" and "is_child (k_pc (a_kid t k))" and "started (a_main s)"
    and "\<not> before_fork k (a_main s)" and "\<not> waited (a_main s)" and "a_main s = A_Wait2 \<Longrightarrow> k = K2"
proof -
  show c: "is_child (k_pc (a_kid s k))" and "is_child (k_pc (a_kid t k))"
    using assms(1) by (cases rule: shm_child_cases; simp add: is_child_def)+
  show "\<not> before_fork k (a_main s)" "\<not> waited (a_main s)" "a_main s = A_Wait2 \<Longrightarrow> k = K2"
    using family_child [OF assms(2) c] by blast+
  then show "started (a_main s)" by (cases "a_main s") (auto simp: started_def before_fork_def waited_def)
qed

lemma child_attach:
  assumes "attach_ok s" and "shm_child k s = Some t"
  shows "attach_ok t"
  using assms(2,1) by (cases rule: shm_child_cases; cases k) (simp_all add: attach_ok_def)

lemma child_family:
  assumes "family_ok s" and step: "shm_child k s = Some t"
  shows "family_ok t"
proof -
  note m = moving_child [OF step assms(1)]
  note f = child_stores(2,4) [OF step]
  have k: "k_pc (a_kid s k) \<noteq> K_Unborn" "k_pc (a_kid t k) \<noteq> K_Unborn" using m(1,2) by auto
  show ?thesis
    using assms(1) m(4-6) f k family_child(3) [OF assms(1) m(1)] unfolding family_ok_def
    by (cases k) (auto simp: before_fork_def)
qed

lemma child_final:
  assumes "final_ok s" and "family_ok s" and step: "shm_child k s = Some t"
  shows "final_ok t"
proof -
  have "\<not> waited (a_main s)" using moving_child [OF step assms(2)] by blast
  then have no: "FinalValue v \<notin> set (a_log s)" for v using assms(1) by (auto simp: final_ok_def waited_def)
  from step have "FinalValue v \<notin> set (a_log t)" for v using no by (cases rule: shm_child_cases) simp_all
  then show ?thesis by (simp add: final_ok_def)
qed

lemma child_inv:
  assumes inv: "race_inv s" and step: "shm_child k s = Some t"
  shows "race_inv t"
proof -
  note d = race_invD [OF inv]
  have st: "started (a_main s)" using moving_child [OF step d(5)] by blast
  have kid: "kid_ok t i \<and> tmp_ok t i" for i
  proof (cases "i = k")
    case True
    with step d(1) [of k] d(3) [OF st] show ?thesis by (simp add: child_kid_ok child_tmp_self)
  next
    case False
    then have i: "i = other k" by (cases i; cases k) simp_all
    with child_stores(2) [OF step] d(1) [of i] have "kid_ok t i" by (simp add: kid_ok_def)
    with i step d(2) [of i] show ?thesis by (simp add: child_tmp_other)
  qed
  have "val_ok t" using d(3) [OF st] d(2) [of k] step by (rule child_val_ok)
  with kid d step show ?thesis
    by (simp add: race_inv_def child_attach child_family child_final)
qed

text \<open>The cases of one statement of the parent.\<close>

lemma waitpid_cases [consumes 1, case_names Reap NoChild]:
  assumes "waitpid k s = Some t"
  obtains j where "k_pc (a_kid s j) = K_Zombie" "t = reap j s" "j = k \<or> k_pc (a_kid s k) = K_Unborn"
  | "t = s" "\<not> is_child (k_pc (a_kid s k))"
      "k_pc (a_kid s k) = K_Unborn \<Longrightarrow> \<not> is_child (k_pc (a_kid s K1)) \<and> \<not> is_child (k_pc (a_kid s K2))"
proof (cases "k_pc (a_kid s k)")
  case K_Unborn
  show ?thesis
  proof (cases "k_pc (a_kid s K1) = K_Zombie \<or> k_pc (a_kid s K2) = K_Zombie")
    case True
    with K_Unborn assms that(1) show ?thesis by (simp add: waitpid_def split: if_splits)
  next
    case False
    with K_Unborn assms that(2) show ?thesis by (simp add: waitpid_def split: if_splits)
  qed
next
  case K_Zombie
  with assms that(1) [of k] show ?thesis by (simp add: waitpid_def)
next
  case K_Reaped
  with assms that(2) show ?thesis by (simp add: waitpid_def)
qed (use assms in \<open>simp_all add: waitpid_def\<close>)

definition log_line :: "aline \<Rightarrow> apc \<Rightarrow> astate \<Rightarrow> astate" where
  "log_line l p s = s\<lparr>a_log := a_log s @ [l], a_main := p\<rparr>"

lemma race_rmid_simps [simp]:
  "a_val (race_rmid ok s) = a_val s" "a_nattch (race_rmid ok s) = a_nattch s" "a_kid (race_rmid ok s) = a_kid s"
  "a_main (race_rmid ok s) = A_Return" "a_log (race_rmid ok s) = a_log s"
  "a_exists (race_rmid ok s) = (a_exists s \<and> \<not> ok)" "a_refused (race_rmid ok s) = (a_refused s \<or> \<not> ok)"
  by (simp_all add: race_rmid_def)

lemma parent_cases
  [consumes 1, case_names Get NoGet At NoAt Undo Zero Init Fork1 Fork2 Wait1 Wait2 Final Detach Remove]:
  assumes "demonstrate_multiple_attachments ok s = Some t"
  obtains "a_main s = A_Shmget" "t = s\<lparr>a_exists := True, a_main := A_Shmat\<rparr>"
  | "a_main s = A_Shmget" "t = log_line (Perror ''shmget'') A_Return s"
  | "a_main s = A_Shmat" "t = s\<lparr>a_nattch := Suc (a_nattch s), a_main := A_Zero\<rparr>"
  | "a_main s = A_Shmat" "t = log_line (Perror ''shmat'') A_Undo s"
  | "a_main s = A_Undo" "t = race_rmid ok s"
  | "a_main s = A_Zero" "t = s\<lparr>a_val := 0, a_main := A_Initial\<rparr>"
  | "a_main s = A_Initial" "t = log_line (Initial (a_val s)) A_Fork1 s"
  | "a_main s = A_Fork1" "t = (fork_kid ok K1 s)\<lparr>a_main := A_Fork2\<rparr>"
  | "a_main s = A_Fork2" "t = (fork_kid ok K2 s)\<lparr>a_main := A_Wait1\<rparr>"
  | u where "a_main s = A_Wait1" "waitpid K1 s = Some u" "t = u\<lparr>a_main := A_Wait2\<rparr>"
  | u where "a_main s = A_Wait2" "waitpid K2 s = Some u" "t = u\<lparr>a_main := A_Final\<rparr>"
  | "a_main s = A_Final" "t = log_line (FinalValue (a_val s)) A_Shmdt s"
  | "a_main s = A_Shmdt" "t = s\<lparr>a_nattch := a_nattch s - 1, a_main := A_Rmid\<rparr>"
  | "a_main s = A_Rmid" "t = race_rmid ok s"
proof (cases "a_main s")
  case A_Shmget
  with assms that(1,2) show ?thesis by (simp add: demonstrate_multiple_attachments_def log_line_def split: if_splits)
next
  case A_Shmat
  with assms that(3,4) show ?thesis by (simp add: demonstrate_multiple_attachments_def log_line_def split: if_splits)
next
  case A_Undo
  with assms that(5) show ?thesis by (simp add: demonstrate_multiple_attachments_def log_line_def)
next
  case A_Zero
  with assms that(6) show ?thesis by (simp add: demonstrate_multiple_attachments_def log_line_def)
next
  case A_Initial
  with assms that(7) show ?thesis by (simp add: demonstrate_multiple_attachments_def log_line_def)
next
  case A_Fork1
  with assms that(8) show ?thesis by (simp add: demonstrate_multiple_attachments_def log_line_def)
next
  case A_Fork2
  with assms that(9) show ?thesis by (simp add: demonstrate_multiple_attachments_def log_line_def)
next
  case A_Wait1
  with assms that(10) show ?thesis by (auto simp: demonstrate_multiple_attachments_def log_line_def)
next
  case A_Wait2
  with assms that(11) show ?thesis by (auto simp: demonstrate_multiple_attachments_def log_line_def)
next
  case A_Final
  with assms that(12) show ?thesis by (simp add: demonstrate_multiple_attachments_def log_line_def)
next
  case A_Shmdt
  with assms that(13) show ?thesis by (simp add: demonstrate_multiple_attachments_def log_line_def)
next
  case A_Rmid
  with assms that(14) show ?thesis by (simp add: demonstrate_multiple_attachments_def log_line_def)
qed (use assms in \<open>simp_all add: demonstrate_multiple_attachments_def\<close>)

text \<open>What the parent does to a child: nothing, make it, or reap it.\<close>

lemma parent_child:
  assumes step: "demonstrate_multiple_attachments ok s = Some t" and inv: "race_inv s"
  shows "a_kid t k = a_kid s k \<or>
    (k_pc (a_kid s k) = K_Unborn \<and> a_kid t k = \<lparr>k_pc = K_Title, k_i = 0, k_tmp = 0\<rparr>) \<or>
    (k_pc (a_kid s k) = K_Zombie \<and> a_kid t k = (a_kid s k)\<lparr>k_pc := K_Reaped\<rparr>)"
  using step
proof (cases rule: parent_cases)
  case Fork1
  with race_invD(5) [OF inv] show ?thesis by (auto simp: fork_kid_def set_kid_def family_ok_def before_fork_def)
next
  case Fork2
  with race_invD(5) [OF inv] show ?thesis by (auto simp: fork_kid_def set_kid_def family_ok_def before_fork_def)
next
  case (Wait1 u)
  from Wait1(2) show ?thesis
    by (cases rule: waitpid_cases) (use Wait1(3) in \<open>auto simp: reap_def set_kid_def\<close>)
next
  case (Wait2 u)
  from Wait2(2) show ?thesis
    by (cases rule: waitpid_cases) (use Wait2(3) in \<open>auto simp: reap_def set_kid_def\<close>)
qed (simp_all add: log_line_def)

lemma parent_stores:
  assumes "demonstrate_multiple_attachments ok s = Some t" and inv: "race_inv s"
  shows "stores (a_kid t k) = stores (a_kid s k)" and "kid_ok t k"
    and "k_pc (a_kid t k) = K_Store \<Longrightarrow> a_kid t k = a_kid s k"
proof -
  note ok = race_invD(1) [OF inv, of k]
  consider "a_kid t k = a_kid s k"
    | "k_pc (a_kid s k) = K_Unborn" "a_kid t k = \<lparr>k_pc = K_Title, k_i = 0, k_tmp = 0\<rparr>"
    | "k_pc (a_kid s k) = K_Zombie" "a_kid t k = (a_kid s k)\<lparr>k_pc := K_Reaped\<rparr>"
    using parent_child [OF assms] by blast
  then show "stores (a_kid t k) = stores (a_kid s k)" and "kid_ok t k"
    and "k_pc (a_kid t k) = K_Store \<Longrightarrow> a_kid t k = a_kid s k"
    by (cases; use ok in \<open>simp add: stores_def kid_ok_def Let_def\<close>)+
qed

lemma parent_tmp:
  assumes "demonstrate_multiple_attachments ok s = Some t" and inv: "race_inv s"
  shows "tmp_ok t k"
proof (cases "k_pc (a_kid t k) = K_Store")
  case True
  then have "a_kid t k = a_kid s k" by (rule parent_stores(3) [OF assms])
  with race_invD(2) [OF inv, of k] parent_stores(1) [OF assms] show ?thesis
    by (simp add: tmp_ok_def total_def)
qed (simp add: tmp_ok_def)

lemma parent_val:
  assumes step: "demonstrate_multiple_attachments ok s = Some t" and inv: "race_inv s"
    and "started (a_main t)"
  shows "val_ok t"
proof (cases "a_main s = A_Zero")
  case True
  with race_invD(5) [OF inv] have "k_pc (a_kid s k) = K_Unborn" for k
    by (cases k) (auto simp: family_ok_def before_fork_def)
  then have "stores (a_kid s k) = 0" for k
    using race_invD(1) [OF inv, of k] by (simp add: stores_def kid_ok_def Let_def)
  moreover have "a_val t = 0" using True step by (auto simp: demonstrate_multiple_attachments_def)
  ultimately show ?thesis
    using parent_stores(1) [OF step inv] by (simp add: val_ok_def total_def)
next
  case False
  have "started (a_main s) \<and> a_val t = a_val s"
    using step False assms(3)
  proof (cases rule: parent_cases)
    case (Wait1 u)
    from Wait1(2) show ?thesis
      by (cases rule: waitpid_cases) (use Wait1 in \<open>simp_all add: reap_def set_kid_def started_def\<close>)
  next
    case (Wait2 u)
    from Wait2(2) show ?thesis
      by (cases rule: waitpid_cases) (use Wait2 in \<open>simp_all add: reap_def set_kid_def started_def\<close>)
  qed (simp_all add: log_line_def started_def fork_kid_def set_kid_def)
  with race_invD(3) [OF inv] parent_stores(1) [OF step inv] show ?thesis by (simp add: val_ok_def total_def)
qed

lemma parent_attach:
  assumes step: "demonstrate_multiple_attachments ok s = Some t" and inv: "race_inv s"
  shows "attach_ok t"
proof -
  from inv have a: "attach_ok s" and f: "family_ok s" by (simp_all add: race_invD)
  show ?thesis
    using step
  proof (cases rule: parent_cases)
    case Fork1
    with f have "k_pc (a_kid s K1) = K_Unborn" by (simp add: family_ok_def before_fork_def)
    with a Fork1 show ?thesis by (simp add: attach_ok_def parent_attached_def fork_kid_def set_kid_def)
  next
    case Fork2
    with f have "k_pc (a_kid s K2) = K_Unborn" by (simp add: family_ok_def before_fork_def)
    with a Fork2 show ?thesis by (simp add: attach_ok_def parent_attached_def fork_kid_def set_kid_def)
  next
    case (Wait1 u)
    from Wait1(2) show ?thesis
    proof (cases rule: waitpid_cases)
      case (Reap j)
      with a Wait1 show ?thesis
        by (cases j) (simp_all add: attach_ok_def parent_attached_def reap_def set_kid_def)
    qed (use a Wait1 in \<open>simp_all add: attach_ok_def parent_attached_def\<close>)
  next
    case (Wait2 u)
    from Wait2(2) show ?thesis
    proof (cases rule: waitpid_cases)
      case (Reap j)
      with a Wait2 show ?thesis
        by (cases j) (simp_all add: attach_ok_def parent_attached_def reap_def set_kid_def)
    qed (use a Wait2 in \<open>simp_all add: attach_ok_def parent_attached_def\<close>)
  qed (use a in \<open>simp_all add: attach_ok_def parent_attached_def log_line_def\<close>)
qed

lemma parent_family:
  assumes step: "demonstrate_multiple_attachments ok s = Some t" and inv: "race_inv s"
  shows "family_ok t"
proof -
  from inv have f: "family_ok s" by (simp add: race_invD)
  show ?thesis
    using step
  proof (cases rule: parent_cases)
    case (Wait1 u)
    from Wait1(2) show ?thesis
    proof (cases rule: waitpid_cases)
      case (Reap j)
      with f Wait1 show ?thesis
        by (cases j) (simp_all add: family_ok_def before_fork_def waited_def reap_def set_kid_def)
    qed (use Wait1 in \<open>simp add: family_ok_def before_fork_def waited_def\<close>)
  next
    case (Wait2 u)
    with f have c: "\<not> is_child (k_pc (a_kid s K1))"
        "k_pc (a_kid s K1) = K_Unborn \<Longrightarrow> \<not> is_child (k_pc (a_kid s K2))"
      by (simp_all add: family_ok_def)
    from Wait2(2) show ?thesis
    proof (cases rule: waitpid_cases)
      case (Reap j)
      with c Wait2 show ?thesis
        by (cases j) (auto simp: family_ok_def before_fork_def waited_def reap_def set_kid_def)
    qed (use Wait2 c in \<open>simp add: family_ok_def before_fork_def waited_def\<close>)
  qed (use f in \<open>simp_all add: family_ok_def before_fork_def waited_def log_line_def fork_kid_def set_kid_def\<close>)
qed

lemma parent_final:
  assumes step: "demonstrate_multiple_attachments ok s = Some t" and inv: "race_inv s"
  shows "final_ok t"
proof (cases "a_main s \<in> {A_Final, A_Shmdt, A_Rmid}")
  case True
  then have v: "val_ok s" and f: "final_ok s" using inv by (auto simp: race_inv_def started_def)
  have w: "a_val t = a_val s \<and> a_kid t = a_kid s \<and> a_main t \<in> {A_Shmdt, A_Rmid, A_Return} \<and>
    (\<forall>v. FinalValue v \<in> set (a_log t) \<longrightarrow> FinalValue v \<in> set (a_log s) \<or> v = a_val s)"
    using step by (cases rule: parent_cases) (use True in \<open>simp_all add: log_line_def\<close>)
  then have "val_ok t" using v by (simp add: val_ok_def total_def)
  with w f show ?thesis unfolding final_ok_def by metis
next
  case False
  with inv have no: "FinalValue v \<notin> set (a_log s)" if "a_main s \<noteq> A_Return" for v
    using that by (auto simp: race_inv_def final_ok_def)
  from step have "a_main s \<noteq> A_Return" by (auto simp: demonstrate_multiple_attachments_def)
  with no have no: "FinalValue v \<notin> set (a_log s)" for v by blast
  have "FinalValue v \<notin> set (a_log t)" for v
    using step
  proof (cases rule: parent_cases)
    case (Wait1 u)
    from Wait1(2) show ?thesis
      by (cases rule: waitpid_cases) (use Wait1 no in \<open>simp_all add: reap_def set_kid_def\<close>)
  next
    case (Wait2 u)
    from Wait2(2) show ?thesis
      by (cases rule: waitpid_cases) (use Wait2 no in \<open>simp_all add: reap_def set_kid_def\<close>)
  qed (use no False in \<open>simp_all add: log_line_def fork_kid_def set_kid_def\<close>)
  then show ?thesis by (simp add: final_ok_def)
qed

lemma shm_act_inv: "race_inv s \<Longrightarrow> shm_act a s = Some t \<Longrightarrow> race_inv t"
proof (cases a)
  case (A_Parent ok)
  assume "race_inv s" "shm_act a s = Some t"
  with A_Parent show ?thesis
    unfolding race_inv_def [of t]
    by (simp add: parent_stores(2) parent_tmp parent_val parent_attach parent_family parent_final)
qed (simp add: child_inv)

lemma shm_start_inv: "race_inv (shm_start v)"
  by (simp add: race_inv_def shm_start_def kid_ok_def tmp_ok_def started_def attach_ok_def family_ok_def
      final_ok_def parent_attached_def waited_def Let_def)

section \<open>Termination and progress\<close>

fun kpc_left :: "kpc \<Rightarrow> nat" where
  "kpc_left K_Unborn = 10"
| "kpc_left K_Title = 9"
| "kpc_left K_Loop = 8"
| "kpc_left K_Load = 7"
| "kpc_left K_Store = 6"
| "kpc_left K_Print = 5"
| "kpc_left K_Sleep = 4"
| "kpc_left K_Shmdt = 3"
| "kpc_left K_Exit = 2"
| "kpc_left K_Zombie = 1"
| "kpc_left K_Reaped = 0"

fun apc_left :: "apc \<Rightarrow> nat" where
  "apc_left A_Shmget = 11"
| "apc_left A_Shmat = 10"
| "apc_left A_Zero = 9"
| "apc_left A_Initial = 8"
| "apc_left A_Fork1 = 7"
| "apc_left A_Fork2 = 6"
| "apc_left A_Wait1 = 5"
| "apc_left A_Wait2 = 4"
| "apc_left A_Final = 3"
| "apc_left A_Shmdt = 2"
| "apc_left A_Rmid = 1"
| "apc_left A_Undo = 1"
| "apc_left A_Return = 0"

definition kid_left :: "kchild \<Rightarrow> nat" where
  "kid_left l = 5 * (kid_iters - k_i l) + kpc_left (k_pc l)"

definition race_measure :: "astate \<Rightarrow> nat" where
  "race_measure s = apc_left (a_main s) + kid_left (a_kid s K1) + kid_left (a_kid s K2)"

lemma kid_left_decreases:
  assumes "shm_child k s = Some t" and "kid_ok s k"
  shows "kid_left (a_kid t k) < kid_left (a_kid s k)"
  using assms by (cases rule: shm_child_cases; simp add: kid_left_def kid_ok_def Let_def; arith?)

lemma child_decreases:
  assumes "race_inv s" and step: "shm_child k s = Some t"
  shows "race_measure t < race_measure s"
  using kid_left_decreases [OF step race_invD(1) [OF assms(1)]] child_stores(2,4) [OF step]
  by (cases k) (simp_all add: race_measure_def)

lemma parent_kid_left:
  assumes "demonstrate_multiple_attachments ok s = Some t" and inv: "race_inv s"
  shows "kid_left (a_kid t k) \<le> kid_left (a_kid s k)"
proof -
  note ok = race_invD(1) [OF inv, of k]
  consider "a_kid t k = a_kid s k"
    | "k_pc (a_kid s k) = K_Unborn" "a_kid t k = \<lparr>k_pc = K_Title, k_i = 0, k_tmp = 0\<rparr>"
    | "k_pc (a_kid s k) = K_Zombie" "a_kid t k = (a_kid s k)\<lparr>k_pc := K_Reaped\<rparr>"
    using parent_child [OF assms] by blast
  then show ?thesis by cases (use ok in \<open>simp_all add: kid_left_def kid_ok_def Let_def\<close>)
qed

lemma parent_main_left:
  assumes "demonstrate_multiple_attachments ok s = Some t"
  shows "apc_left (a_main t) < apc_left (a_main s)"
  using assms by (cases rule: parent_cases) (simp_all add: log_line_def fork_kid_def set_kid_def)

lemma parent_decreases:
  assumes "race_inv s" and step: "demonstrate_multiple_attachments ok s = Some t"
  shows "race_measure t < race_measure s"
  using parent_main_left [OF step] parent_kid_left [OF step assms(1), of K1]
    parent_kid_left [OF step assms(1), of K2]
  by (simp add: race_measure_def)

definition race_final :: "astate \<Rightarrow> bool" where
  "race_final s \<longleftrightarrow> a_main s = A_Return"

lemma child_can_step:
  "is_child (k_pc (a_kid s k)) \<Longrightarrow> k_pc (a_kid s k) \<noteq> K_Zombie \<Longrightarrow> \<exists>t. shm_child k s = Some t"
  by (cases "k_pc (a_kid s k)") (simp_all add: shm_child_def is_child_def Let_def)

lemma waitpid_blocked:
  assumes "waitpid k s = None"
  shows "\<exists>j. is_child (k_pc (a_kid s j)) \<and> k_pc (a_kid s j) \<noteq> K_Zombie"
proof (cases "k_pc (a_kid s k) = K_Unborn")
  case True
  with assms show ?thesis by (auto simp: waitpid_def split: if_splits)
next
  case False
  with assms have "is_child (k_pc (a_kid s k)) \<and> k_pc (a_kid s k) \<noteq> K_Zombie"
    by (cases "k_pc (a_kid s k)") (simp_all add: waitpid_def is_child_def)
  then show ?thesis by blast
qed

lemma race_progress:
  assumes "\<not> race_final s"
  shows "\<exists>t. shm_step s t"
proof (cases "demonstrate_multiple_attachments True s")
  case None
  with assms have "waitpid K1 s = None \<or> waitpid K2 s = None"
    by (cases "a_main s") (auto simp: demonstrate_multiple_attachments_def race_final_def)
  then obtain j t where "shm_act (A_Kid j) s = Some t"
    using waitpid_blocked child_can_step by (metis shm_act.simps(2))
  then show ?thesis by blast
next
  case (Some t)
  then have "shm_act (A_Parent True) s = Some t" by simp
  then show ?thesis by blast
qed

lemma shm_act_decreases: "race_inv s \<Longrightarrow> shm_act a s = Some t \<Longrightarrow> race_measure t < race_measure s"
  by (cases a) (auto intro: child_decreases parent_decreases)

interpretation race_sys: live_system shm_step "shm_start v" race_inv race_measure race_final
proof
  show "race_inv (shm_start v)" by (rule shm_start_inv)
  fix s t
  assume "race_inv s" and "shm_step s t"
  then show "race_inv t" and "race_measure t < race_measure s"
    by (auto elim!: step_ofE intro: shm_act_inv shm_act_decreases)
qed (rule race_progress)

section \<open>Properties\<close>

text \<open>The children that were made.\<close>

definition forked :: "astate \<Rightarrow> kid \<Rightarrow> bool" where
  "forked s k \<longleftrightarrow> k_pc (a_kid s k) \<noteq> K_Unborn"

lemma forked_stores:
  assumes "race_inv s" and "waited (a_main s)"
  shows "stores (a_kid s k) = (if forked s k then 3 else 0)"
proof -
  from assms have "\<not> is_child (k_pc (a_kid s k))" by (cases k) (auto simp: race_inv_def family_ok_def)
  then consider "k_pc (a_kid s k) = K_Unborn" | "k_pc (a_kid s k) = K_Reaped" by (auto simp: is_child_def)
  then show ?thesis
    by cases (use race_invD(1) [OF assms(1), of k] in
        \<open>simp_all add: forked_def stores_def kid_ok_def kid_iters_def Let_def\<close>)
qed

text \<open>
  C10. The final value the parent prints: between 2 and 6 when both children were made, whatever the
  interleaving of their unsynchronised increments; exactly 3 with one child and 0 with none.
\<close>

theorem race_final_value:
  assumes "shm_step\<^sup>*\<^sup>* (shm_start v0) s" and "FinalValue v \<in> set (a_log s)"
  shows "(forked s K1 \<and> forked s K2 \<longrightarrow> 2 \<le> v \<and> v \<le> 6) \<and>
         (forked s K1 \<noteq> forked s K2 \<longrightarrow> v = 3) \<and> (\<not> forked s K1 \<and> \<not> forked s K2 \<longrightarrow> v = 0)"
proof -
  from assms(1) have inv: "race_inv s" by (rule race_sys.reach_inv)
  then have "final_ok s" by (simp add: race_invD)
  with assms(2) have v: "v = a_val s" "val_ok s" and "waited (a_main s)"
    by (auto simp: final_ok_def waited_def)
  note st = forked_stores [OF inv this(3)]
  show ?thesis using v by (auto simp: val_ok_def total_def st)
qed

text \<open>
  Schedules of the extremes: one child after the other, and the one in which each child's stores
  overwrite the other's.
\<close>

definition sequential_schedule :: "aactor list" where
  "sequential_schedule =
     replicate 6 (A_Parent True) @ replicate 19 (A_Kid K1) @ replicate 19 (A_Kid K2) @ replicate 5 (A_Parent True)"

definition lossy_schedule :: "aactor list" where
  "lossy_schedule =
     replicate 6 (A_Parent True) @ replicate 3 (A_Kid K1) @ replicate 11 (A_Kid K2) @ replicate 3 (A_Kid K1) @
     replicate 2 (A_Kid K2) @ replicate 13 (A_Kid K1) @ replicate 6 (A_Kid K2) @ replicate 5 (A_Parent True)"

lemmas shm_eval = shm_start_def shm_child_def demonstrate_multiple_attachments_def fork_kid_def waitpid_def
  reap_def set_kid_def kid_iters_def forked_def is_child_def eval_nat_numeral

text \<open>
  C35. Both bounds are reached: the unsynchronised program can print 6, and it can lose four of the
  six increments and print 2.
\<close>

theorem race_bounds_reached:
  "(\<exists>s. shm_step\<^sup>*\<^sup>* (shm_start v) s \<and> a_main s = A_Return \<and> forked s K1 \<and> forked s K2 \<and>
      FinalValue 2 \<in> set (a_log s)) \<and>
   (\<exists>s. shm_step\<^sup>*\<^sup>* (shm_start v) s \<and> a_main s = A_Return \<and> forked s K1 \<and> forked s K2 \<and>
      FinalValue 6 \<in> set (a_log s))"
proof
  show "\<exists>s. shm_step\<^sup>*\<^sup>* (shm_start v) s \<and> a_main s = A_Return \<and> forked s K1 \<and> forked s K2 \<and>
      FinalValue 2 \<in> set (a_log s)"
    by (rule run_sched_witness [where as = lossy_schedule]) (simp add: lossy_schedule_def shm_eval)
  show "\<exists>s. shm_step\<^sup>*\<^sup>* (shm_start v) s \<and> a_main s = A_Return \<and> forked s K1 \<and> forked s K2 \<and>
      FinalValue 6 \<in> set (a_log s)"
    by (rule run_sched_witness [where as = sequential_schedule]) (simp add: sequential_schedule_def shm_eval)
qed

lemma lossy_run:
  "\<exists>s. shm_step\<^sup>*\<^sup>* (shm_start 9) s \<and> a_main s = A_Return \<and> forked s K1 \<and> forked s K2 \<and>
      FinalValue 2 \<in> set (a_log s)"
  by (rule run_sched_witness [where as = lossy_schedule]) (simp add: lossy_schedule_def shm_eval)

theorem race_final_value_witness:
  "\<exists>s v. shm_step\<^sup>*\<^sup>* (shm_start 9) s \<and> FinalValue v \<in> set (a_log s) \<and> 2 \<le> v \<and> v \<le> 6"
  using lossy_run race_final_value by blast

text \<open>
  C31. On every path, with any outcome of \<^verbatim>\<open>shmget\<close>, \<^verbatim>\<open>shmat\<close> and the two forks, the demo returns
  (after at most 61 steps) with no attachment left, every child reaped, and the segment removed unless
  \<^verbatim>\<open>shmctl\<close> refused to remove it.
\<close>

theorem race_cleanup:
  assumes "(shm_step ^^ n) (shm_start v) s"
  shows "n \<le> 61 \<and> (\<exists>t. shm_step\<^sup>*\<^sup>* s t \<and> a_main t = A_Return) \<and>
    (a_main s = A_Return \<longrightarrow> (a_exists s \<longrightarrow> a_refused s) \<and> a_nattch s = 0 \<and>
       \<not> is_child (k_pc (a_kid s K1)) \<and> \<not> is_child (k_pc (a_kid s K2)))"
proof -
  have reach: "shm_step\<^sup>*\<^sup>* (shm_start v) s" using assms by (rule relpowp_imp_rtranclp)
  then have inv: "race_inv s" by (rule race_sys.reach_inv)
  have "race_measure (shm_start v) = 61"
    by (simp add: race_measure_def shm_start_def kid_left_def kid_iters_def)
  then have "n \<le> 61" using race_sys.bounded_runs [OF assms] by simp
  moreover have "\<exists>t. shm_step\<^sup>*\<^sup>* s t \<and> a_main t = A_Return"
    using race_sys.eventually_final [OF reach] by (simp add: race_final_def)
  moreover have "(a_exists s \<longrightarrow> a_refused s) \<and> a_nattch s = 0 \<and> \<not> is_child (k_pc (a_kid s K1)) \<and> \<not> is_child (k_pc (a_kid s K2))"
    if r: "a_main s = A_Return"
  proof -
    from race_invD(5) [OF inv] r have c: "\<not> is_child (k_pc (a_kid s K1))" "\<not> is_child (k_pc (a_kid s K2))"
      by (simp_all add: family_ok_def waited_def)
    have "\<not> is_child p \<Longrightarrow> \<not> kid_attached p" for p by (cases p) (simp_all add: is_child_def)
    with c race_invD(4) [OF inv] r show ?thesis by (simp add: attach_ok_def parent_attached_def)
  qed
  ultimately show ?thesis by blast
qed

theorem race_cleanup_witness:
  "\<exists>s n. (shm_step ^^ n) (shm_start 9) s \<and> a_main s = A_Return \<and> a_nattch s = 0 \<and> n \<le> 61"
proof -
  from lossy_run obtain s where "shm_step\<^sup>*\<^sup>* (shm_start 9) s" "a_main s = A_Return" by blast
  moreover from this obtain n where "(shm_step ^^ n) (shm_start 9) s" by (auto dest: rtranclp_imp_relpowp)
  ultimately show ?thesis using race_cleanup [of n 9 s] by blast
qed

end
