(* ===== verification/Shm_Main.thy ===== *)
theory Shm_Main
  imports Shm_Basic Shm_Race
begin

text \<open>
  \<^verbatim>\<open>demonstrate_shm_info\<close> and \<^verbatim>\<open>main\<close> of \<^verbatim>\<open>src/examples/shm_demo.c\<close>. \<^verbatim>\<open>main\<close> runs the three demos one after
  the other, each a system of processes of its own.
\<close>

section \<open>The information demo\<close>


text \<open>What \<^verbatim>\<open>shmctl\<close> with \<^verbatim>\<open>IPC_STAT\<close> gives.\<close>

record shmid_ds =
  shm_segsz :: nat
  shm_nattch :: nat
  shm_cpid :: int
  shm_lpid :: int
  shm_mode :: nat

datatype nline = NL_Header | NL_Perror string | NL_Info shmid_ds





fun nline_text :: "int \<Rightarrow> nline \<Rightarrow> string" where
  "nline_text shmid NL_Header = ''\<newline>=== Shared Memory Information ===\<newline>''"
| "nline_text shmid (NL_Perror m) = m"
| "nline_text shmid (NL_Info ds) = ''Segment ID: '' @ show_int shmid @ ''\<newline>Size: '' @ show_nat (shm_segsz ds) @
     '' bytes\<newline>Attached processes: '' @ show_nat (shm_nattch ds) @ ''\<newline>Creator PID: '' @ show_int (shm_cpid ds) @
     ''\<newline>Last shmat PID: '' @ show_int (shm_lpid ds) @ ''\<newline>Permissions: '' @ show_oct (shm_mode ds) @ ''\<newline>''"






section \<open>main\<close>























end
