(* ===== verification/Signal_Kernel.thy ===== *)
theory Signal_Kernel
  imports C_Library
begin

text \<open>
  Signals, and the handlers of \<^verbatim>\<open>src/examples/signal_demo.c\<close>. A process has a disposition for each signal, a mask, the set of
  its pending signals (a set: a signal that is pending is not pending twice), and a stack of the handlers that are running.
  While a handler runs its own signal is blocked; another signal may interrupt it. One step of a process is one statement: of
  the handler on top of the stack, or of the main program when the stack is empty.
\<close>

datatype sig = SIGINT | SIGUSR1 | SIGCHLD | SIGALRM

datatype handler = SIG_DFL | Sigint_handler | Sigusr1_handler | Sigchld_handler | Sigalrm_handler

datatype status = Running | Exited int | Killed sig

text \<open>The statements of the handlers (lines 18 to 36 and 206 to 208).\<close>

datatype int_pc = HI_Inc | HI_Write | HI_Test | HI_Exiting | HI_Exit

datatype usr1_pc = HU_Set | HU_Write

datatype chld_pc = HC_Write | HC_Wait

datatype frame = F_Int int_pc | F_Usr1 usr1_pc | F_Chld chld_pc | F_Alrm

text \<open>The lines the handlers write: the literal and the number of bytes given to \<^verbatim>\<open>write\<close>.\<close>

datatype hwrite = SH_Int | SH_Exiting | SH_Usr1 | SH_Chld | SH_Alrm

text \<open>The line of \<^verbatim>\<open>sigalrm_handler\<close>.\<close>

definition alarm_literal :: "string \<times> nat" where
  "alarm_literal = (''\<newline>[Handler] Alarm went off! (SIGALRM)\<newline>'', 37)"

fun hwrite_literal :: "hwrite \<Rightarrow> string" where
  "hwrite_literal SH_Int = ''\<newline>[Handler] Caught SIGINT (Ctrl+C)\<newline>''"
| "hwrite_literal SH_Exiting = ''[Handler] 3 SIGINTs received. Exiting.\<newline>''"
| "hwrite_literal SH_Usr1 = ''[Handler] Caught SIGUSR1\<newline>''"
| "hwrite_literal SH_Chld = ''[Handler] Child process terminated (SIGCHLD)\<newline>''"
| "hwrite_literal SH_Alrm = fst alarm_literal"

fun hwrite_count :: "hwrite \<Rightarrow> nat" where
  "hwrite_count SH_Int = 34"
| "hwrite_count SH_Exiting = 40"
| "hwrite_count SH_Usr1 = 25"
| "hwrite_count SH_Chld = 45"
| "hwrite_count SH_Alrm = snd alarm_literal"

text \<open>
  The bytes that \<^verbatim>\<open>write\<close> takes from a string literal, which ends with a null byte; \<open>None\<close> when it reads beyond that.
\<close>

definition written_bytes :: "hwrite \<Rightarrow> string option" where
  "written_bytes l =
     (if hwrite_count l \<le> length (hwrite_literal l) + 1
      then Some (take (hwrite_count l) (hwrite_literal l @ [CHR 0x00])) else None)"

text \<open>
  \<open>p_int\<close> and \<open>p_usr1\<close> are \<^verbatim>\<open>sigint_count\<close> and \<^verbatim>\<open>sigusr1_received\<close>; \<open>p_wake\<close> is the time at which the current
  \<^verbatim>\<open>sleep\<close> is over, \<open>p_eintr\<close> says that a handler was called since the current blocking call began.
\<close>

record process =
  p_disp :: "sig \<Rightarrow> handler"
  p_mask :: "sig \<Rightarrow> bool"
  p_pend :: "sig \<Rightarrow> bool"
  p_stack :: "frame list"
  p_int :: int
  p_usr1 :: bool
  p_wake :: nat
  p_eintr :: bool
  p_status :: status

fun frame_sig :: "frame \<Rightarrow> sig" where
  "frame_sig (F_Int p) = SIGINT"
| "frame_sig (F_Usr1 p) = SIGUSR1"
| "frame_sig (F_Chld p) = SIGCHLD"
| "frame_sig F_Alrm = SIGALRM"

section \<open>Sending and delivering\<close>

text \<open>A signal is sent: the default action of \<^verbatim>\<open>SIGCHLD\<close> is to ignore it.\<close>

definition post :: "sig \<Rightarrow> process \<Rightarrow> process" where
  "post g p =
     (if p_status p = Running \<and> \<not> (g = SIGCHLD \<and> p_disp p g = SIG_DFL) then p\<lparr>p_pend := (p_pend p)(g := True)\<rparr> else p)"

definition deliverable :: "sig \<Rightarrow> process \<Rightarrow> bool" where
  "deliverable g p \<longleftrightarrow> p_status p = Running \<and> p_pend p g \<and> \<not> p_mask p g \<and> g \<notin> set (map frame_sig (p_stack p)) \<and>
     \<not> (g = SIGCHLD \<and> p_disp p g = SIG_DFL)"

text \<open>The first statement of a handler; the default action of the other signals is to kill the process.\<close>

fun entry :: "handler \<Rightarrow> frame option" where
  "entry SIG_DFL = None"
| "entry Sigint_handler = Some (F_Int HI_Inc)"
| "entry Sigusr1_handler = Some (F_Usr1 HU_Set)"
| "entry Sigchld_handler = Some (F_Chld HC_Write)"
| "entry Sigalrm_handler = Some F_Alrm"

definition deliver :: "sig \<Rightarrow> process \<Rightarrow> process option" where
  "deliver g p =
     (if deliverable g p then
        Some (case entry (p_disp p g) of
                None \<Rightarrow> p\<lparr>p_status := Killed g\<rparr>
              | Some f \<Rightarrow> p\<lparr>p_pend := (p_pend p)(g := False), p_stack := f # p_stack p, p_eintr := True\<rparr>)
      else None)"

text \<open>A blocking call returns only when no signal is left to deliver.\<close>

definition settled :: "process \<Rightarrow> bool" where
  "settled p \<longleftrightarrow> \<not> deliverable SIGINT p \<and> \<not> deliverable SIGUSR1 p \<and> \<not> deliverable SIGCHLD p \<and> \<not> deliverable SIGALRM p"

definition main_turn :: "process \<Rightarrow> bool" where
  "main_turn p \<longleftrightarrow> p_status p = Running \<and> p_stack p = []"

section \<open>The handlers\<close>

text \<open>
  One statement: the handler's next statement (\<open>None\<close>: it returns), the process and what is written.
\<close>

fun sigint_handler :: "int_pc \<Rightarrow> process \<Rightarrow> frame option \<times> process \<times> hwrite list" where
  "sigint_handler HI_Inc p = (Some (F_Int HI_Write), p\<lparr>p_int := p_int p + 1\<rparr>, [])"
| "sigint_handler HI_Write p = (Some (F_Int HI_Test), p, [SH_Int])"
| "sigint_handler HI_Test p = (if p_int p \<ge> 3 then Some (F_Int HI_Exiting) else None, p, [])"
| "sigint_handler HI_Exiting p = (Some (F_Int HI_Exit), p, [SH_Exiting])"
| "sigint_handler HI_Exit p = (None, p\<lparr>p_status := Exited 0\<rparr>, [])"

fun sigusr1_handler :: "usr1_pc \<Rightarrow> process \<Rightarrow> frame option \<times> process \<times> hwrite list" where
  "sigusr1_handler HU_Set p = (Some (F_Usr1 HU_Write), p\<lparr>p_usr1 := True\<rparr>, [])"
| "sigusr1_handler HU_Write p = (None, p, [SH_Usr1])"

text \<open>\<open>got\<close>: \<^verbatim>\<open>waitpid\<close> has returned a positive number, and the loop goes on.\<close>

fun sigchld_handler :: "bool \<Rightarrow> chld_pc \<Rightarrow> process \<Rightarrow> frame option \<times> process \<times> hwrite list" where
  "sigchld_handler got HC_Write p = (Some (F_Chld HC_Wait), p, [SH_Chld])"
| "sigchld_handler got HC_Wait p = (if got then Some (F_Chld HC_Wait) else None, p, [])"

definition sigalrm_handler :: "process \<Rightarrow> frame option \<times> process \<times> hwrite list" where
  "sigalrm_handler p = (None, p, [SH_Alrm])"

fun run_frame :: "bool \<Rightarrow> frame \<Rightarrow> process \<Rightarrow> frame option \<times> process \<times> hwrite list" where
  "run_frame got (F_Int q) p = sigint_handler q p"
| "run_frame got (F_Usr1 q) p = sigusr1_handler q p"
| "run_frame got (F_Chld q) p = sigchld_handler got q p"
| "run_frame got F_Alrm p = sigalrm_handler p"

definition handler_step :: "bool \<Rightarrow> process \<Rightarrow> (process \<times> hwrite list) option" where
  "handler_step got p =
     (case p_stack p of
        [] \<Rightarrow> None
      | f # fs \<Rightarrow>
          if p_status p \<noteq> Running then None
          else (case run_frame got f p of
                  (f', p', ls) \<Rightarrow> Some (p'\<lparr>p_stack := (case f' of None \<Rightarrow> fs | Some g \<Rightarrow> g # fs)\<rparr>, ls)))"

section \<open>The invariant of a process\<close>

text \<open>
  \<open>counted\<close>: the value of \<^verbatim>\<open>sigint_count\<close> that goes with the statement the handler of \<^verbatim>\<open>SIGINT\<close> is at; three are reached only
  on the way to \<^verbatim>\<open>exit\<close>.
\<close>

fun counted :: "int_pc \<Rightarrow> int \<Rightarrow> bool" where
  "counted HI_Inc n \<longleftrightarrow> n < 3"
| "counted HI_Write n \<longleftrightarrow> 0 < n \<and> n \<le> 3"
| "counted HI_Test n \<longleftrightarrow> 0 < n \<and> n \<le> 3"
| "counted HI_Exiting n \<longleftrightarrow> n = 3"
| "counted HI_Exit n \<longleftrightarrow> n = 3"

fun int_frame :: "frame \<Rightarrow> int_pc option" where
  "int_frame (F_Int q) = Some q"
| "int_frame _ = None"

fun own_handler :: "sig \<Rightarrow> handler" where
  "own_handler SIGINT = Sigint_handler"
| "own_handler SIGUSR1 = Sigusr1_handler"
| "own_handler SIGCHLD = Sigchld_handler"
| "own_handler SIGALRM = Sigalrm_handler"

definition stack_ok :: "frame list \<Rightarrow> int \<Rightarrow> bool \<Rightarrow> bool" where
  "stack_ok fs n m \<longleftrightarrow> distinct (map frame_sig fs) \<and> (\<forall>q. F_Int q \<in> set fs \<longrightarrow> counted q n \<and> \<not> m) \<and>
     (n = 3 \<longrightarrow> (\<exists>q. F_Int q \<in> set fs))"

definition proc_ok :: "process \<Rightarrow> bool" where
  "proc_ok p \<longleftrightarrow> 0 \<le> p_int p \<and> p_int p \<le> 3 \<and> (\<forall>g. p_disp p g = SIG_DFL \<or> p_disp p g = own_handler g) \<and>
     (p_status p = Running \<longrightarrow> stack_ok (p_stack p) (p_int p) (p_mask p SIGINT))"

lemma post_ok: "proc_ok p \<Longrightarrow> proc_ok (post g p)"
  by (simp add: proc_ok_def post_def)

lemma post_kept [simp]:
  "p_disp (post g p) = p_disp p" "p_mask (post g p) = p_mask p" "p_stack (post g p) = p_stack p" "p_int (post g p) = p_int p"
  "p_usr1 (post g p) = p_usr1 p" "p_wake (post g p) = p_wake p" "p_eintr (post g p) = p_eintr p"
  "p_status (post g p) = p_status p" "main_turn (post g p) = main_turn p"
  by (simp_all add: post_def main_turn_def)

lemma entry_sig:
  assumes "proc_ok p" and "entry (p_disp p g) = Some f"
  shows "frame_sig f = g" and "f = F_Int q \<Longrightarrow> q = HI_Inc" and "f \<noteq> F_Chld HC_Wait" and "f \<noteq> F_Usr1 HU_Write"
proof -
  from assms have "p_disp p g = own_handler g" by (metis proc_ok_def entry.simps(1) option.distinct(1))
  with assms(2) show "frame_sig f = g" "f = F_Int q \<Longrightarrow> q = HI_Inc" "f \<noteq> F_Chld HC_Wait" "f \<noteq> F_Usr1 HU_Write"
    by (cases g; auto)+
qed

lemma frame_sig_int: "frame_sig f = SIGINT \<longleftrightarrow> (\<exists>q. f = F_Int q)"
  by (cases f) auto

lemma deliver_cases:
  assumes "deliver g p = Some p'" and "proc_ok p"
  obtains (killed) "deliverable g p" "p_disp p g = SIG_DFL" "p' = p\<lparr>p_status := Killed g\<rparr>"
  | (called) f where "deliverable g p" "entry (p_disp p g) = Some f" "frame_sig f = g"
      "p' = p\<lparr>p_pend := (p_pend p)(g := False), p_stack := f # p_stack p, p_eintr := True\<rparr>"
proof (cases "entry (p_disp p g)")
  case None
  then have "p_disp p g = SIG_DFL" by (cases "p_disp p g") auto
  with None assms(1) killed show ?thesis by (auto simp: deliver_def split: if_splits)
next
  case (Some f)
  with assms(1) called [of f] entry_sig(1) [OF assms(2) Some] show ?thesis by (auto simp: deliver_def split: if_splits)
qed

lemma deliver_ok:
  assumes "proc_ok p" and "deliver g p = Some p'"
  shows "proc_ok p'"
  using assms(2,1)
proof (cases rule: deliver_cases)
  case (called f)
  have "q = HI_Inc \<and> p_int p < 3" if "f = F_Int q" for q
  proof -
    from called that have "g = SIGINT" by auto
    with called(1) have "\<forall>q. F_Int q \<notin> set (p_stack p)" by (force simp: deliverable_def frame_sig_int)
    with assms(1) called(1) have "p_int p \<noteq> 3" by (auto simp: proc_ok_def stack_ok_def deliverable_def)
    with assms(1) entry_sig(2) [OF assms(1) called(2) that] show ?thesis by (simp add: proc_ok_def)
  qed
  with called assms(1) show ?thesis
    by (auto simp: proc_ok_def stack_ok_def deliverable_def)
qed (use assms(1) in \<open>auto simp: proc_ok_def\<close>)

lemma main_turn_int: "proc_ok p \<Longrightarrow> main_turn p \<Longrightarrow> p_int p < 3"
  by (auto simp: proc_ok_def main_turn_def stack_ok_def)

text \<open>One statement of a handler: what changes, and what is written.\<close>

lemma handler_stepE:
  assumes "handler_step got p = Some (p', ls)"
  obtains f fs f' q where "p_stack p = f # fs" "p_status p = Running" "run_frame got f p = (f', q, ls)"
    "p' = q\<lparr>p_stack := (case f' of None \<Rightarrow> fs | Some g \<Rightarrow> g # fs)\<rparr>"
  using assms by (auto simp: handler_step_def split: list.splits if_splits prod.splits)

lemma frame_cases [case_names Inc Write Test Exiting Exit Set Usr1 Chld Wait Alrm]:
  assumes "f = F_Int HI_Inc \<Longrightarrow> P" "f = F_Int HI_Write \<Longrightarrow> P" "f = F_Int HI_Test \<Longrightarrow> P" "f = F_Int HI_Exiting \<Longrightarrow> P"
    "f = F_Int HI_Exit \<Longrightarrow> P" "f = F_Usr1 HU_Set \<Longrightarrow> P" "f = F_Usr1 HU_Write \<Longrightarrow> P" "f = F_Chld HC_Write \<Longrightarrow> P"
    "f = F_Chld HC_Wait \<Longrightarrow> P" "f = F_Alrm \<Longrightarrow> P"
  shows P
proof (cases f)
  case (F_Int i)
  with assms show ?thesis by (cases i) simp_all
next
  case (F_Usr1 i)
  with assms show ?thesis by (cases i) simp_all
next
  case (F_Chld i)
  with assms show ?thesis by (cases i) simp_all
qed (use assms in simp)

lemma run_frame_kept:
  assumes "run_frame got f p = (f', q, ls)"
  shows "p_disp q = p_disp p" "p_mask q = p_mask p" "p_pend q = p_pend p" "p_wake q = p_wake p" "p_eintr q = p_eintr p"
    "f' = Some g \<Longrightarrow> frame_sig g = frame_sig f" "p_usr1 p \<Longrightarrow> p_usr1 q"
  using assms by (cases f rule: frame_cases; clarsimp simp: sigalrm_handler_def split: if_splits; fail)+

lemma run_frame_other:
  assumes "run_frame got f p = (f', q, ls)" and "\<And>i. f \<noteq> F_Int i"
  shows "p_int q = p_int p" "p_status q = p_status p"
  using assms by (cases f rule: frame_cases; clarsimp simp: sigalrm_handler_def split: if_splits; fail)+

lemma run_frame_usr1:
  assumes "run_frame got f p = (f', q, ls)" and "p_usr1 q"
  shows "p_usr1 p \<or> frame_sig f = SIGUSR1"
  using assms by (cases f rule: frame_cases; clarsimp simp: sigalrm_handler_def split: if_splits)

lemma stack_ok_int:
  "stack_ok (F_Int i # fs) n m \<longleftrightarrow> distinct (map frame_sig fs) \<and> (\<forall>j. F_Int j \<notin> set fs) \<and> counted i n \<and> \<not> m"
 proof -
  have "SIGINT \<notin> frame_sig ` set fs \<longleftrightarrow> (\<forall>j. F_Int j \<notin> set fs)" by (metis frame_sig_int imageE image_eqI)
  then show ?thesis by (auto simp: stack_ok_def)
qed

lemma stack_ok_other:
  assumes "stack_ok (f # fs) n m" and "\<And>i. f \<noteq> F_Int i"
  shows "stack_ok fs n m" and "frame_sig g = frame_sig f \<Longrightarrow> stack_ok (g # fs) n m"
proof -
  have f: "F_Int i \<noteq> f" for i using assms(2) by metis
  with assms(1) show "stack_ok fs n m" by (simp add: stack_ok_def)
  assume g: "frame_sig g = frame_sig f"
  then have "F_Int i \<noteq> g" for i using f by (metis frame_sig_int)
  with f assms g show "stack_ok (g # fs) n m" by (simp add: stack_ok_def)
qed

lemma stack_ok_popped: "distinct (map frame_sig fs) \<Longrightarrow> \<forall>j. F_Int j \<notin> set fs \<Longrightarrow> n < 3 \<Longrightarrow> stack_ok fs n m"
  by (simp add: stack_ok_def)

lemma handler_ok:
  assumes "proc_ok p" and "handler_step got p = Some (p', ls)"
  shows "proc_ok p'"
  using assms(2)
proof (cases rule: handler_stepE)
  case (1 f fs f' q)
  from assms(1) 1 have st: "stack_ok (f # fs) (p_int p) (p_mask p SIGINT)" and n: "0 \<le> p_int p" "p_int p \<le> 3"
    and d: "\<forall>g. p_disp p g = SIG_DFL \<or> p_disp p g = own_handler g" by (simp_all add: proc_ok_def)
  note kept = run_frame_kept [OF 1(3)]
  show ?thesis
  proof (cases "\<exists>i. f = F_Int i")
    case True
    then obtain i where i: "f = F_Int i" by blast
    with st have fs: "distinct (map frame_sig fs)" "\<forall>j. F_Int j \<notin> set fs" "counted i (p_int p)" "\<not> p_mask p SIGINT"
      by (simp_all add: stack_ok_int)
    with i n d 1 stack_ok_popped [OF fs(1,2)] show ?thesis
      by (cases i; cases "3 \<le> p_int p") (clarsimp simp: proc_ok_def stack_ok_int)+
  next
    case False
    then have f: "\<And>i. f \<noteq> F_Int i" by blast
    have "stack_ok (p_stack p') (p_int p) (p_mask p SIGINT)"
      using 1(4) kept(6) stack_ok_other [OF st f] by (cases f') simp_all
    with 1(4) n d kept(1,2) run_frame_other [OF 1(3) f] show ?thesis by (simp add: proc_ok_def)
  qed
qed

lemma handler_kept:
  assumes "handler_step got p = Some (p', ls)"
  shows "p_disp p' = p_disp p" "p_mask p' = p_mask p" "p_pend p' = p_pend p" "p_wake p' = p_wake p" "p_eintr p' = p_eintr p"
    "p_usr1 p \<Longrightarrow> p_usr1 p'" "p_status p = Running"
proof -
  from assms obtain f fs f' q where "p_status p = Running" and r: "run_frame got f p = (f', q, ls)"
    and "p' = q\<lparr>p_stack := (case f' of None \<Rightarrow> fs | Some g \<Rightarrow> g # fs)\<rparr>" by (rule handler_stepE)
  with run_frame_kept [OF r] show "p_disp p' = p_disp p" "p_mask p' = p_mask p" "p_pend p' = p_pend p" "p_wake p' = p_wake p"
    "p_eintr p' = p_eintr p" "p_usr1 p \<Longrightarrow> p_usr1 p'" "p_status p = Running" by simp_all
qed

lemma handler_sigs:
  assumes "handler_step got p = Some (p', ls)"
  shows "set (map frame_sig (p_stack p')) \<subseteq> set (map frame_sig (p_stack p))"
    and "p_usr1 p' \<Longrightarrow> p_usr1 p \<or> SIGUSR1 \<in> set (map frame_sig (p_stack p))"
proof -
  from assms obtain f fs f' q where st: "p_stack p = f # fs" and r: "run_frame got f p = (f', q, ls)"
    and p': "p' = q\<lparr>p_stack := (case f' of None \<Rightarrow> fs | Some g \<Rightarrow> g # fs)\<rparr>" by (rule handler_stepE)
  show "set (map frame_sig (p_stack p')) \<subseteq> set (map frame_sig (p_stack p))"
    using run_frame_kept(6) [OF r] by (cases f') (auto simp: st p')
  show "p_usr1 p \<or> SIGUSR1 \<in> set (map frame_sig (p_stack p))" if "p_usr1 p'"
    using that run_frame_usr1 [OF r] by (auto simp: st p')
qed

section \<open>What the handlers write\<close>

text \<open>
  Every count given to \<^verbatim>\<open>write\<close> stays inside its string literal, so no handler reads out of bounds. All but one write exactly
  their text; the last message of \<^verbatim>\<open>sigint_handler\<close> counts one byte too many and sends the terminating null byte too.
\<close>

theorem handler_writes:
  "written_bytes l = Some (if l = SH_Exiting then hwrite_literal l @ [CHR 0x00] else hwrite_literal l)"
  by (cases l) (simp_all add: written_bytes_def alarm_literal_def)

end
