(* ===== verification/Signal_Program.thy ===== *)
theory Signal_Program
  imports Signal_Kernel
begin

text \<open>
  The program \<^verbatim>\<open>src/examples/signal_demo.c\<close>: the five demos and \<^verbatim>\<open>main\<close>, run by the parent, the two children it forks,
  and what acts on them from outside: the user who presses Ctrl+C at any time, the clock, the alarm, and other processes, which may
  send signals with \<^verbatim>\<open>kill\<close>. The signals of a
  demo live on in the next one, so the whole program is one transition system. The lines printed are logged in the order of the
  output calls, each with its writer, 0 for the parent and \<open>n + 1\<close> for child \<open>n\<close>.

  The environment record says how many clock ticks a second has, which process ids there are and which signals other
  processes send to the parent; the results of \<^verbatim>\<open>sigaction\<close>,
  \<^verbatim>\<open>fork\<close>, \<^verbatim>\<open>sigprocmask\<close> and \<^verbatim>\<open>sigpending\<close> are chosen step by step.
\<close>

record senv =
  e_hz :: nat
  e_pid :: "nat \<Rightarrow> int"
  e_reaper :: int
  e_outside :: "sig \<Rightarrow> bool"

section \<open>State\<close>

datatype basic_pc = B_Header | B_Action | B_Press | B_Pid | B_Test nat | B_Print nat | B_Sleep nat | B_Sleeping nat
  | B_If | B_None | B_Ret

datatype between_pc = W_Header | W_Action | W_Fork | W_Print | W_Test | W_Sleep | W_Sleeping | W_Received | W_Wait
  | W_Waiting | W_Ret

datatype mask_pc = K_Header | K_Blocking | K_Try | K_Block | K_Test nat | K_Print nat | K_Sleep nat | K_Sleeping nat | K_Newline
  | K_Pending | K_Member bool | K_Unblocking | K_Unblock | K_Unblocked | K_Done | K_Nap | K_Napping | K_Ret

datatype chld_demo_pc = C_Header | C_Action | C_Creating | C_Fork | C_Created int | C_Other | C_Test nat | C_Work nat
  | C_Sleep nat | C_Sleeping nat | C_Done | C_Ret

datatype alarm_pc = A_Header | A_Action | A_Setting | A_Alarm | A_Waiting | A_Test nat | A_Sleep nat | A_Sleeping nat | A_Tick nat
  | A_Ret

datatype signal_pc = SP_Banner | SP_Note | SP_Basic basic_pc | SP_Reset | SP_Between between_pc | SP_Mask mask_pc
  | SP_Chld chld_demo_pc | SP_Alarm alarm_pc | SP_Complete | SP_Exit

text \<open>The statements of the children (lines 91 to 101 and 185 to 191).\<close>

datatype child_pc = KB_Pid | KB_Sending | KB_Sleep | KB_Sleeping | KB_Kill | KB_Exiting | KB_Exit
  | KC_Pid | KC_Sleep | KC_Sleeping | KC_Exiting | KC_Exit

datatype signal_line = SL_Banner | SL_Note | SL_Complete | SL_Perror string
  | SL_Basic | SL_Press | SL_Pid int | SL_Waiting nat | SL_No_Interrupts
  | SL_Between | SL_Child_Pid int int | SL_Sending | SL_Child_Exiting | SL_Parent_Pid int | SL_Received
  | SL_Mask | SL_Blocking | SL_Try | SL_Countdown nat | SL_Newline | SL_Is_Pending | SL_Not_Pending | SL_Unblocking | SL_Unblocked
  | SL_Chld | SL_Creating | SL_Child_Sleeping int | SL_Created int | SL_Other_Work | SL_Working nat | SL_Parent_Done
  | SL_Alarm | SL_Setting | SL_Waiting_Alarm | SL_Tick nat
  | SL_Handler hwrite

text \<open>The texts of the lines; \<open>err\<close> is what \<^verbatim>\<open>perror\<close> adds.\<close>

fun signal_line_text :: "string \<Rightarrow> signal_line \<Rightarrow> string" where
  "signal_line_text err SL_Banner = ''=== Signal System Calls Demo ===\<newline>''"
| "signal_line_text err SL_Note = ''Note: Some demos are interactive\<newline>''"
| "signal_line_text err SL_Complete = ''\<newline>=== Demo Complete ===\<newline>''"
| "signal_line_text err (SL_Perror c) = c @ '': '' @ err @ ''\<newline>''"
| "signal_line_text err SL_Basic = ''\<newline>=== Basic Signal Handling ===\<newline>''"
| "signal_line_text err SL_Press = ''Press Ctrl+C to send SIGINT (3 times to exit)\<newline>''"
| "signal_line_text err (SL_Pid p) = ''Process PID: '' @ show_int p @ ''\<newline>''"
| "signal_line_text err (SL_Waiting i) = ''Waiting... ('' @ show_int (int i) @ ''/10)\<newline>''"
| "signal_line_text err SL_No_Interrupts = ''No interrupts received. Continuing...\<newline>''"
| "signal_line_text err SL_Between = ''\<newline>=== Signals Between Processes ===\<newline>''"
| "signal_line_text err (SL_Child_Pid p q) = ''[Child] PID: '' @ show_int p @ '', Parent PID: '' @ show_int q @ ''\<newline>''"
| "signal_line_text err SL_Sending = ''[Child] Sending SIGUSR1 to parent...\<newline>''"
| "signal_line_text err SL_Child_Exiting = ''[Child] Exiting\<newline>''"
| "signal_line_text err (SL_Parent_Pid p) = ''[Parent] PID: '' @ show_int p @ '', waiting for signal...\<newline>''"
| "signal_line_text err SL_Received = ''[Parent] Received SIGUSR1 from child\<newline>''"
| "signal_line_text err SL_Mask = ''\<newline>=== Signal Masking ===\<newline>''"
| "signal_line_text err SL_Blocking = ''Blocking SIGINT for 5 seconds...\<newline>''"
| "signal_line_text err SL_Try = ''Try pressing Ctrl+C (it will be queued)\<newline>''"
| "signal_line_text err (SL_Countdown i) = show_int (int i) @ ''... ''"
| "signal_line_text err SL_Newline = ''\<newline>''"
| "signal_line_text err SL_Is_Pending = ''SIGINT is pending (you pressed Ctrl+C while blocked)\<newline>''"
| "signal_line_text err SL_Not_Pending = ''No SIGINT pending\<newline>''"
| "signal_line_text err SL_Unblocking = ''Unblocking SIGINT now...\<newline>''"
| "signal_line_text err SL_Unblocked = ''SIGINT unblocked (signal delivered if it was pending)\<newline>''"
| "signal_line_text err SL_Chld = ''\<newline>=== SIGCHLD Handler ===\<newline>''"
| "signal_line_text err SL_Creating = ''Creating child process...\<newline>''"
| "signal_line_text err (SL_Child_Sleeping p) = ''[Child] PID: '' @ show_int p @ '', sleeping for 2 seconds...\<newline>''"
| "signal_line_text err (SL_Created p) = ''[Parent] Child PID: '' @ show_int p @ '' created\<newline>''"
| "signal_line_text err SL_Other_Work = ''[Parent] Doing other work...\<newline>''"
| "signal_line_text err (SL_Working i) = ''[Parent] Working... '' @ show_int (int i) @ ''\<newline>''"
| "signal_line_text err SL_Parent_Done = ''[Parent] Done\<newline>''"
| "signal_line_text err SL_Alarm = ''\<newline>=== Alarm Signal ===\<newline>''"
| "signal_line_text err SL_Setting = ''Setting alarm for 3 seconds...\<newline>''"
| "signal_line_text err SL_Waiting_Alarm = ''Waiting for alarm...\<newline>''"
| "signal_line_text err (SL_Tick i) = ''Tick '' @ show_int (int i) @ ''\<newline>''"
| "signal_line_text err (SL_Handler h) = (case written_bytes h of None \<Rightarrow> [] | Some b \<Rightarrow> b)"

record child =
  k_at :: child_pc
  k_proc :: process
  k_reaped :: bool

text \<open>
  \<open>s_old\<close> is \<^verbatim>\<open>old_mask\<close>, \<open>s_alarm\<close> the time the alarm is set for. \<open>s_cuts\<close> is an auxiliary variable that the program does not
  have: how many calls of \<^verbatim>\<open>sleep\<close> in \<open>demonstrate_alarm\<close> came back early.
\<close>

record signal_state =
  s_pc :: signal_pc
  s_proc :: process
  s_kids :: "child list"
  s_old :: "sig \<Rightarrow> bool"
  s_clock :: nat
  s_alarm :: "nat option"
  s_cuts :: nat
  s_log :: "(nat \<times> signal_line) list"

definition say :: "signal_line \<Rightarrow> signal_state \<Rightarrow> signal_state" where
  "say l s = s\<lparr>s_log := s_log s @ [(0, l)]\<rparr>"

definition install :: "sig \<Rightarrow> handler \<Rightarrow> signal_state \<Rightarrow> signal_state" where
  "install g h s = s\<lparr>s_proc := (s_proc s)\<lparr>p_disp := (p_disp (s_proc s))(g := h)\<rparr>\<rparr>"

definition begin_sleep :: "nat \<Rightarrow> nat \<Rightarrow> process \<Rightarrow> process" where
  "begin_sleep clock ticks p = p\<lparr>p_wake := clock + ticks, p_eintr := False\<rparr>"

definition sleep_over :: "nat \<Rightarrow> process \<Rightarrow> bool" where
  "sleep_over clock p \<longleftrightarrow> (p_wake p \<le> clock \<or> p_eintr p) \<and> settled p"

definition nap :: "senv \<Rightarrow> signal_state \<Rightarrow> signal_state" where
  "nap e s = s\<lparr>s_proc := begin_sleep (s_clock s) (e_hz e) (s_proc s)\<rparr>"

section \<open>demonstrate basic signal\<close>

fun demonstrate_basic_signal :: "senv \<Rightarrow> bool \<Rightarrow> basic_pc \<Rightarrow> signal_state \<Rightarrow> (basic_pc \<times> signal_state) option" where
  "demonstrate_basic_signal e ok B_Header s = Some (B_Action, say SL_Basic s)"
| "demonstrate_basic_signal e ok B_Action s =
     Some (if ok then (B_Press, install SIGINT Sigint_handler s) else (B_Ret, say (SL_Perror ''sigaction'') s))"
| "demonstrate_basic_signal e ok B_Press s = Some (B_Pid, say SL_Press s)"
| "demonstrate_basic_signal e ok B_Pid s = Some (B_Test 0, say (SL_Pid (e_pid e 0)) s)"
| "demonstrate_basic_signal e ok (B_Test i) s = Some (if i < 10 \<and> p_int (s_proc s) < 3 then B_Print i else B_If, s)"
| "demonstrate_basic_signal e ok (B_Print i) s = Some (B_Sleep i, say (SL_Waiting (i + 1)) s)"
| "demonstrate_basic_signal e ok (B_Sleep i) s = Some (B_Sleeping i, nap e s)"
| "demonstrate_basic_signal e ok (B_Sleeping i) s = (if sleep_over (s_clock s) (s_proc s) then Some (B_Test (i + 1), s) else None)"
| "demonstrate_basic_signal e ok B_If s = Some (if p_int (s_proc s) < 3 then B_None else B_Ret, s)"
| "demonstrate_basic_signal e ok B_None s = Some (B_Ret, say SL_No_Interrupts s)"
| "demonstrate_basic_signal e ok B_Ret s = None"

section \<open>demonstrate signal between processes\<close>

text \<open>A child starts with the parent's dispositions, mask and variables, and no pending signal.\<close>

definition fork_child :: "child_pc \<Rightarrow> signal_state \<Rightarrow> signal_state" where
  "fork_child q s = s\<lparr>s_kids := s_kids s @ [\<lparr>k_at = q, k_proc = (s_proc s)\<lparr>p_pend := (\<lambda>_. False)\<rparr>, k_reaped = False\<rparr>]\<rparr>"

definition zombie :: "child \<Rightarrow> bool" where
  "zombie k \<longleftrightarrow> p_status (k_proc k) \<noteq> Running \<and> \<not> k_reaped k"

text \<open>\<^verbatim>\<open>wait\<close> and \<^verbatim>\<open>waitpid (-1, \<dots>)\<close> without a status: one zombie is gone.\<close>

fun reap_one :: "child list \<Rightarrow> child list option" where
  "reap_one [] = None"
| "reap_one (k # ks) = (if zombie k then Some (k\<lparr>k_reaped := True\<rparr> # ks) else map_option (\<lambda>ks'. k # ks') (reap_one ks))"

text \<open>
  \<^verbatim>\<open>wait (NULL)\<close> returns when it has a zombie, when there is no child at all, or when a handler was called (the handlers
  installed so far do not restart it).
\<close>

definition wait_null :: "signal_state \<Rightarrow> signal_state option" where
  "wait_null s =
     (if \<not> settled (s_proc s) then None
      else case reap_one (s_kids s) of
        Some ks \<Rightarrow> Some (s\<lparr>s_kids := ks\<rparr>)
      | None \<Rightarrow> if p_eintr (s_proc s) \<or> list_all k_reaped (s_kids s) then Some s else None)"

fun demonstrate_signal_between_processes :: "senv \<Rightarrow> bool \<Rightarrow> between_pc \<Rightarrow> signal_state \<Rightarrow> (between_pc \<times> signal_state) option" where
  "demonstrate_signal_between_processes e ok W_Header s = Some (W_Action, say SL_Between s)"
| "demonstrate_signal_between_processes e ok W_Action s =
     Some (if ok then (W_Fork, install SIGUSR1 Sigusr1_handler s) else (W_Ret, say (SL_Perror ''sigaction'') s))"
| "demonstrate_signal_between_processes e ok W_Fork s =
     Some (if ok then (W_Print, fork_child KB_Pid s) else (W_Ret, say (SL_Perror ''fork'') s))"
| "demonstrate_signal_between_processes e ok W_Print s = Some (W_Test, say (SL_Parent_Pid (e_pid e 0)) s)"
| "demonstrate_signal_between_processes e ok W_Test s = Some (if p_usr1 (s_proc s) then W_Received else W_Sleep, s)"
| "demonstrate_signal_between_processes e ok W_Sleep s = Some (W_Sleeping, nap e s)"
| "demonstrate_signal_between_processes e ok W_Sleeping s =
     (if sleep_over (s_clock s) (s_proc s) then Some (W_Test, s) else None)"
| "demonstrate_signal_between_processes e ok W_Received s = Some (W_Wait, say SL_Received s)"
| "demonstrate_signal_between_processes e ok W_Wait s = Some (W_Waiting, s\<lparr>s_proc := (s_proc s)\<lparr>p_eintr := False\<rparr>\<rparr>)"
| "demonstrate_signal_between_processes e ok W_Waiting s = map_option (\<lambda>s'. (W_Ret, s')) (wait_null s)"
| "demonstrate_signal_between_processes e ok W_Ret s = None"

section \<open>demonstrate signal masking\<close>

definition block_sigint :: "signal_state \<Rightarrow> signal_state" where
  "block_sigint s =
     s\<lparr>s_old := p_mask (s_proc s), s_proc := (s_proc s)\<lparr>p_mask := (p_mask (s_proc s))(SIGINT := True)\<rparr>\<rparr>"

definition restore_mask :: "signal_state \<Rightarrow> signal_state" where
  "restore_mask s = s\<lparr>s_proc := (s_proc s)\<lparr>p_mask := s_old s\<rparr>\<rparr>"

text \<open>
  \<open>K_Member\<close> carries what \<^verbatim>\<open>sigpending\<close> has stored in \<^verbatim>\<open>pending_mask\<close>. When the second \<^verbatim>\<open>sigprocmask\<close> unblocks a pending signal, it is delivered before the call returns: \<open>K_Unblocked\<close>.
\<close>

fun demonstrate_signal_masking :: "senv \<Rightarrow> bool \<Rightarrow> mask_pc \<Rightarrow> signal_state \<Rightarrow> (mask_pc \<times> signal_state) option" where
  "demonstrate_signal_masking e ok K_Header s = Some (K_Blocking, say SL_Mask s)"
| "demonstrate_signal_masking e ok K_Blocking s = Some (K_Try, say SL_Blocking s)"
| "demonstrate_signal_masking e ok K_Try s = Some (K_Block, say SL_Try s)"
| "demonstrate_signal_masking e ok K_Block s =
     Some (if ok then (K_Test 5, block_sigint s) else (K_Ret, say (SL_Perror ''sigprocmask'') s))"
| "demonstrate_signal_masking e ok (K_Test i) s = Some (if i > 0 then K_Print i else K_Newline, s)"
| "demonstrate_signal_masking e ok (K_Print i) s = Some (K_Sleep i, say (SL_Countdown i) s)"
| "demonstrate_signal_masking e ok (K_Sleep i) s = Some (K_Sleeping i, nap e s)"
| "demonstrate_signal_masking e ok (K_Sleeping i) s =
     (if sleep_over (s_clock s) (s_proc s) then Some (K_Test (i - 1), s) else None)"
| "demonstrate_signal_masking e ok K_Newline s = Some (K_Pending, say SL_Newline s)"
| "demonstrate_signal_masking e ok K_Pending s =
     Some (if ok then (K_Member (p_pend (s_proc s) SIGINT), s) else (K_Ret, say (SL_Perror ''sigpending'') s))"
| "demonstrate_signal_masking e ok (K_Member pending) s =
     Some (K_Unblocking, say (if pending then SL_Is_Pending else SL_Not_Pending) s)"
| "demonstrate_signal_masking e ok K_Unblocking s = Some (K_Unblock, say SL_Unblocking s)"
| "demonstrate_signal_masking e ok K_Unblock s =
     Some (if ok then (K_Unblocked, restore_mask s) else (K_Ret, say (SL_Perror ''sigprocmask'') s))"
| "demonstrate_signal_masking e ok K_Unblocked s = (if settled (s_proc s) then Some (K_Done, s) else None)"
| "demonstrate_signal_masking e ok K_Done s = Some (K_Nap, say SL_Unblocked s)"
| "demonstrate_signal_masking e ok K_Nap s = Some (K_Napping, nap e s)"
| "demonstrate_signal_masking e ok K_Napping s = (if sleep_over (s_clock s) (s_proc s) then Some (K_Ret, s) else None)"
| "demonstrate_signal_masking e ok K_Ret s = None"

section \<open>demonstrate sigchld\<close>

text \<open>The result of \<^verbatim>\<open>fork\<close> is not compared with -1: when it fails the parent goes on as if there were a child.\<close>

fun demonstrate_sigchld :: "senv \<Rightarrow> bool \<Rightarrow> chld_demo_pc \<Rightarrow> signal_state \<Rightarrow> (chld_demo_pc \<times> signal_state) option" where
  "demonstrate_sigchld e ok C_Header s = Some (C_Action, say SL_Chld s)"
| "demonstrate_sigchld e ok C_Action s =
     Some (if ok then (C_Creating, install SIGCHLD Sigchld_handler s) else (C_Ret, say (SL_Perror ''sigaction'') s))"
| "demonstrate_sigchld e ok C_Creating s = Some (C_Fork, say SL_Creating s)"
| "demonstrate_sigchld e ok C_Fork s =
     Some (if ok then (C_Created (e_pid e (length (s_kids s) + 1)), fork_child KC_Pid s) else (C_Created (-1), s))"
| "demonstrate_sigchld e ok (C_Created pid) s = Some (C_Other, say (SL_Created pid) s)"
| "demonstrate_sigchld e ok C_Other s = Some (C_Test 0, say SL_Other_Work s)"
| "demonstrate_sigchld e ok (C_Test i) s = Some (if i < 4 then C_Work i else C_Done, s)"
| "demonstrate_sigchld e ok (C_Work i) s = Some (C_Sleep i, say (SL_Working i) s)"
| "demonstrate_sigchld e ok (C_Sleep i) s = Some (C_Sleeping i, nap e s)"
| "demonstrate_sigchld e ok (C_Sleeping i) s = (if sleep_over (s_clock s) (s_proc s) then Some (C_Test (i + 1), s) else None)"
| "demonstrate_sigchld e ok C_Done s = Some (C_Ret, say SL_Parent_Done s)"
| "demonstrate_sigchld e ok C_Ret s = None"

section \<open>demonstrate alarm\<close>

definition set_alarm :: "nat \<Rightarrow> signal_state \<Rightarrow> signal_state" where
  "set_alarm ticks s = s\<lparr>s_alarm := Some (s_clock s + ticks)\<rparr>"

definition count_cut :: "signal_state \<Rightarrow> signal_state" where
  "count_cut s = (if p_wake (s_proc s) \<le> s_clock s then s else s\<lparr>s_cuts := s_cuts s + 1\<rparr>)"

fun demonstrate_alarm :: "senv \<Rightarrow> bool \<Rightarrow> alarm_pc \<Rightarrow> signal_state \<Rightarrow> (alarm_pc \<times> signal_state) option" where
  "demonstrate_alarm e ok A_Header s = Some (A_Action, say SL_Alarm s)"
| "demonstrate_alarm e ok A_Action s =
     Some (if ok then (A_Setting, install SIGALRM Sigalrm_handler s) else (A_Ret, say (SL_Perror ''sigaction'') s))"
| "demonstrate_alarm e ok A_Setting s = Some (A_Alarm, say SL_Setting s)"
| "demonstrate_alarm e ok A_Alarm s = Some (A_Waiting, set_alarm (3 * e_hz e) s)"
| "demonstrate_alarm e ok A_Waiting s = Some (A_Test 0, say SL_Waiting_Alarm s)"
| "demonstrate_alarm e ok (A_Test i) s = Some (if i < 5 then A_Sleep i else A_Ret, s)"
| "demonstrate_alarm e ok (A_Sleep i) s = Some (A_Sleeping i, nap e s)"
| "demonstrate_alarm e ok (A_Sleeping i) s = (if sleep_over (s_clock s) (s_proc s) then Some (A_Tick i, count_cut s) else None)"
| "demonstrate_alarm e ok (A_Tick i) s = Some (A_Test (i + 1), say (SL_Tick (i + 1)) s)"
| "demonstrate_alarm e ok A_Ret s = None"

section \<open>main\<close>

definition at_pc :: "('p \<Rightarrow> signal_pc) \<Rightarrow> ('p \<times> signal_state) option \<Rightarrow> signal_state option" where
  "at_pc c r = map_option (\<lambda>(q, s). s\<lparr>s_pc := c q\<rparr>) r"

fun main_at :: "senv \<Rightarrow> bool \<Rightarrow> signal_pc \<Rightarrow> signal_state \<Rightarrow> signal_state option" where
  "main_at e ok SP_Banner s = Some ((say SL_Banner s)\<lparr>s_pc := SP_Note\<rparr>)"
| "main_at e ok SP_Note s = Some ((say SL_Note s)\<lparr>s_pc := SP_Basic B_Header\<rparr>)"
| "main_at e ok (SP_Basic q) s =
     (if q = B_Ret then Some (s\<lparr>s_pc := SP_Reset\<rparr>) else at_pc SP_Basic (demonstrate_basic_signal e ok q s))"
| "main_at e ok SP_Reset s = Some (s\<lparr>s_proc := (s_proc s)\<lparr>p_int := 0\<rparr>, s_pc := SP_Between W_Header\<rparr>)"
| "main_at e ok (SP_Between q) s =
     (if q = W_Ret then Some (s\<lparr>s_pc := SP_Mask K_Header\<rparr>) else at_pc SP_Between (demonstrate_signal_between_processes e ok q s))"
| "main_at e ok (SP_Mask q) s =
     (if q = K_Ret then Some (s\<lparr>s_pc := SP_Chld C_Header\<rparr>) else at_pc SP_Mask (demonstrate_signal_masking e ok q s))"
| "main_at e ok (SP_Chld q) s =
     (if q = C_Ret then Some (s\<lparr>s_pc := SP_Alarm A_Header\<rparr>) else at_pc SP_Chld (demonstrate_sigchld e ok q s))"
| "main_at e ok (SP_Alarm q) s =
     (if q = A_Ret then Some (s\<lparr>s_pc := SP_Complete\<rparr>) else at_pc SP_Alarm (demonstrate_alarm e ok q s))"
| "main_at e ok SP_Complete s = Some ((say SL_Complete s)\<lparr>s_pc := SP_Exit\<rparr>)"
| "main_at e ok SP_Exit s = Some (s\<lparr>s_proc := (s_proc s)\<lparr>p_status := Exited 0\<rparr>\<rparr>)"

definition signal_main :: "senv \<Rightarrow> bool \<Rightarrow> signal_state \<Rightarrow> signal_state option" where
  "signal_main e ok s = (if main_turn (s_proc s) then main_at e ok (s_pc s) s else None)"

section \<open>The children\<close>

text \<open>
  One statement of a child: its new state, what it prints and whether it sends \<^verbatim>\<open>SIGUSR1\<close> to its parent. \<open>ppid\<close> is what
  \<^verbatim>\<open>getppid\<close> returns.
\<close>

definition k_go :: "child_pc \<Rightarrow> child \<Rightarrow> child" where
  "k_go q k = k\<lparr>k_at := q\<rparr>"

definition k_exit :: "int \<Rightarrow> child \<Rightarrow> child" where
  "k_exit n k = k\<lparr>k_proc := (k_proc k)\<lparr>p_status := Exited n\<rparr>\<rparr>"

definition k_sleep :: "nat \<Rightarrow> nat \<Rightarrow> child \<Rightarrow> child" where
  "k_sleep clock ticks k = k\<lparr>k_proc := begin_sleep clock ticks (k_proc k)\<rparr>"

fun between_child :: "senv \<Rightarrow> int \<Rightarrow> int \<Rightarrow> nat \<Rightarrow> child_pc \<Rightarrow> child \<Rightarrow> (child \<times> signal_line list \<times> bool) option" where
  "between_child e pid ppid clock KB_Pid k = Some (k_go KB_Sending k, [SL_Child_Pid pid ppid], False)"
| "between_child e pid ppid clock KB_Sending k = Some (k_go KB_Sleep k, [SL_Sending], False)"
| "between_child e pid ppid clock KB_Sleep k = Some (k_go KB_Sleeping (k_sleep clock (e_hz e) k), [], False)"
| "between_child e pid ppid clock KB_Sleeping k = (if sleep_over clock (k_proc k) then Some (k_go KB_Kill k, [], False) else None)"
| "between_child e pid ppid clock KB_Kill k = Some (k_go KB_Exiting k, [], True)"
| "between_child e pid ppid clock KB_Exiting k = Some (k_go KB_Exit k, [SL_Child_Exiting], False)"
| "between_child e pid ppid clock KB_Exit k = Some (k_exit 0 k, [], False)"
| "between_child e pid ppid clock q k = None"

fun sigchld_child :: "senv \<Rightarrow> int \<Rightarrow> nat \<Rightarrow> child_pc \<Rightarrow> child \<Rightarrow> (child \<times> signal_line list \<times> bool) option" where
  "sigchld_child e pid clock KC_Pid k = Some (k_go KC_Sleep k, [SL_Child_Sleeping pid], False)"
| "sigchld_child e pid clock KC_Sleep k = Some (k_go KC_Sleeping (k_sleep clock (2 * e_hz e) k), [], False)"
| "sigchld_child e pid clock KC_Sleeping k = (if sleep_over clock (k_proc k) then Some (k_go KC_Exiting k, [], False) else None)"
| "sigchld_child e pid clock KC_Exiting k = Some (k_go KC_Exit k, [SL_Child_Exiting], False)"
| "sigchld_child e pid clock KC_Exit k = Some (k_exit 42 k, [], False)"
| "sigchld_child e pid clock q k = None"

text \<open>A child of either kind.\<close>

definition child_at :: "senv \<Rightarrow> int \<Rightarrow> int \<Rightarrow> nat \<Rightarrow> child_pc \<Rightarrow> child \<Rightarrow> (child \<times> signal_line list \<times> bool) option" where
  "child_at e pid ppid clock q k =
     (case between_child e pid ppid clock q k of None \<Rightarrow> sigchld_child e pid clock q k | Some r \<Rightarrow> Some r)"

text \<open>Child \<open>i\<close> becomes \<open>k\<close>; when it has ended the parent is sent \<^verbatim>\<open>SIGCHLD\<close>.\<close>

definition put_child :: "nat \<Rightarrow> child \<Rightarrow> signal_state \<Rightarrow> signal_state" where
  "put_child i k s =
     s\<lparr>s_kids := (s_kids s)[i := k],
       s_proc := (if p_status (k_proc (s_kids s ! i)) = Running \<and> p_status (k_proc k) \<noteq> Running then post SIGCHLD (s_proc s)
                  else s_proc s)\<rparr>"

definition child_main :: "senv \<Rightarrow> nat \<Rightarrow> signal_state \<Rightarrow> signal_state option" where
  "child_main e i s =
     (if i < length (s_kids s) \<and> main_turn (k_proc (s_kids s ! i)) then
        (let k = s_kids s ! i; alive = (p_status (s_proc s) = Running) in
         map_option
           (\<lambda>(k', ls, snd).
              let t = put_child i k' s in
              t\<lparr>s_log := s_log t @ map (\<lambda>l. (i + 1, l)) ls,
                s_proc := (if snd then post SIGUSR1 (s_proc t) else s_proc t)\<rparr>)
           (child_at e (e_pid e (i + 1)) (if alive then e_pid e 0 else e_reaper e) (s_clock s) (k_at k) k))
      else None)"

section \<open>Handlers, signals and time\<close>

definition handler_log :: "nat \<Rightarrow> hwrite list \<Rightarrow> (nat \<times> signal_line) list" where
  "handler_log w ls = map (\<lambda>l. (w, SL_Handler l)) ls"

text \<open>The parent's handlers; the loop of \<^verbatim>\<open>sigchld_handler\<close> reaps.\<close>

definition parent_handler :: "signal_state \<Rightarrow> signal_state option" where
  "parent_handler s =
     (let reaped = (if p_stack (s_proc s) \<noteq> [] \<and> hd (p_stack (s_proc s)) = F_Chld HC_Wait then reap_one (s_kids s) else None) in
      map_option
        (\<lambda>(p, ls). s\<lparr>s_proc := p, s_log := s_log s @ handler_log 0 ls,
                     s_kids := (case reaped of None \<Rightarrow> s_kids s | Some ks \<Rightarrow> ks)\<rparr>)
        (handler_step (reaped \<noteq> None) (s_proc s)))"

definition child_handler :: "nat \<Rightarrow> signal_state \<Rightarrow> signal_state option" where
  "child_handler i s =
     (if i < length (s_kids s) then
        map_option
          (\<lambda>(p, ls). let t = put_child i ((s_kids s ! i)\<lparr>k_proc := p\<rparr>) s in t\<lparr>s_log := s_log t @ handler_log (i + 1) ls\<rparr>)
          (handler_step False (k_proc (s_kids s ! i)))
      else None)"

definition parent_deliver :: "sig \<Rightarrow> signal_state \<Rightarrow> signal_state option" where
  "parent_deliver g s = map_option (\<lambda>p. s\<lparr>s_proc := p\<rparr>) (deliver g (s_proc s))"

definition child_deliver :: "nat \<Rightarrow> sig \<Rightarrow> signal_state \<Rightarrow> signal_state option" where
  "child_deliver i g s =
     (if i < length (s_kids s) then
        map_option (\<lambda>p. put_child i ((s_kids s ! i)\<lparr>k_proc := p\<rparr>) s) (deliver g (k_proc (s_kids s ! i)))
      else None)"

text \<open>Ctrl+C sends \<^verbatim>\<open>SIGINT\<close> to every process of the foreground group.\<close>

definition ctrl_c :: "signal_state \<Rightarrow> signal_state" where
  "ctrl_c s = s\<lparr>s_proc := post SIGINT (s_proc s), s_kids := map (\<lambda>k. k\<lparr>k_proc := post SIGINT (k_proc k)\<rparr>) (s_kids s)\<rparr>"

text \<open>Time does not pass the moment for which the alarm is set before the alarm has gone off.\<close>

definition tick :: "signal_state \<Rightarrow> signal_state option" where
  "tick s =
     (case s_alarm s of
        None \<Rightarrow> Some (s\<lparr>s_clock := s_clock s + 1\<rparr>)
      | Some d \<Rightarrow> if s_clock s < d then Some (s\<lparr>s_clock := s_clock s + 1\<rparr>) else None)"

definition alarm_goes_off :: "signal_state \<Rightarrow> signal_state option" where
  "alarm_goes_off s =
     (case s_alarm s of
        None \<Rightarrow> None
      | Some d \<Rightarrow> if d \<le> s_clock s then Some (s\<lparr>s_alarm := None, s_proc := post SIGALRM (s_proc s)\<rparr>) else None)"

text \<open>Another process calls \<^verbatim>\<open>kill\<close> with the process id of the parent or of a child that has not been waited for.\<close>

definition send_parent :: "senv \<Rightarrow> sig \<Rightarrow> signal_state \<Rightarrow> signal_state option" where
  "send_parent e g s = (if e_outside e g then Some (s\<lparr>s_proc := post g (s_proc s)\<rparr>) else None)"

definition send_child :: "nat \<Rightarrow> sig \<Rightarrow> signal_state \<Rightarrow> signal_state option" where
  "send_child i g s =
     (if i < length (s_kids s) \<and> \<not> k_reaped (s_kids s ! i)
      then Some (s\<lparr>s_kids := (s_kids s)[i := (s_kids s ! i)\<lparr>k_proc := post g (k_proc (s_kids s ! i))\<rparr>]\<rparr>) else None)"

datatype signal_actor = SA_Main bool | SA_Handler | SA_Deliver sig | SA_Child nat | SA_Child_Handler nat | SA_Child_Deliver nat sig
  | SA_Ctrl_C | SA_Tick | SA_Alarm | SA_Send sig | SA_Send_Child nat sig

fun signal_act :: "senv \<Rightarrow> signal_actor \<Rightarrow> signal_state \<Rightarrow> signal_state option" where
  "signal_act e (SA_Main ok) s = signal_main e ok s"
| "signal_act e SA_Handler s = parent_handler s"
| "signal_act e (SA_Deliver g) s = parent_deliver g s"
| "signal_act e (SA_Child i) s = child_main e i s"
| "signal_act e (SA_Child_Handler i) s = child_handler i s"
| "signal_act e (SA_Child_Deliver i g) s = child_deliver i g s"
| "signal_act e SA_Ctrl_C s = Some (ctrl_c s)"
| "signal_act e SA_Tick s = tick s"
| "signal_act e SA_Alarm s = alarm_goes_off s"
| "signal_act e (SA_Send g) s = send_parent e g s"
| "signal_act e (SA_Send_Child i g) s = send_child i g s"

definition proc_start :: process where
  "proc_start = \<lparr>p_disp = (\<lambda>_. SIG_DFL), p_mask = (\<lambda>_. False), p_pend = (\<lambda>_. False), p_stack = [], p_int = 0, p_usr1 = False,
     p_wake = 0, p_eintr = False, p_status = Running\<rparr>"

definition signal_start :: signal_state where
  "signal_start = \<lparr>s_pc = SP_Banner, s_proc = proc_start, s_kids = [], s_old = (\<lambda>_. False), s_clock = 0, s_alarm = None, s_cuts = 0,
     s_log = []\<rparr>"

abbreviation signal_step :: "senv \<Rightarrow> signal_state \<Rightarrow> signal_state \<Rightarrow> bool" where
  "signal_step e \<equiv> step_of (signal_act e)"

end
