(* ===== verification/Signal_Invariants.thy ===== *)
theory Signal_Invariants
  imports Signal_Program
begin

text \<open>
  What the steps of \<^verbatim>\<open>signal_demo\<close> keep. The steps that are not statements of the main program (handlers, deliveries, children,
  Ctrl+C, the clock) are handled once: \<open>env_kept\<close> says what they leave alone and \<open>env_process\<close> what they do to the parent.
\<close>

section \<open>Steps from outside the main program\<close>

fun is_main :: "signal_actor \<Rightarrow> bool" where
  "is_main (SA_Main ok) \<longleftrightarrow> True"
| "is_main _ \<longleftrightarrow> False"

text \<open>The steps that send \<^verbatim>\<open>SIGINT\<close> to the parent.\<close>

fun sends_int :: "signal_actor \<Rightarrow> bool" where
  "sends_int SA_Ctrl_C \<longleftrightarrow> True"
| "sends_int (SA_Send g) \<longleftrightarrow> g = SIGINT"
| "sends_int a \<longleftrightarrow> False"

text \<open>A line that is not one of the parent's own \<^verbatim>\<open>printf\<close>s.\<close>

fun foreign :: "nat \<times> signal_line \<Rightarrow> bool" where
  "foreign (w, SL_Handler h) \<longleftrightarrow> True"
| "foreign (w, l) \<longleftrightarrow> w \<noteq> 0"

lemma fold_post_kept [simp]:
  "p_disp (fold post gs p) = p_disp p" "p_mask (fold post gs p) = p_mask p" "p_stack (fold post gs p) = p_stack p"
  "p_int (fold post gs p) = p_int p" "p_usr1 (fold post gs p) = p_usr1 p" "p_wake (fold post gs p) = p_wake p"
  "p_eintr (fold post gs p) = p_eintr p" "p_status (fold post gs p) = p_status p"
  by (induction gs arbitrary: p) simp_all

lemma fold_post_ok: "proc_ok p \<Longrightarrow> proc_ok (fold post gs p)"
  by (induction gs arbitrary: p) (simp_all add: post_ok)

lemma fold_post_pend: "p_pend p g \<Longrightarrow> p_pend (fold post gs p) g"
proof (induction gs arbitrary: p)
  case (Cons a gs)
  then show ?case by (simp add: post_def)
qed simp

lemma put_child_kept [simp]:
  "s_pc (put_child i k s) = s_pc s" "s_old (put_child i k s) = s_old s" "s_clock (put_child i k s) = s_clock s"
  "s_alarm (put_child i k s) = s_alarm s" "s_cuts (put_child i k s) = s_cuts s" "s_log (put_child i k s) = s_log s"
  by (simp_all add: put_child_def)

lemma put_child_process: "\<exists>gs. set gs \<subseteq> {SIGCHLD} \<and> s_proc (put_child i k s) = fold post gs (s_proc s)"
proof (cases "p_status (k_proc (s_kids s ! i)) = Running \<and> p_status (k_proc k) \<noteq> Running")
  case True
  then show ?thesis by (intro exI [of _ "[SIGCHLD]"]) (simp add: put_child_def)
next
  case False
  then have "s_proc (put_child i k s) = s_proc s" by (auto simp: put_child_def)
  then show ?thesis by (intro exI [of _ "[]"]) simp
qed

lemma foreign_child: "w \<noteq> 0 \<Longrightarrow> foreign (w, l)"
  by (cases l) simp_all

text \<open>The state after a statement of child \<open>i\<close>.\<close>

lemma child_mainE:
  assumes "child_main e i s = Some t"
  obtains k ls sent where "i < length (s_kids s)" "main_turn (k_proc (s_kids s ! i))"
    "child_at e (e_pid e (i + 1)) (if p_status (s_proc s) = Running then e_pid e 0 else e_reaper e) (s_clock s)
       (k_at (s_kids s ! i)) (s_kids s ! i) = Some (k, ls, sent)"
    "t = (put_child i k s)\<lparr>s_log := s_log s @ map (\<lambda>l. (i + 1, l)) ls,
           s_proc := (if sent then post SIGUSR1 (s_proc (put_child i k s)) else s_proc (put_child i k s))\<rparr>"
proof -
  from assms have i: "i < length (s_kids s)" "main_turn (k_proc (s_kids s ! i))"
    by (simp_all add: child_main_def split: if_splits)
  with assms obtain r where r: "child_at e (e_pid e (i + 1)) (if p_status (s_proc s) = Running then e_pid e 0 else e_reaper e)
       (s_clock s) (k_at (s_kids s ! i)) (s_kids s ! i) = Some r"
    by (auto simp: child_main_def Let_def)
  obtain k ls sent where "r = (k, ls, sent)" by (cases r) auto
  with i r assms that [of k ls sent] show ?thesis by (simp add: child_main_def Let_def)
qed

lemma child_main_process:
  assumes "child_main e i s = Some t"
  shows "\<exists>gs. set gs \<subseteq> {SIGCHLD, SIGUSR1} \<and> s_proc t = fold post gs (s_proc s)"
  using assms
proof (cases rule: child_mainE)
  case (1 k ls sent)
  obtain gs where gs: "set gs \<subseteq> {SIGCHLD}" "s_proc (put_child i k s) = fold post gs (s_proc s)"
    using put_child_process by blast
  with 1 have "s_proc t = fold post (gs @ (if sent then [SIGUSR1] else [])) (s_proc s)" by simp
  moreover have "set (gs @ (if sent then [SIGUSR1] else [])) \<subseteq> {SIGCHLD, SIGUSR1}" using gs(1) by auto
  ultimately show ?thesis by blast
qed

lemma env_process:
  assumes "signal_act e a s = Some t" and "\<not> is_main a"
  obtains (posts) gs where "s_proc t = fold post gs (s_proc s)" "SIGINT \<in> set gs \<Longrightarrow> sends_int a" "SIGALRM \<in> set gs \<Longrightarrow> a = SA_Alarm \<or> a = SA_Send SIGALRM"
      "SIGUSR1 \<in> set gs \<Longrightarrow> (\<exists>i. a = SA_Child i) \<or> a = SA_Send SIGUSR1"
  | (delivered) g where "a = SA_Deliver g" "deliver g (s_proc s) = Some (s_proc t)" "t = s\<lparr>s_proc := s_proc t\<rparr>"
  | (handler) got ls where "a = SA_Handler" "handler_step got (s_proc s) = Some (s_proc t, ls)" "s_log t = s_log s @ handler_log 0 ls"
proof (cases a)
  case SA_Handler
  with assms handler [of _] show ?thesis by (auto simp: parent_handler_def Let_def)
next
  case (SA_Deliver g)
  with assms delivered [of g] show ?thesis by (auto simp: parent_deliver_def)
next
  case (SA_Child i)
  with assms have "child_main e i s = Some t" by simp
  from child_main_process [OF this] posts SA_Child show ?thesis by blast
next
  case (SA_Child_Handler i)
  with assms have "\<exists>k. s_proc t = s_proc (put_child i k s)" by (auto simp: child_handler_def Let_def split: if_splits)
  with put_child_process posts show ?thesis by (metis subsetD singletonD sig.distinct)
next
  case (SA_Child_Deliver i g)
  with assms have "\<exists>k. s_proc t = s_proc (put_child i k s)" by (auto simp: child_deliver_def split: if_splits)
  with put_child_process posts show ?thesis by (metis subsetD singletonD sig.distinct)
next
  case SA_Ctrl_C
  with assms posts [of "[SIGINT]"] show ?thesis by (auto simp: ctrl_c_def)
next
  case SA_Tick
  with assms posts [of "[]"] show ?thesis by (auto simp: tick_def split: option.splits if_splits)
next
  case SA_Alarm
  with assms posts [of "[SIGALRM]"] show ?thesis by (auto simp: alarm_goes_off_def split: option.splits if_splits)
next
  case (SA_Send g)
  with assms posts [of "[g]"] show ?thesis by (auto simp: send_parent_def split: if_splits)
next
  case (SA_Send_Child i g)
  with assms posts [of "[]"] show ?thesis by (auto simp: send_child_def split: if_splits)
qed (use assms in simp)

lemma handler_log_foreign: "\<forall>l \<in> set (handler_log w ls). foreign l"
  by (auto simp: handler_log_def)

lemma reap_one_length: "reap_one ks = Some ks' \<Longrightarrow> length ks' = length ks"
  by (induction ks arbitrary: ks') (auto split: if_splits)

lemma env_kept:
  assumes "signal_act e a s = Some t" and "\<not> is_main a"
  shows "s_pc t = s_pc s \<and> s_old t = s_old s \<and> s_cuts t = s_cuts s \<and> length (s_kids t) = length (s_kids s) \<and>
    (\<exists>ls. s_log t = s_log s @ ls \<and> (\<forall>l \<in> set ls. foreign l))"
proof (cases a)
  case SA_Handler
  with assms handler_log_foreign show ?thesis
    by (auto simp: parent_handler_def Let_def dest: reap_one_length split: option.splits if_splits)
next
  case (SA_Child i)
  with assms have "child_main e i s = Some t" by simp
  then show ?thesis by (cases rule: child_mainE) (auto simp: put_child_def foreign_child)
next
  case (SA_Child_Handler i)
  with assms handler_log_foreign show ?thesis
    by (auto simp: child_handler_def Let_def put_child_def split: if_splits)
qed (use assms in \<open>auto simp: parent_deliver_def child_deliver_def put_child_def ctrl_c_def tick_def alarm_goes_off_def
  send_parent_def send_child_def   split: if_splits option.splits\<close>)

lemma env_disp_mask:
  assumes "signal_act e a s = Some t" and "\<not> is_main a" and "proc_ok (s_proc s)"
  shows "p_disp (s_proc t) = p_disp (s_proc s) \<and> p_mask (s_proc t) = p_mask (s_proc s)"
  using assms(1,2)
proof (cases rule: env_process)
  case (delivered g)
  from delivered(2) assms(3) show ?thesis by (cases rule: deliver_cases) auto
next
  case (handler got ls)
  then show ?thesis using handler_kept by blast
qed simp

section \<open>Every process is consistent\<close>

definition procs_ok :: "signal_state \<Rightarrow> bool" where
  "procs_ok s \<longleftrightarrow> proc_ok (s_proc s) \<and> (\<forall>k \<in> set (s_kids s). proc_ok (k_proc k))"

lemma proc_ok_eintr [simp]: "proc_ok (p\<lparr>p_eintr := b\<rparr>) = proc_ok p" "proc_ok (p\<lparr>p_wake := n\<rparr>) = proc_ok p"
  "proc_ok (p\<lparr>p_pend := x\<rparr>) = proc_ok p" "proc_ok (begin_sleep c n p) = proc_ok p"
  by (simp_all add: proc_ok_def begin_sleep_def)

lemma proc_ok_exit: "proc_ok p \<Longrightarrow> proc_ok (p\<lparr>p_status := Exited n\<rparr>)"
  by (simp add: proc_ok_def)

lemma proc_ok_install: "proc_ok p \<Longrightarrow> proc_ok (p\<lparr>p_disp := (p_disp p)(g := own_handler g)\<rparr>)"
  by (simp add: proc_ok_def)

lemma proc_ok_mask: "proc_ok p \<Longrightarrow> main_turn p \<Longrightarrow> proc_ok (p\<lparr>p_mask := m\<rparr>)"
  by (simp add: proc_ok_def main_turn_def stack_ok_def)

lemma proc_ok_reset: "proc_ok p \<Longrightarrow> main_turn p \<Longrightarrow> proc_ok (p\<lparr>p_int := 0\<rparr>)"
  by (simp add: proc_ok_def main_turn_def stack_ok_def)

lemma reap_one_procs: "reap_one ks = Some ks' \<Longrightarrow> map k_proc ks' = map k_proc ks"
  by (induction ks arbitrary: ks') (auto split: if_splits)

lemma reap_one_ok: "reap_one ks = Some ks' \<Longrightarrow> \<forall>k \<in> set ks. proc_ok (k_proc k) \<Longrightarrow> \<forall>k \<in> set ks'. proc_ok (k_proc k)"
  by (metis reap_one_procs list.set_map imageE imageI)

lemma say_proc [simp]: "s_proc (say l s) = s_proc s" "s_kids (say l s) = s_kids s" "s_old (say l s) = s_old s"
  "s_alarm (say l s) = s_alarm s" "s_clock (say l s) = s_clock s" "s_cuts (say l s) = s_cuts s" "s_pc (say l s) = s_pc s"
  "s_log (say l s) = s_log s @ [(0, l)]"
  by (simp_all add: say_def)

lemma nap_kept [simp]: "s_proc (nap e s) = begin_sleep (s_clock s) (e_hz e) (s_proc s)" "s_kids (nap e s) = s_kids s"
  "s_old (nap e s) = s_old s" "s_alarm (nap e s) = s_alarm s" "s_clock (nap e s) = s_clock s" "s_cuts (nap e s) = s_cuts s"
  "s_log (nap e s) = s_log s" "s_pc (nap e s) = s_pc s"
  by (simp_all add: nap_def)

lemma begin_sleep_kept [simp]: "p_disp (begin_sleep c n p) = p_disp p" "p_mask (begin_sleep c n p) = p_mask p"
  "p_pend (begin_sleep c n p) = p_pend p" "p_stack (begin_sleep c n p) = p_stack p" "p_int (begin_sleep c n p) = p_int p"
  "p_usr1 (begin_sleep c n p) = p_usr1 p" "p_status (begin_sleep c n p) = p_status p" "p_wake (begin_sleep c n p) = c + n"
  by (simp_all add: begin_sleep_def)

lemma procs_ok_main:
  assumes "procs_ok s" and "signal_main e ok s = Some t"
  shows "procs_ok t"
proof -
  from assms(2) have m: "main_turn (s_proc s)" and t: "main_at e ok (s_pc s) s = Some t"
    by (simp_all add: signal_main_def split: if_splits)
  from assms(1) have p: "proc_ok (s_proc s)" and k: "\<forall>k \<in> set (s_kids s). proc_ok (k_proc k)" by (simp_all add: procs_ok_def)
  note simps = procs_ok_def at_pc_def install_def proc_ok_install [of _ SIGINT, simplified] proc_ok_install [of _ SIGUSR1, simplified]
    proc_ok_install [of _ SIGCHLD, simplified] proc_ok_install [of _ SIGALRM, simplified]
  show ?thesis
  proof (cases "s_pc s")
    case (SP_Basic q)
    with t p k show ?thesis by (cases q) (auto simp: simps split: if_splits)
  next
    case (SP_Between q)
    with t p k show ?thesis
      by (cases q) (auto simp: simps wait_null_def fork_child_def dest: reap_one_ok split: if_splits option.splits)
  next
    case (SP_Mask q)
    with t p k m show ?thesis by (cases q) (auto simp: simps block_sigint_def restore_mask_def proc_ok_mask split: if_splits)
  next
    case (SP_Chld q)
    with t p k show ?thesis by (cases q) (auto simp: simps fork_child_def split: if_splits)
  next
    case (SP_Alarm q)
    with t p k show ?thesis by (cases q) (auto simp: simps set_alarm_def count_cut_def split: if_splits)
  qed (use t p k m in \<open>auto simp: procs_ok_def proc_ok_reset proc_ok_exit\<close>)
qed

lemma env_parent_ok:
  assumes "signal_act e a s = Some t" and "\<not> is_main a" and "proc_ok (s_proc s)"
  shows "proc_ok (s_proc t)"
  using assms(1,2)
proof (cases rule: env_process)
  case (posts gs)
  with assms(3) show ?thesis by (simp add: fold_post_ok)
next
  case (delivered g)
  with assms(3) show ?thesis by (blast intro: deliver_ok)
next
  case (handler got ls)
  with assms(3) show ?thesis by (blast intro: handler_ok)
qed

lemma child_at_ok: "child_at e pid ppid c q k = Some (k', ls, b) \<Longrightarrow> proc_ok (k_proc k) \<Longrightarrow> proc_ok (k_proc k')"
  by (cases q) (auto simp: child_at_def k_go_def k_sleep_def k_exit_def proc_ok_exit split: if_splits)

lemma put_child_kids: "s_kids (put_child i k s) = (s_kids s)[i := k]"
  by (simp add: put_child_def)

lemma update_ok:
  "\<forall>k \<in> set ks. proc_ok (k_proc k) \<Longrightarrow> proc_ok (k_proc k') \<Longrightarrow> \<forall>k \<in> set (ks[i := k']). proc_ok (k_proc k)"
  using set_update_subset_insert by fastforce

lemma env_kids_ok:
  assumes "signal_act e a s = Some t" and "\<not> is_main a" and k: "\<forall>k \<in> set (s_kids s). proc_ok (k_proc k)"
  shows "\<forall>k \<in> set (s_kids t). proc_ok (k_proc k)"
proof (cases a)
  case SA_Handler
  with assms reap_one_ok show ?thesis by (auto simp: parent_handler_def Let_def split: if_splits option.splits)
next
  case (SA_Child i)
  with assms have "child_main e i s = Some t" by simp
  then show ?thesis
  proof (cases rule: child_mainE)
    case (1 k' ls sent)
    with k have "proc_ok (k_proc k')" by (auto intro: child_at_ok)
    with 1 update_ok [OF k] show ?thesis by (simp add: put_child_kids)
  qed
next
  case (SA_Child_Handler i)
  with assms obtain p ls where "i < length (s_kids s)" "handler_step False (k_proc (s_kids s ! i)) = Some (p, ls)"
    and t: "s_kids t = (s_kids s)[i := (s_kids s ! i)\<lparr>k_proc := p\<rparr>]"
    by (auto simp: child_handler_def Let_def put_child_kids split: if_splits)
  with k have "proc_ok p" by (auto intro: handler_ok)
  then show ?thesis unfolding t by (intro update_ok [OF k]) simp
next
  case (SA_Child_Deliver i g)
  with assms obtain p where "i < length (s_kids s)" "deliver g (k_proc (s_kids s ! i)) = Some p"
    and t: "s_kids t = (s_kids s)[i := (s_kids s ! i)\<lparr>k_proc := p\<rparr>]"
    by (auto simp: child_deliver_def put_child_kids split: if_splits)
  with k have "proc_ok p" by (auto intro: deliver_ok)
  then show ?thesis unfolding t by (intro update_ok [OF k]) simp
next
  case SA_Ctrl_C
  with assms show ?thesis by (auto simp: ctrl_c_def post_ok)
next
  case (SA_Send_Child i g)
  with assms have i: "i < length (s_kids s)" and t: "s_kids t = (s_kids s)[i := (s_kids s ! i)\<lparr>k_proc := post g (k_proc (s_kids s ! i))\<rparr>]"
    by (auto simp: send_child_def split: if_splits)
  from i k have "proc_ok (k_proc (s_kids s ! i))" by simp
  then show ?thesis unfolding t by (intro update_ok [OF k]) (simp add: post_ok)
qed (use assms in \<open>auto simp: parent_deliver_def send_parent_def tick_def alarm_goes_off_def split: if_splits option.splits\<close>)

lemma procs_ok_act:
  assumes "procs_ok s" and "signal_act e a s = Some t"
  shows "procs_ok t"
proof (cases "is_main a")
  case True
  then obtain ok where "a = SA_Main ok" by (cases a) auto
  with assms procs_ok_main show ?thesis by simp
next
  case False
  with assms env_parent_ok env_kids_ok show ?thesis by (simp add: procs_ok_def)
qed

interpretation procs_sys: invariant_system "signal_step e" signal_start procs_ok for e
proof
  show "procs_ok signal_start" by (simp add: procs_ok_def signal_start_def proc_start_def proc_ok_def stack_ok_def)
qed (auto elim!: step_ofE intro: procs_ok_act)

section \<open>Statements of the main program\<close>

text \<open>What no statement of the main program changes, and that it prints at most one line.\<close>

lemmas demo_defs = at_pc_def install_def wait_null_def fork_child_def block_sigint_def restore_mask_def set_alarm_def count_cut_def

text \<open>The statements of the whole program, for case distinctions.\<close>

lemma signal_pc_cases:
  obtains "pc = SP_Banner" | "pc = SP_Note" | "pc = SP_Basic B_Header" | "pc = SP_Basic B_Action"
  | "pc = SP_Basic B_Press" | "pc = SP_Basic B_Pid" | i where "pc = SP_Basic (B_Test i)"
  | i where "pc = SP_Basic (B_Print i)" | i where "pc = SP_Basic (B_Sleep i)" | i where "pc = SP_Basic (B_Sleeping i)"
  | "pc = SP_Basic B_If" | "pc = SP_Basic B_None" | "pc = SP_Basic B_Ret" | "pc = SP_Reset"
  | "pc = SP_Between W_Header" | "pc = SP_Between W_Action" | "pc = SP_Between W_Fork" | "pc = SP_Between W_Print"
  | "pc = SP_Between W_Test" | "pc = SP_Between W_Sleep" | "pc = SP_Between W_Sleeping" | "pc = SP_Between W_Received"
  | "pc = SP_Between W_Wait" | "pc = SP_Between W_Waiting" | "pc = SP_Between W_Ret" | "pc = SP_Mask K_Header"
  | "pc = SP_Mask K_Blocking" | "pc = SP_Mask K_Try" | "pc = SP_Mask K_Block" | i where "pc = SP_Mask (K_Test i)"
  | i where "pc = SP_Mask (K_Print i)" | i where "pc = SP_Mask (K_Sleep i)" | i where "pc = SP_Mask (K_Sleeping i)"
  | "pc = SP_Mask K_Newline" | "pc = SP_Mask K_Pending" | b where "pc = SP_Mask (K_Member b)" | "pc = SP_Mask K_Unblocking"
  | "pc = SP_Mask K_Unblock" | "pc = SP_Mask K_Unblocked" | "pc = SP_Mask K_Done" | "pc = SP_Mask K_Nap"
  | "pc = SP_Mask K_Napping" | "pc = SP_Mask K_Ret" | "pc = SP_Chld C_Header" | "pc = SP_Chld C_Action"
  | "pc = SP_Chld C_Creating" | "pc = SP_Chld C_Fork" | i where "pc = SP_Chld (C_Created i)" | "pc = SP_Chld C_Other"
  | i where "pc = SP_Chld (C_Test i)" | i where "pc = SP_Chld (C_Work i)" | i where "pc = SP_Chld (C_Sleep i)"
  | i where "pc = SP_Chld (C_Sleeping i)" | "pc = SP_Chld C_Done" | "pc = SP_Chld C_Ret" | "pc = SP_Alarm A_Header"
  | "pc = SP_Alarm A_Action" | "pc = SP_Alarm A_Setting" | "pc = SP_Alarm A_Alarm" | "pc = SP_Alarm A_Waiting"
  | i where "pc = SP_Alarm (A_Test i)" | i where "pc = SP_Alarm (A_Sleep i)" | i where "pc = SP_Alarm (A_Sleeping i)"
  | i where "pc = SP_Alarm (A_Tick i)" | "pc = SP_Alarm A_Ret" | "pc = SP_Complete" | "pc = SP_Exit"
proof (cases pc)
  case (SP_Basic q)
  with that show ?thesis by (cases q) simp_all
next
  case (SP_Between q)
  with that show ?thesis by (cases q) simp_all
next
  case (SP_Mask q)
  with that show ?thesis by (cases q) simp_all
next
  case (SP_Chld q)
  with that show ?thesis by (cases q) simp_all
next
  case (SP_Alarm q)
  with that show ?thesis by (cases q) simp_all
qed (use that in simp_all)

lemma main_process:
  assumes "main_at e ok pc s = Some t"
  shows "p_usr1 (s_proc t) = p_usr1 (s_proc s) \<and> p_pend (s_proc t) = p_pend (s_proc s) \<and> p_stack (s_proc t) = p_stack (s_proc s)"
  using assms by (cases pc rule: signal_pc_cases; clarsimp simp: demo_defs split: if_splits option.splits)

lemma main_log:
  assumes "main_at e ok pc s = Some t"
  shows "s_log t = s_log s \<or> (\<exists>l. s_log t = s_log s @ [(0, l)] \<and> (l = SL_Received \<longrightarrow> pc = SP_Between W_Received) \<and> (\<forall>h. l \<noteq> SL_Handler h))"
  using assms by (cases pc rule: signal_pc_cases; clarsimp simp: demo_defs split: if_splits option.splits)

lemma main_kids:
  assumes "main_at e ok pc s = Some t"
  shows "s_kids t = s_kids s \<or> reap_one (s_kids s) = Some (s_kids t) \<and> pc = SP_Between W_Waiting \<or>
    s_kids t = s_kids s @ [\<lparr>k_at = KB_Pid, k_proc = (s_proc s)\<lparr>p_pend := (\<lambda>_. False)\<rparr>, k_reaped = False\<rparr>] \<or>
    s_kids t = s_kids s @ [\<lparr>k_at = KC_Pid, k_proc = (s_proc s)\<lparr>p_pend := (\<lambda>_. False)\<rparr>, k_reaped = False\<rparr>] \<and> pc = SP_Chld C_Fork"
  using assms by (cases pc rule: signal_pc_cases; clarsimp simp: demo_defs split: if_splits option.splits)

text \<open>
  C25. The third \<^verbatim>\<open>SIGINT\<close> that is handled ends the process: in no reachable state does the main program of the parent or of a
  child run with a count of three or more.
\<close>

theorem sigint_count_below_three:
  assumes "(signal_step e)\<^sup>*\<^sup>* signal_start s" and "p = s_proc s \<or> p \<in> k_proc ` set (s_kids s)" and "main_turn p"
  shows "0 \<le> p_int p \<and> p_int p < 3"
proof -
  from procs_sys.reach_inv [OF assms(1)] assms(2) have "proc_ok p" by (auto simp: procs_ok_def)
  with main_turn_int [OF this assms(3)] show ?thesis by (simp add: proc_ok_def)
qed

end
