(* ===== verification/Signal_Basic.thy ===== *)
theory Signal_Basic
  imports Signal_Invariants
begin

text \<open>
  \<^verbatim>\<open>demonstrate_basic_signal\<close> of \<^verbatim>\<open>src/examples/signal_demo.c\<close>, in runs of the
  whole program.
\<close>

section \<open>demonstrate basic signal\<close>

fun basic_line :: "nat \<times> signal_line \<Rightarrow> bool" where
  "basic_line (w, SL_Waiting i) \<longleftrightarrow> w = 0"
| "basic_line (w, SL_No_Interrupts) \<longleftrightarrow> w = 0"
| "basic_line (w, l) \<longleftrightarrow> False"

definition waiting_lines :: "nat \<Rightarrow> (nat \<times> signal_line) list" where
  "waiting_lines n = map (\<lambda>i. (0, SL_Waiting (i + 1))) [0..<n]"

text \<open>The lines of the demo after it has returned; \<open>inst\<close>: the handler of \<^verbatim>\<open>SIGINT\<close> is installed.\<close>

definition basic_result :: "bool \<Rightarrow> (nat \<times> signal_line) list" where
  "basic_result inst = (if inst then waiting_lines 10 @ [(0, SL_No_Interrupts)] else [])"

fun basic_at :: "basic_pc \<Rightarrow> bool \<Rightarrow> (nat \<times> signal_line) list \<Rightarrow> bool" where
  "basic_at (B_Test i) inst ls \<longleftrightarrow> inst \<and> i \<le> 10 \<and> ls = waiting_lines i"
| "basic_at (B_Print i) inst ls \<longleftrightarrow> inst \<and> i < 10 \<and> ls = waiting_lines i"
| "basic_at (B_Sleep i) inst ls \<longleftrightarrow> inst \<and> i < 10 \<and> ls = waiting_lines (i + 1)"
| "basic_at (B_Sleeping i) inst ls \<longleftrightarrow> inst \<and> i < 10 \<and> ls = waiting_lines (i + 1)"
| "basic_at B_If inst ls \<longleftrightarrow> inst \<and> ls = waiting_lines 10"
| "basic_at B_None inst ls \<longleftrightarrow> inst \<and> ls = waiting_lines 10"
| "basic_at B_Ret inst ls \<longleftrightarrow> ls = basic_result inst"
| "basic_at B_Press inst ls \<longleftrightarrow> inst \<and> ls = []"
| "basic_at B_Pid inst ls \<longleftrightarrow> inst \<and> ls = []"
| "basic_at q inst ls \<longleftrightarrow> \<not> inst \<and> ls = []"

fun basic_phase :: "signal_pc \<Rightarrow> bool \<Rightarrow> (nat \<times> signal_line) list \<Rightarrow> bool" where
  "basic_phase SP_Banner inst ls \<longleftrightarrow> \<not> inst \<and> ls = []"
| "basic_phase SP_Note inst ls \<longleftrightarrow> \<not> inst \<and> ls = []"
| "basic_phase (SP_Basic q) inst ls \<longleftrightarrow> basic_at q inst ls"
| "basic_phase q inst ls \<longleftrightarrow> ls = basic_result inst"

definition basic_signal_inv :: "signal_state \<Rightarrow> bool" where
  "basic_signal_inv s \<longleftrightarrow> procs_ok s \<and> basic_phase (s_pc s) (p_disp (s_proc s) SIGINT \<noteq> SIG_DFL) (filter basic_line (s_log s))"

lemma foreign_basic: "foreign l \<Longrightarrow> \<not> basic_line l"
  by (cases l rule: basic_line.cases) auto

lemma filter_foreign: "\<forall>l \<in> set ls. foreign l \<Longrightarrow> (\<And>l. foreign l \<Longrightarrow> \<not> P l) \<Longrightarrow> filter P ls = []"
  by (simp add: filter_empty_conv)

lemma waiting_Suc: "waiting_lines (Suc n) = waiting_lines n @ [(0, SL_Waiting (Suc n))]"
  by (simp add: waiting_lines_def)

lemma basic_main:
  assumes "basic_signal_inv s" and "signal_main e ok s = Some t"
  shows "basic_phase (s_pc t) (p_disp (s_proc t) SIGINT \<noteq> SIG_DFL) (filter basic_line (s_log t))"
proof -
  from assms(2) have m: "main_turn (s_proc s)" and t: "main_at e ok (s_pc s) s = Some t"
    by (simp_all add: signal_main_def split: if_splits)
  from assms(1) have I: "basic_phase (s_pc s) (p_disp (s_proc s) SIGINT \<noteq> SIG_DFL) (filter basic_line (s_log s))"
    and "proc_ok (s_proc s)" by (simp_all add: basic_signal_inv_def procs_ok_def)
  with m have n: "p_int (s_proc s) < 3" by (simp add: main_turn_int)
  show ?thesis
  proof (cases "\<exists>q. s_pc s = SP_Basic q")
    case True
    then obtain q where "s_pc s = SP_Basic q" by blast
    with t I n show ?thesis
      by (cases q) (auto simp: demo_defs waiting_Suc basic_result_def le_less waiting_lines_def [of 0] split: if_splits)
  next
    case False
    with t I show ?thesis by (cases "s_pc s" rule: signal_pc_cases; clarsimp simp: demo_defs split: if_splits option.splits)
  qed
qed

text \<open>An invariant that looks at the parent's program counter, dispositions and printed lines is kept by every other step.\<close>

lemma env_view:
  assumes "signal_act e a s = Some t" and "\<not> is_main a" and "procs_ok s" and "\<And>l. foreign l \<Longrightarrow> \<not> P l"
  shows "s_pc t = s_pc s" and "p_disp (s_proc t) = p_disp (s_proc s)" and "filter P (s_log t) = filter P (s_log s)"
proof -
  from env_kept [OF assms(1,2)] obtain ls where "s_pc t = s_pc s" "s_log t = s_log s @ ls" "\<forall>l \<in> set ls. foreign l" by blast
  with filter_foreign [of ls P] assms(4) show "s_pc t = s_pc s" "filter P (s_log t) = filter P (s_log s)" by simp_all
  show "p_disp (s_proc t) = p_disp (s_proc s)" using env_disp_mask [OF assms(1,2)] assms(3) by (simp add: procs_ok_def)
qed

lemma basic_signal_inv_act:
  assumes "basic_signal_inv s" and "signal_act e a s = Some t"
  shows "basic_signal_inv t"
proof -
  from assms have p: "procs_ok s" "procs_ok t" by (auto simp: basic_signal_inv_def intro: procs_ok_act)
  show ?thesis
  proof (cases "is_main a")
    case True
    then obtain ok where "a = SA_Main ok" by (cases a) auto
    with assms p basic_main show ?thesis by (simp add: basic_signal_inv_def)
  next
    case False
    from env_view [OF assms(2) False p(1) foreign_basic] assms(1) p(2) show ?thesis by (simp add: basic_signal_inv_def)
  qed
qed

interpretation basic_sys: invariant_system "signal_step e" signal_start basic_signal_inv for e
proof
  show "basic_signal_inv signal_start"
    using procs_sys.init_inv by (simp add: basic_signal_inv_def) (simp add: signal_start_def proc_start_def)
qed (auto elim!: step_ofE intro: basic_signal_inv_act)

text \<open>
  C24. When \<^verbatim>\<open>demonstrate_basic_signal\<close> has returned with its handler installed, it has waited ten times and then printed "No interrupts
  received", whatever Ctrl+C was pressed meanwhile: with fewer than three the loop runs to its end, and the third does not let
  it return.
\<close>

theorem basic_signal_result:
  assumes "(signal_step e)\<^sup>*\<^sup>* signal_start s" and "s_pc s = SP_Reset" and "p_disp (s_proc s) SIGINT = Sigint_handler"
  shows "filter basic_line (s_log s) = map (\<lambda>i. (0, SL_Waiting i)) [1..<11] @ [(0, SL_No_Interrupts)]"
proof -
  have "waiting_lines 10 = map (\<lambda>i. (0, SL_Waiting i)) [1..<11]" by (simp add: waiting_lines_def upt_rec)
  with basic_sys.reach_inv [OF assms(1)] assms(2,3) show ?thesis by (simp add: basic_signal_inv_def basic_result_def)
qed

text \<open>A run in which Ctrl+C is pressed once while the program waits.\<close>

definition interrupted_wait :: "signal_actor list" where
  "interrupted_wait =
     [SA_Main True, SA_Main True, SA_Main True, SA_Main True, SA_Main True, SA_Main True,
      SA_Main True, SA_Main True, SA_Main True, SA_Ctrl_C, SA_Deliver SIGINT, SA_Handler, SA_Handler, SA_Handler, SA_Main True]
     @ concat (replicate 9 [SA_Main True, SA_Main True, SA_Main True, SA_Tick, SA_Main True])
     @ [SA_Main True, SA_Main True, SA_Main True, SA_Main True]"

definition unit_env :: senv where
  "unit_env = \<lparr>e_hz = 1, e_pid = (\<lambda>n. 100 + int n), e_reaper = 1, e_outside = (\<lambda>_. False)\<rparr>"

lemmas run_simps = signal_start_def proc_start_def signal_main_def main_turn_def at_pc_def say_def install_def nap_def begin_sleep_def
  sleep_over_def settled_def deliverable_def deliver_def post_def ctrl_c_def parent_deliver_def parent_handler_def handler_step_def
  handler_log_def tick_def send_parent_def send_child_def unit_env_def

lemma basic_run:
  "\<exists>s. (signal_step unit_env)\<^sup>*\<^sup>* signal_start s \<and> s_pc s = SP_Reset \<and> p_disp (s_proc s) SIGINT = Sigint_handler \<and> p_int (s_proc s) = 1
     \<and> main_turn (s_proc s)"
  by (rule run_sched_witness [where as = interrupted_wait]) code_simp

theorem sigint_count_below_three_witness:
  "\<exists>s. (signal_step unit_env)\<^sup>*\<^sup>* signal_start s \<and> main_turn (s_proc s) \<and> p_int (s_proc s) = 1 \<and> p_int (s_proc s) < 3"
  using basic_run sigint_count_below_three by blast

theorem basic_signal_result_witness:
  "\<exists>s. (signal_step unit_env)\<^sup>*\<^sup>* signal_start s \<and> p_int (s_proc s) = 1 \<and>
     filter basic_line (s_log s) = map (\<lambda>i. (0, SL_Waiting i)) [1..<11] @ [(0, SL_No_Interrupts)]"
  using basic_run basic_signal_result by blast

end
