(* ===== verification/Signal_Between.thy ===== *)
theory Signal_Between
  imports Signal_Basic
begin

text \<open>
  \<^verbatim>\<open>demonstrate_signal_between_processes\<close>: the parent does not report the signal before the child or another process has sent
  it and the handler has run. It does not ask who the sender was.
\<close>

definition has_sent :: "child \<Rightarrow> bool" where
  "has_sent k \<longleftrightarrow> k_at k = KB_Exiting \<or> k_at k = KB_Exit"

definition some_sent :: "child list \<Rightarrow> bool" where
  "some_sent ks \<longleftrightarrow> (\<exists>i < length ks. has_sent (ks ! i))"

text \<open>The parent's line about the signal comes after the handler's line.\<close>

definition received_after :: "(nat \<times> signal_line) list \<Rightarrow> bool" where
  "received_after log \<longleftrightarrow> ((0, SL_Received) \<in> set log \<longrightarrow>
     (0, SL_Handler SH_Usr1) \<in> set (takeWhile (\<lambda>l. l \<noteq> (0, SL_Received)) log))"

lemma received_after_append:
  "received_after log \<Longrightarrow> (0, SL_Received) \<notin> set ls \<Longrightarrow> received_after (log @ ls)"
  by (cases "(0, SL_Received) \<in> set log") (auto simp: received_after_def takeWhile_append1 takeWhile_append2)

lemma received_after_report:
  assumes "received_after log" and "(0, SL_Handler SH_Usr1) \<in> set log"
  shows "received_after (log @ [(0, SL_Received)])"
proof (cases "(0, SL_Received) \<in> set log")
  case True
  with assms(1) show ?thesis by (auto simp: received_after_def takeWhile_append1)
next
  case False
  then have "takeWhile (\<lambda>l. l \<noteq> (0, SL_Received)) (log @ [(0, SL_Received)]) = log"
    by (subst takeWhile_append2) auto
  with assms(2) show ?thesis by (simp add: received_after_def)
qed

definition usr1_seen :: "process \<Rightarrow> bool" where
  "usr1_seen p \<longleftrightarrow> p_usr1 p \<or> p_pend p SIGUSR1 \<or> SIGUSR1 \<in> set (map frame_sig (p_stack p))"

definition usr1_logged :: "process \<Rightarrow> (nat \<times> signal_line) list \<Rightarrow> bool" where
  "usr1_logged p log \<longleftrightarrow> (p_usr1 p \<longrightarrow> F_Usr1 HU_Write \<in> set (p_stack p) \<or> (0, SL_Handler SH_Usr1) \<in> set log)"

definition usr1_from :: "senv \<Rightarrow> child list \<Rightarrow> bool" where
  "usr1_from e ks \<longleftrightarrow> e_outside e SIGUSR1 \<or> some_sent ks"

definition between_inv :: "senv \<Rightarrow> signal_state \<Rightarrow> bool" where
  "between_inv e s \<longleftrightarrow> procs_ok s \<and> (usr1_seen (s_proc s) \<longrightarrow> usr1_from e (s_kids s)) \<and> usr1_logged (s_proc s) (s_log s) \<and>
     (s_pc s = SP_Between W_Received \<longrightarrow> p_usr1 (s_proc s)) \<and> received_after (s_log s)
     \<and> ((0, SL_Received) \<in> set (s_log s) \<longrightarrow> usr1_from e (s_kids s))"

section \<open>The child's signal\<close>

lemma child_at_sent:
  "child_at e pid ppid c (k_at k) k = Some (k', ls, b) \<Longrightarrow> (has_sent k \<longrightarrow> has_sent k') \<and> (b \<longrightarrow> has_sent k')"
  by (cases "k_at k") (auto simp: has_sent_def child_at_def k_go_def k_sleep_def k_exit_def split: if_splits)

lemma some_sent_update: "some_sent ks \<Longrightarrow> i < length ks \<Longrightarrow> (has_sent (ks ! i) \<longrightarrow> has_sent k) \<Longrightarrow> some_sent (ks[i := k])"
  by (auto simp: some_sent_def nth_list_update)

lemma reap_one_at: "reap_one ks = Some ks' \<Longrightarrow> map k_at ks' = map k_at ks"
  by (induction ks arbitrary: ks') (auto split: if_splits)

lemma some_sent_at: "map k_at ks' = map k_at ks \<Longrightarrow> some_sent ks \<Longrightarrow> some_sent ks'"
  unfolding some_sent_def has_sent_def by (metis length_map nth_map)

lemma some_sent_append: "some_sent ks \<Longrightarrow> some_sent (ks @ [k])"
  by (auto simp: some_sent_def nth_append intro: exI [of _ "_ :: nat"])

lemma env_sent:
  assumes "signal_act e a s = Some t" and "\<not> is_main a" and "some_sent (s_kids s)"
  shows "some_sent (s_kids t)"
proof (cases a)
  case SA_Handler
  with assms show ?thesis
    by (auto simp: parent_handler_def Let_def dest!: reap_one_at intro: some_sent_at split: if_splits option.splits)
next
  case (SA_Child i)
  with assms have "child_main e i s = Some t" by simp
  then show ?thesis
  proof (cases rule: child_mainE)
    case (1 k ls b)
    with child_at_sent [OF 1(3)] some_sent_update [OF assms(3) 1(1), of k] show ?thesis by (simp add: put_child_kids)
  qed
next
  case (SA_Child_Handler i)
  with assms some_sent_update [OF assms(3), of i] show ?thesis
    by (auto simp: child_handler_def Let_def put_child_kids has_sent_def split: if_splits)
next
  case (SA_Child_Deliver i g)
  with assms some_sent_update [OF assms(3), of i] show ?thesis
    by (auto simp: child_deliver_def put_child_kids has_sent_def split: if_splits)
next
  case SA_Ctrl_C
  with assms show ?thesis by (intro some_sent_at [OF _ assms(3)]) (auto simp: ctrl_c_def)
next
  case (SA_Send_Child i g)
  with assms some_sent_update [OF assms(3), of i] show ?thesis by (auto simp: send_child_def has_sent_def split: if_splits)
qed (use assms in \<open>auto simp: parent_deliver_def send_parent_def tick_def alarm_goes_off_def split: if_splits option.splits\<close>)

lemma from_env: "signal_act e a s = Some t \<Longrightarrow> \<not> is_main a \<Longrightarrow> usr1_from e (s_kids s) \<Longrightarrow> usr1_from e (s_kids t)"
  using env_sent by (auto simp: usr1_from_def)

lemma child_signals:
  assumes "child_main e i s = Some t" and "p_pend (s_proc t) SIGUSR1" and "\<not> p_pend (s_proc s) SIGUSR1"
  shows "some_sent (s_kids t)"
  using assms(1)
proof (cases rule: child_mainE)
  case (1 k ls b)
  have "\<not> p_pend (s_proc (put_child i k s)) SIGUSR1" using assms(3) by (simp add: put_child_def post_def)
  with 1(4) assms(2) have b by (auto split: if_splits)
  with child_at_sent [OF 1(3)] have "has_sent k" by simp
  with 1 show ?thesis by (auto simp: some_sent_def put_child_kids)
qed

section \<open>The parent's handler\<close>

lemma fold_post_pend_only: "g \<notin> set gs \<Longrightarrow> p_pend (fold post gs p) g = p_pend p g"
  by (induction gs arbitrary: p) (auto simp: post_def)

lemma seen_env:
  assumes "signal_act e a s = Some t" and "\<not> is_main a" and "proc_ok (s_proc s)" and "usr1_seen (s_proc t)"
  shows "usr1_seen (s_proc s) \<or> usr1_from e (s_kids t)"
  using assms(1,2)
proof (cases rule: env_process)
  case (posts gs)
  show ?thesis
  proof (cases "\<exists>i. a = SA_Child i")
    case True
    then obtain i where "child_main e i s = Some t" using assms(1) by auto
    from child_signals [OF this] posts(1) assms(4) show ?thesis by (auto simp: usr1_seen_def usr1_from_def)
  next
    case False
    show ?thesis
    proof (cases "a = SA_Send SIGUSR1")
      case True
      with assms(1) show ?thesis by (simp add: send_parent_def usr1_from_def split: if_splits)
    next
      case no: False
      with False posts have "SIGUSR1 \<notin> set gs" by blast
      with posts(1) assms(4) show ?thesis by (simp add: usr1_seen_def fold_post_pend_only)
    qed
  qed
next
  case (delivered g)
  from delivered(2) assms(3) have "usr1_seen (s_proc s)"
  proof (cases rule: deliver_cases)
    case (called f)
    with assms(4) show ?thesis by (auto simp: usr1_seen_def deliverable_def split: if_splits)
  qed (use assms(4) in \<open>auto simp: usr1_seen_def\<close>)
  then show ?thesis ..
next
  case (handler got ls)
  from handler_sigs [OF handler(2)] handler_kept(3) [OF handler(2)] assms(4) show ?thesis by (auto simp: usr1_seen_def)
qed

lemma logged_env:
  assumes "signal_act e a s = Some t" and "\<not> is_main a" and "proc_ok (s_proc s)" and "usr1_logged (s_proc s) (s_log s)"
  shows "usr1_logged (s_proc t) (s_log t)"
  using assms(1,2)
proof (cases rule: env_process)
  case (posts gs)
  from env_kept [OF assms(1,2)] obtain ls where "s_log t = s_log s @ ls" by blast
  with posts(1) assms(4) show ?thesis by (simp add: usr1_logged_def) blast
next
  case (delivered g)
  from delivered(3) have l: "s_log t = s_log s" by (metis signal_state.select_convs(8) signal_state.surjective signal_state.update_convs(2))
  from delivered(2) assms(3) show ?thesis
    by (cases rule: deliver_cases) (use assms(4) l in \<open>auto simp: usr1_logged_def\<close>)
next
  case (handler got ls)
  from handler(2) show ?thesis
  proof (cases rule: handler_stepE)
    case (1 f fs f' q)
    with assms(4) handler(3) show ?thesis
      by (cases f rule: frame_cases) (auto simp: usr1_logged_def sigalrm_handler_def handler_log_def split: if_splits)
  qed
qed

lemma foreign_received: "foreign l \<Longrightarrow> l \<noteq> (0, SL_Received)"
  by auto

lemma between_env:
  assumes "between_inv e s" and "signal_act e a s = Some t" and "\<not> is_main a"
  shows "between_inv e t"
proof -
  from assms(1) have p: "proc_ok (s_proc s)" "procs_ok s" by (simp_all add: between_inv_def procs_ok_def)
  from env_kept [OF assms(2,3)] obtain ls where pc: "s_pc t = s_pc s" and log: "s_log t = s_log s @ ls" "\<forall>l \<in> set ls. foreign l" by blast
  then have nr: "(0, SL_Received) \<notin> set ls" using foreign_received by blast
  have "p_usr1 (s_proc t)" if "p_usr1 (s_proc s)"
    using assms(2,3)
  proof (cases rule: env_process)
    case (delivered g)
    from delivered(2) p(1) that show ?thesis by (cases rule: deliver_cases) auto
  qed (use that in \<open>auto dest: handler_kept(6)\<close>)
  with assms p log nr pc from_env [OF assms(2,3)] seen_env [OF assms(2,3) p(1)] logged_env [OF assms(2,3) p(1)]
    received_after_append [OF _ nr] procs_ok_act [OF p(2) assms(2)]
  show ?thesis by (auto simp: between_inv_def)
qed

lemma main_sent:
  assumes "main_at e ok pc s = Some t" and "some_sent (s_kids s)"
  shows "some_sent (s_kids t)"
  using main_kids [OF assms(1)] assms(2) by (auto dest!: reap_one_at intro: some_sent_append some_sent_at)

lemma main_received:
  assumes "main_at e ok (s_pc s) s = Some t" and "s_pc t = SP_Between W_Received"
  shows "p_usr1 (s_proc s)"
proof (cases "s_pc s")
  case (SP_Between q)
  with assms show ?thesis by (cases q) (auto simp: at_pc_def split: if_splits)
qed (use assms in \<open>auto simp: at_pc_def split: if_splits\<close>)

lemma between_main:
  assumes "between_inv e s" and "signal_main e ok s = Some t"
  shows "between_inv e t"
proof -
  from assms(2) have m: "p_stack (s_proc s) = []" and t: "main_at e ok (s_pc s) s = Some t"
    by (simp_all add: signal_main_def main_turn_def split: if_splits)
  from assms(1) m have I: "procs_ok s" "usr1_seen (s_proc s) \<Longrightarrow> usr1_from e (s_kids s)" "received_after (s_log s)"
      "(0, SL_Received) \<in> set (s_log s) \<Longrightarrow> usr1_from e (s_kids s)" "s_pc s = SP_Between W_Received \<Longrightarrow> p_usr1 (s_proc s)"
    and logged: "p_usr1 (s_proc s) \<Longrightarrow> (0, SL_Handler SH_Usr1) \<in> set (s_log s)"
    by (auto simp: between_inv_def usr1_logged_def)
  have seen: "usr1_seen (s_proc t) = usr1_seen (s_proc s)" and u: "p_usr1 (s_proc t) = p_usr1 (s_proc s)"
    using main_process [OF t] by (simp_all add: usr1_seen_def)
  have log: "received_after (s_log t) \<and> set (s_log s) \<subseteq> set (s_log t) \<and>
    ((0, SL_Received) \<in> set (s_log t) \<longrightarrow> (0, SL_Received) \<in> set (s_log s) \<or> p_usr1 (s_proc s))"
    using main_log [OF t]
  proof
    assume "\<exists>l. s_log t = s_log s @ [(0, l)] \<and> (l = SL_Received \<longrightarrow> s_pc s = SP_Between W_Received) \<and> (\<forall>h. l \<noteq> SL_Handler h)"
    then obtain l where l: "s_log t = s_log s @ [(0, l)]" "l = SL_Received \<longrightarrow> s_pc s = SP_Between W_Received" by blast
    show ?thesis
    proof (cases "l = SL_Received")
      case True
      with l I(3,5) logged received_after_report show ?thesis by auto
    qed (use l I(3) received_after_append in auto)
  qed (use I(3) in simp)
  have "procs_ok t" using procs_ok_main [OF I(1) assms(2)] .
  moreover have "usr1_seen (s_proc t) \<longrightarrow> usr1_from e (s_kids t)" using seen I(2) main_sent [OF t] by (auto simp: usr1_from_def)
  moreover have "usr1_logged (s_proc t) (s_log t)" using u logged log by (auto simp: usr1_logged_def)
  moreover have "s_pc t = SP_Between W_Received \<longrightarrow> p_usr1 (s_proc t)" using main_received [OF t] u by simp
  moreover have "(0, SL_Received) \<in> set (s_log t) \<longrightarrow> usr1_from e (s_kids t)"
    using log I(2,4) main_sent [OF t] by (auto simp: usr1_seen_def usr1_from_def)
  ultimately show ?thesis using log by (simp add: between_inv_def)
qed

interpretation between_sys: invariant_system "signal_step e" signal_start "between_inv e" for e
proof
  show "between_inv e signal_start"
    using procs_sys.init_inv
    by (simp add: between_inv_def) (simp add: signal_start_def proc_start_def usr1_seen_def usr1_logged_def received_after_def)
next
  fix s t
  assume I: "between_inv e s" and "signal_step e s t"
  then obtain a where a: "signal_act e a s = Some t" by (auto elim: step_ofE)
  show "between_inv e t"
  proof (cases "is_main a")
    case True
    then obtain ok where "a = SA_Main ok" by (cases a) auto
    with I a between_main show ?thesis by simp
  qed (use I a between_env in blast)
qed

section \<open>Runs in which nobody else sends the signal\<close>

text \<open>A run in which no other process sends signal \<open>g\<close> to the parent is a run in a system where none can.\<close>

definition without :: "sig \<Rightarrow> senv \<Rightarrow> senv" where
  "without g e = e\<lparr>e_outside := (e_outside e)(g := False)\<rparr>"

lemma without_sel [simp]: "e_hz (without g e) = e_hz e" "e_pid (without g e) = e_pid e" "e_reaper (without g e) = e_reaper e"
  "e_outside (without g e) = (e_outside e)(g := False)"
  by (simp_all add: without_def)

lemma without_nap [simp]: "nap (without g e) s = nap e s"
  by (simp add: nap_def)

lemma without_main: "main_at (without g e) ok pc s = main_at e ok pc s"
  by (cases pc rule: signal_pc_cases) simp_all

lemma without_child: "child_at (without g e) pid ppid c q k = child_at e pid ppid c q k"
  by (cases q) (simp_all add: child_at_def)

lemma without_act: "a \<noteq> SA_Send g \<Longrightarrow> signal_act (without g e) a s = signal_act e a s"
  by (cases a) (simp_all add: signal_main_def without_main child_main_def without_child send_parent_def)

lemma without_run: "SA_Send g \<notin> set as \<Longrightarrow> run_sched (signal_act (without g e)) as s = run_sched (signal_act e) as s"
  by (induction as arbitrary: s) (auto simp: without_act split: option.splits)

section \<open>The result\<close>

text \<open>
  C23. In every run: when the parent reports \<^verbatim>\<open>SIGUSR1\<close>, its handler has run and written its line before, and the signal was
  sent, by the child or, in a run with such a step, by another process: the report never comes out of nothing.
\<close>

theorem received_is_sent:
  assumes "run_sched (signal_act e) as signal_start = Some s" and "(0, SL_Received) \<in> set (s_log s)"
  shows "(0, SL_Handler SH_Usr1) \<in> set (takeWhile (\<lambda>l. l \<noteq> (0, SL_Received)) (s_log s))
    \<and> ((\<exists>k \<in> set (s_kids s). has_sent k) \<or> SA_Send SIGUSR1 \<in> set as)"
proof
  from between_sys.reach_inv [OF run_sched_reach [OF assms(1)]] assms(2)
  show "(0, SL_Handler SH_Usr1) \<in> set (takeWhile (\<lambda>l. l \<noteq> (0, SL_Received)) (s_log s))"
    by (simp add: between_inv_def received_after_def)
  show "(\<exists>k \<in> set (s_kids s). has_sent k) \<or> SA_Send SIGUSR1 \<in> set as"
  proof (cases "SA_Send SIGUSR1 \<in> set as")
    case False
    with assms(1) have "run_sched (signal_act (without SIGUSR1 e)) as signal_start = Some s" by (simp add: without_run)
    from between_sys.reach_inv [OF run_sched_reach [OF this]] assms(2) show ?thesis
      by (auto simp: between_inv_def usr1_from_def some_sent_def without_def)
  qed simp
qed

text \<open>A run of the first two demos, with no Ctrl+C.\<close>

definition quiet_basic :: "signal_actor list" where
  "quiet_basic = replicate 6 (SA_Main True) @ concat (replicate 10 [SA_Main True, SA_Main True, SA_Main True, SA_Tick, SA_Main True])
     @ replicate 5 (SA_Main True)"

definition between_sched :: "signal_actor list" where
  "between_sched = replicate 6 (SA_Main True) @ replicate 3 (SA_Child 0) @ [SA_Tick, SA_Child 0, SA_Child 0, SA_Deliver SIGUSR1,
     SA_Handler, SA_Handler, SA_Main True, SA_Main True, SA_Main True, SA_Child 0, SA_Child 0, SA_Main True, SA_Main True]"

definition reported :: "signal_state option \<Rightarrow> bool" where
  "reported r = (case r of None \<Rightarrow> False | Some s \<Rightarrow> s_pc s = SP_Between W_Ret \<and> (0, SL_Received) \<in> set (s_log s))"

lemma between_run: "reported (run_sched (signal_act unit_env) (quiet_basic @ between_sched) signal_start)"
  by code_simp

theorem received_is_sent_witness:
  "\<exists>s. run_sched (signal_act unit_env) (quiet_basic @ between_sched) signal_start = Some s \<and> (0, SL_Received) \<in> set (s_log s) \<and>
     (\<exists>k \<in> set (s_kids s). has_sent k)"
proof -
  from between_run obtain s where s: "run_sched (signal_act unit_env) (quiet_basic @ between_sched) signal_start = Some s"
    "(0, SL_Received) \<in> set (s_log s)" by (auto simp: reported_def split: option.splits)
  have "SA_Send SIGUSR1 \<notin> set (quiet_basic @ between_sched)" by (simp add: quiet_basic_def between_sched_def)
  with received_is_sent [OF s] s show ?thesis by auto
qed

text \<open>
  The parent's line says that the signal came from the child, but nothing in the program checks the sender: another process that
  sends \<^verbatim>\<open>SIGUSR1\<close> to the parent makes it report a signal "from child" while the child is still at its first statement.
\<close>

definition stranger_env :: senv where
  "stranger_env = unit_env\<lparr>e_outside := (\<lambda>_. True)\<rparr>"

definition stranger_sched :: "signal_actor list" where
  "stranger_sched = replicate 4 (SA_Main True) @
     [SA_Send SIGUSR1, SA_Deliver SIGUSR1, SA_Handler, SA_Handler, SA_Main True, SA_Main True]"

theorem received_unsent:
  "\<exists>s. (signal_step stranger_env)\<^sup>*\<^sup>* signal_start s \<and> (0, SL_Received) \<in> set (s_log s) \<and> map k_at (s_kids s) = [KB_Pid]"
  by (rule run_sched_witness [where as = "quiet_basic @ stranger_sched"]) code_simp

end
