(* ===== verification/Signal_Masking.thy ===== *)
theory Signal_Masking
  imports Signal_Between
begin

text \<open>
  \<^verbatim>\<open>demonstrate_signal_masking\<close>: while \<^verbatim>\<open>SIGINT\<close> is blocked its handler does not run, and however often Ctrl+C was pressed,
  the handler runs once when the signal is unblocked.
\<close>

section \<open>The mask\<close>

fun masked :: "signal_pc \<Rightarrow> bool" where
  "masked (SP_Mask (K_Test i)) \<longleftrightarrow> True"
| "masked (SP_Mask (K_Print i)) \<longleftrightarrow> True"
| "masked (SP_Mask (K_Sleep i)) \<longleftrightarrow> True"
| "masked (SP_Mask (K_Sleeping i)) \<longleftrightarrow> True"
| "masked (SP_Mask K_Newline) \<longleftrightarrow> True"
| "masked (SP_Mask K_Pending) \<longleftrightarrow> True"
| "masked (SP_Mask (K_Member b)) \<longleftrightarrow> True"
| "masked (SP_Mask K_Unblocking) \<longleftrightarrow> True"
| "masked (SP_Mask K_Unblock) \<longleftrightarrow> True"
| "masked q \<longleftrightarrow> False"

text \<open>The points after the signal was unblocked, and those of the later demos.\<close>

fun unmasking :: "signal_pc \<Rightarrow> bool" where
  "unmasking (SP_Mask K_Unblocked) \<longleftrightarrow> True"
| "unmasking (SP_Mask K_Done) \<longleftrightarrow> True"
| "unmasking (SP_Mask K_Nap) \<longleftrightarrow> True"
| "unmasking (SP_Mask K_Napping) \<longleftrightarrow> True"
| "unmasking q \<longleftrightarrow> False"

fun past_mask :: "signal_pc \<Rightarrow> bool" where
  "past_mask (SP_Mask K_Ret) \<longleftrightarrow> True"
| "past_mask (SP_Chld q) \<longleftrightarrow> True"
| "past_mask (SP_Alarm q) \<longleftrightarrow> True"
| "past_mask SP_Complete \<longleftrightarrow> True"
| "past_mask SP_Exit \<longleftrightarrow> True"
| "past_mask q \<longleftrightarrow> False"

definition mask_at :: "signal_pc \<Rightarrow> bool \<Rightarrow> bool \<Rightarrow> bool" where
  "mask_at pc m old \<longleftrightarrow> past_mask pc \<or> (if masked pc then m \<and> \<not> old else \<not> m)"

definition mask_inv :: "signal_state \<Rightarrow> bool" where
  "mask_inv s \<longleftrightarrow> procs_ok s \<and> mask_at (s_pc s) (p_mask (s_proc s) SIGINT) (s_old s SIGINT)"

lemma mask_main:
  assumes "mask_at (s_pc s) (p_mask (s_proc s) SIGINT) (s_old s SIGINT)" and "main_at e ok (s_pc s) s = Some t"
  shows "mask_at (s_pc t) (p_mask (s_proc t) SIGINT) (s_old t SIGINT)"
  using assms by (cases "s_pc s" rule: signal_pc_cases; clarsimp simp: demo_defs mask_at_def split: if_splits option.splits)

lemma mask_inv_act:
  assumes "mask_inv s" and "signal_act e a s = Some t"
  shows "mask_inv t"
proof -
  from assms have p: "procs_ok s" "procs_ok t" by (auto simp: mask_inv_def intro: procs_ok_act)
  show ?thesis
  proof (cases "is_main a")
    case True
    then obtain ok where "a = SA_Main ok" by (cases a) auto
    with assms(2) have "main_at e ok (s_pc s) s = Some t" by (simp add: signal_main_def split: if_splits)
    with assms(1) p mask_main show ?thesis by (simp add: mask_inv_def)
  next
    case False
    from env_kept [OF assms(2) False] env_disp_mask [OF assms(2) False] assms(1) p show ?thesis
      by (simp add: mask_inv_def procs_ok_def)
  qed
qed

interpretation mask_sys: invariant_system "signal_step e" signal_start mask_inv for e
proof
  show "mask_inv signal_start"
    using procs_sys.init_inv by (simp add: mask_inv_def) (simp add: signal_start_def proc_start_def mask_at_def)
qed (auto elim!: step_ofE intro: mask_inv_act)

lemma masked_no_frame:
  assumes "mask_inv s" and "masked (s_pc s)" and "p_status (s_proc s) = Running"
  shows "F_Int q \<notin> set (p_stack (s_proc s))"
proof -
  have "\<not> past_mask (s_pc s)" using assms(2) by (cases "s_pc s" rule: masked.cases) simp_all
  with assms have "p_mask (s_proc s) SIGINT" by (simp add: mask_inv_def mask_at_def)
  with assms show ?thesis by (auto simp: mask_inv_def procs_ok_def proc_ok_def stack_ok_def)
qed

section \<open>How often the handler runs\<close>

text \<open>
  \<open>b\<close>: one \<^verbatim>\<open>SIGINT\<close> is on its way. Until it is counted, \<^verbatim>\<open>sigint_count\<close> is \<open>n\<close>; then \<open>n + 1\<close>.
\<close>

definition int_stage :: "bool \<Rightarrow> int \<Rightarrow> process \<Rightarrow> bool" where
  "int_stage b n p \<longleftrightarrow>
     (if b \<and> (p_pend p SIGINT \<or> F_Int HI_Inc \<in> set (p_stack p)) then p_int p = n \<and> (p_pend p SIGINT \<longrightarrow> (\<forall>q. F_Int q \<notin> set (p_stack p)))
      else \<not> p_pend p SIGINT \<and> F_Int HI_Inc \<notin> set (p_stack p) \<and> p_int p = (if b then n + 1 else n))"

lemma int_stage_cong:
  assumes "p_pend p' SIGINT = p_pend p SIGINT" and "p_int p' = p_int p"
    and "\<And>i. F_Int i \<in> set (p_stack p') \<longleftrightarrow> F_Int i \<in> set (p_stack p)"
  shows "int_stage b n p' = int_stage b n p"
  by (simp only: int_stage_def assms)

lemma int_stage_deliver:
  assumes "int_stage b n p" and "proc_ok p" and "deliver g p = Some p'"
  shows "int_stage b n p'"
  using assms(3,2)
proof (cases rule: deliver_cases)
  case (called f)
  show ?thesis
  proof (cases "g = SIGINT")
    case True
    with called have f: "f = F_Int HI_Inc" using entry_sig(2) [OF assms(2) called(2)] by (metis frame_sig_int)
    from called(1) True have "p_pend p SIGINT" "\<forall>q. F_Int q \<notin> set (p_stack p)"
      by (force simp: deliverable_def)+
    with assms(1) called True f show ?thesis by (auto simp: int_stage_def split: if_splits)
  next
    case False
    with called have "\<And>q. F_Int q \<noteq> f" by auto
    with called False assms(1) show ?thesis by (auto simp: int_stage_def split: if_splits)
  qed
qed (use assms(1) in \<open>auto simp: int_stage_def split: if_splits\<close>)

lemma int_stage_handler:
  assumes "int_stage b n p" and "proc_ok p" and "handler_step got p = Some (p', ls)"
  shows "int_stage b n p'"
  using assms(3)
proof (cases rule: handler_stepE)
  case (1 f fs f' q)
  with assms(2) have st: "stack_ok (f # fs) (p_int p) (p_mask p SIGINT)" by (simp add: proc_ok_def)
  note kept = run_frame_kept [OF 1(3)]
  show ?thesis
  proof (cases "\<exists>i. f = F_Int i")
    case True
    then obtain i where i: "f = F_Int i" by blast
    with st have "\<forall>j. F_Int j \<notin> set fs" by (simp add: stack_ok_int)
    with i 1 assms(1) show ?thesis by (cases i) (auto simp: int_stage_def split: if_splits)
  next
    case False
    then have f: "\<And>i. f \<noteq> F_Int i" by blast
    have "F_Int i \<in> set (p_stack p') \<longleftrightarrow> F_Int i \<in> set (p_stack p)" for i
    proof (cases f')
      case (Some g)
      with kept(6) f have "F_Int i \<noteq> g" by (metis frame_sig_int)
      with 1 Some f show ?thesis by auto
    qed (use 1 f in auto)
    with 1(4) kept(3) run_frame_other(1) [OF 1(3) f] have "int_stage b n p' = int_stage b n p" by (intro int_stage_cong) simp_all
    with assms(1) show ?thesis by simp
  qed
qed

lemma int_stage_posts: "SIGINT \<notin> set gs \<Longrightarrow> int_stage b n (fold post gs p) = int_stage b n p"
  by (rule int_stage_cong) (simp_all add: fold_post_pend_only)

lemma int_stage_env:
  assumes "int_stage b n (s_proc s)" and "proc_ok (s_proc s)" and "signal_act e a s = Some t" and "\<not> is_main a" and "\<not> sends_int a"
  shows "int_stage b n (s_proc t)"
  using assms(3,4)
proof (cases rule: env_process)
  case (posts gs)
  with assms(5) have "SIGINT \<notin> set gs" by blast
  with posts(1) assms(1) show ?thesis by (simp add: int_stage_posts)
next
  case (delivered g)
  with assms(1,2) show ?thesis by (blast intro: int_stage_deliver)
next
  case (handler got ls)
  with assms(1,2) show ?thesis by (blast intro: int_stage_handler)
qed

lemma main_int:
  assumes "main_at e ok pc s = Some t" and "pc \<noteq> SP_Reset"
  shows "p_int (s_proc t) = p_int (s_proc s)"
  using assms by (cases pc rule: signal_pc_cases; clarsimp simp: demo_defs split: if_splits option.splits)

section \<open>From blocking to unblocking\<close>

definition after_mask :: "signal_pc \<Rightarrow> bool" where
  "after_mask pc \<longleftrightarrow> unmasking pc \<or> past_mask pc"

lemma mask_order:
  assumes "main_at e ok (s_pc s) s = Some t"
  shows "masked (s_pc s) \<Longrightarrow> masked (s_pc t) \<or> after_mask (s_pc t)" and "after_mask (s_pc s) \<Longrightarrow> after_mask (s_pc t)"
    and "s_pc s = SP_Mask K_Unblock \<Longrightarrow> after_mask (s_pc t)"
proof -
  show "masked (s_pc s) \<Longrightarrow> masked (s_pc t) \<or> after_mask (s_pc t)"
    using assms by (cases "s_pc s" rule: masked.cases) (auto simp: at_pc_def after_mask_def split: if_splits)
  show "s_pc s = SP_Mask K_Unblock \<Longrightarrow> after_mask (s_pc t)"
    using assms by (auto simp: at_pc_def after_mask_def split: if_splits)
  show "after_mask (s_pc s) \<Longrightarrow> after_mask (s_pc t)"
    using assms by (cases "s_pc s" rule: unmasking.cases) (auto simp: at_pc_def after_mask_def split: if_splits)
qed

lemma after_mask_act: "signal_act e a s = Some t \<Longrightarrow> after_mask (s_pc s) \<Longrightarrow> after_mask (s_pc t)"
proof (cases "is_main a")
  case True
  assume *: "signal_act e a s = Some t" "after_mask (s_pc s)"
  from True obtain ok where "a = SA_Main ok" by (cases a) auto
  with * mask_order(2) show ?thesis by (auto simp: signal_main_def split: if_splits)
next
  case False
  assume "signal_act e a s = Some t" "after_mask (s_pc s)"
  with env_kept [OF _ False] show ?thesis by simp
qed

lemma after_mask_run: "run_sched (signal_act e) as s = Some t \<Longrightarrow> after_mask (s_pc s) \<Longrightarrow> after_mask (s_pc t)"
  by (induction as arbitrary: s) (auto split: option.splits intro: after_mask_act)

lemma masked_not_after: "masked pc \<Longrightarrow> \<not> after_mask pc"
  by (cases pc rule: masked.cases) (simp_all add: after_mask_def)

lemma running_before:
  assumes "signal_act e a s = Some t" and "p_status (s_proc t) = Running"
  shows "p_status (s_proc s) = Running"
proof (cases "is_main a")
  case True
  then obtain ok where "a = SA_Main ok" by (cases a) auto
  with assms(1) show ?thesis by (simp add: signal_main_def main_turn_def split: if_splits)
next
  case False
  with assms(1) show ?thesis
  proof (cases rule: env_process)
    case (delivered g)
    then show ?thesis by (simp add: deliver_def deliverable_def split: if_splits)
  next
    case (handler got ls)
    then show ?thesis using handler_kept(7) by blast
  qed (use assms(2) in simp)
qed

lemma running_before_run:
  "run_sched (signal_act e) as s = Some t \<Longrightarrow> p_status (s_proc t) = Running \<Longrightarrow> p_status (s_proc s) = Running"
  by (induction as arbitrary: s) (auto split: option.splits intro: running_before)

text \<open>While the signal is blocked the count stays, and the signal becomes pending with the first Ctrl+C or \<^verbatim>\<open>kill\<close>.\<close>

lemma masked_act:
  assumes "mask_inv s" and "masked (s_pc s)" and "signal_act e a s = Some t" and r: "p_status (s_proc t) = Running"
  shows "p_int (s_proc t) = p_int (s_proc s) \<and> (p_pend (s_proc t) SIGINT \<longleftrightarrow> p_pend (s_proc s) SIGINT \<or> sends_int a)"
proof (cases "is_main a")
  case True
  then obtain ok where "a = SA_Main ok" by (cases a) auto
  with assms(3) have "main_at e ok (s_pc s) s = Some t" by (simp add: signal_main_def split: if_splits)
  moreover have "s_pc s \<noteq> SP_Reset" using assms(2) by auto
  ultimately show ?thesis using main_int main_process \<open>a = SA_Main ok\<close> by simp
next
  case False
  have rs: "p_status (s_proc s) = Running" using running_before [OF assms(3) r] .
  note nf = masked_no_frame [OF assms(1,2) rs]
  have p: "proc_ok (s_proc s)" using assms(1) by (simp add: mask_inv_def procs_ok_def)
  from assms(3) False show ?thesis
  proof (cases rule: env_process)
    case (posts gs)
    show ?thesis
    proof (cases "sends_int a")
      case True
      with assms(3) rs show ?thesis by (cases a) (auto simp: ctrl_c_def send_parent_def post_def split: if_splits)
    next
      case False
      with posts have "SIGINT \<notin> set gs" by blast
      with posts(1) False show ?thesis by (simp add: fold_post_pend_only)
    qed
  next
    case (delivered g)
    have "\<not> past_mask (s_pc s)" using masked_not_after [OF assms(2)] by (simp add: after_mask_def)
    with assms(1,2) have "p_mask (s_proc s) SIGINT" by (simp add: mask_inv_def mask_at_def)
    with delivered(2) have "g \<noteq> SIGINT" by (auto simp: deliver_def deliverable_def split: if_splits)
    from delivered(2) p this delivered(1) show ?thesis by (cases rule: deliver_cases) auto
  next
    case (handler got ls)
    from handler(2) show ?thesis
    proof (cases rule: handler_stepE)
      case (1 f fs f' q)
      then have "\<And>i. f \<noteq> F_Int i" using nf by auto
      with 1 run_frame_other(1) [OF 1(3)] run_frame_kept(3) [OF 1(3)] handler(1) show ?thesis by simp
    qed
  qed
qed

lemma masked_run:
  assumes "run_sched (signal_act e) as s = Some t" and "mask_inv s" and "masked (s_pc s)" and "masked (s_pc t)"
    and "p_status (s_proc t) = Running"
  shows "p_int (s_proc t) = p_int (s_proc s) \<and> (p_pend (s_proc t) SIGINT \<longleftrightarrow> p_pend (s_proc s) SIGINT \<or> list_ex sends_int as)"
  using assms
proof (induction as arbitrary: s)
  case (Cons a as)
  then obtain u where u: "signal_act e a s = Some u" "run_sched (signal_act e) as u = Some t" by (auto split: option.splits)
  have ru: "p_status (s_proc u) = Running" using running_before_run [OF u(2) Cons.prems(5)] .
  have "masked (s_pc u) \<or> after_mask (s_pc u)"
  proof (cases "is_main a")
    case True
    then obtain ok where "a = SA_Main ok" by (cases a) auto
    with u(1) mask_order(1) Cons.prems(3) show ?thesis by (auto simp: signal_main_def split: if_splits)
  next
    case False
    with env_kept [OF u(1) False] Cons.prems(3) show ?thesis by simp
  qed
  with after_mask_run [OF u(2)] masked_not_after [OF Cons.prems(4)] have mu: "masked (s_pc u)" by blast
  have "mask_inv u" using mask_inv_act [OF Cons.prems(2) u(1)] .
  from Cons.IH [OF u(2) this mu Cons.prems(4,5)] masked_act [OF Cons.prems(2,3) u(1) ru] show ?case by auto
qed simp

text \<open>Unblocking, with no further \<^verbatim>\<open>SIGINT\<close>.\<close>

definition unblock_inv :: "bool \<Rightarrow> int \<Rightarrow> signal_state \<Rightarrow> bool" where
  "unblock_inv b n s \<longleftrightarrow> mask_inv s \<and> (s_pc s = SP_Mask K_Unblock \<or> after_mask (s_pc s)) \<and> int_stage b n (s_proc s) \<and>
     (s_pc s = SP_Mask K_Done \<longrightarrow> \<not> p_pend (s_proc s) SIGINT \<and> F_Int HI_Inc \<notin> set (p_stack (s_proc s)))"

lemma reach_K_Done:
  assumes "main_at e ok (s_pc s) s = Some t" and "s_pc t = SP_Mask K_Done"
  shows "s_pc s = SP_Mask K_Unblocked \<and> settled (s_proc s) \<and> s_proc t = s_proc s"
proof (cases "s_pc s")
  case (SP_Mask q)
  with assms show ?thesis by (cases q) (auto simp: at_pc_def split: if_splits)
qed (use assms in \<open>auto simp: at_pc_def split: if_splits\<close>)

lemma unblock_main:
  assumes "unblock_inv b n s" and "signal_main e ok s = Some t"
  shows "unblock_inv b n t"
proof -
  from assms(2) have m: "main_turn (s_proc s)" and t: "main_at e ok (s_pc s) s = Some t"
    by (simp_all add: signal_main_def split: if_splits)
  from assms(1) have I: "mask_inv s" "s_pc s = SP_Mask K_Unblock \<or> after_mask (s_pc s)" "int_stage b n (s_proc s)"
    by (simp_all add: unblock_inv_def)
  have "mask_inv t" using mask_inv_act [OF I(1), of e "SA_Main ok"] assms(2) by simp
  moreover have "after_mask (s_pc t)" using mask_order(2,3) [OF t] I(2) by blast
  moreover have "s_pc s \<noteq> SP_Reset" using I(2) by (auto simp: after_mask_def)
  then have "int_stage b n (s_proc t) = int_stage b n (s_proc s)"
    using main_int [OF t] main_process [OF t] by (intro int_stage_cong) simp_all
  with I(3) have "int_stage b n (s_proc t)" by simp
  moreover have "\<not> p_pend (s_proc t) SIGINT \<and> F_Int HI_Inc \<notin> set (p_stack (s_proc t))" if "s_pc t = SP_Mask K_Done"
  proof -
    from reach_K_Done [OF t that] have k: "s_pc s = SP_Mask K_Unblocked" "settled (s_proc s)" "s_proc t = s_proc s" by simp_all
    then have "\<not> p_mask (s_proc s) SIGINT" using I(1) by (simp add: mask_inv_def mask_at_def)
    with k m show ?thesis by (simp add: settled_def deliverable_def main_turn_def)
  qed
  ultimately show ?thesis by (simp add: unblock_inv_def)
qed

lemma unblock_act:
  assumes "unblock_inv b n s" and "signal_act e a s = Some t" and "\<not> sends_int a"
  shows "unblock_inv b n t"
proof (cases "is_main a")
  case True
  then obtain ok where "a = SA_Main ok" by (cases a) auto
  with assms unblock_main show ?thesis by simp
next
  case False
  from assms(1) have p: "proc_ok (s_proc s)" and I: "mask_inv s" "int_stage b n (s_proc s)"
    by (simp_all add: unblock_inv_def mask_inv_def procs_ok_def)
  have pc: "s_pc t = s_pc s" using env_kept [OF assms(2) False] by blast
  have "int_stage False (p_int (s_proc s)) (s_proc t)" if "s_pc s = SP_Mask K_Done"
    using that assms int_stage_env [OF _ p assms(2) False assms(3), of False "p_int (s_proc s)"]
    by (simp add: unblock_inv_def int_stage_def)
  with assms(1) pc int_stage_env [OF I(2) p assms(2) False assms(3)] mask_inv_act [OF I(1) assms(2)] show ?thesis
    by (auto simp: unblock_inv_def int_stage_def [of False])
qed

lemma unblock_run:
  "run_sched (signal_act e) as s = Some t \<Longrightarrow> \<not> list_ex sends_int as \<Longrightarrow> unblock_inv b n s \<Longrightarrow> unblock_inv b n t"
proof (induction as arbitrary: s)
  case (Cons a as)
  then obtain u where u: "signal_act e a s = Some u" "run_sched (signal_act e) as u = Some t" by (auto split: option.splits)
  with Cons.IH [OF u(2)] Cons.prems(2) unblock_act [OF Cons.prems(3) u(1)] show ?case by auto
qed simp

section \<open>The result\<close>

text \<open>
  C7. Take any run of the masking demo from the point where \<^verbatim>\<open>SIGINT\<close> has just been blocked to the point where it is about to be
  unblocked, and any continuation without a further \<^verbatim>\<open>SIGINT\<close> to the point where the second \<^verbatim>\<open>sigprocmask\<close> has returned.
  However often Ctrl+C was pressed, or another process sent the signal, while it was blocked, the handler has counted it exactly once: blocked signals are
  not queued.
\<close>

theorem masking_coalesces:
  assumes "(signal_step e)\<^sup>*\<^sup>* signal_start s" and "s_pc s = SP_Mask (K_Test 5)"
    and "run_sched (signal_act e) as s = Some u" and "s_pc u = SP_Mask K_Unblock"
    and "run_sched (signal_act e) bs u = Some t" and "s_pc t = SP_Mask K_Done" and "\<not> list_ex sends_int bs"
    and "p_status (s_proc t) = Running"
  shows "p_int (s_proc t) = p_int (s_proc s) + (if p_pend (s_proc s) SIGINT \<or> list_ex sends_int as then 1 else 0)"
proof -
  have ru: "p_status (s_proc u) = Running" using running_before_run [OF assms(5,8)] .
  have ms: "mask_inv s" using mask_sys.reach_inv [OF assms(1)] .
  from masked_run [OF assms(3) ms] assms(2,4) ru have c: "p_int (s_proc u) = p_int (s_proc s)"
    "p_pend (s_proc u) SIGINT \<longleftrightarrow> p_pend (s_proc s) SIGINT \<or> list_ex sends_int as" by simp_all
  have mu: "mask_inv u" using mask_sys.inv_reach [OF run_sched_reach [OF assms(3)] ms] .
  have nf: "F_Int q \<notin> set (p_stack (s_proc u))" for q using masked_no_frame [OF mu _ ru] assms(4) by simp
  have "unblock_inv (p_pend (s_proc u) SIGINT) (p_int (s_proc u)) u"
    using mu assms(4) nf by (simp add: unblock_inv_def int_stage_def)
  from unblock_run [OF assms(5,7) this] assms(6) c show ?thesis by (simp add: unblock_inv_def int_stage_def)
qed

definition to_masked :: "signal_actor list" where
  "to_masked = quiet_basic @ between_sched @ replicate 5 (SA_Main True)"

definition while_masked :: "signal_actor list" where
  "while_masked = [SA_Ctrl_C, SA_Tick, SA_Ctrl_C] @ concat (replicate 5 [SA_Main True, SA_Main True, SA_Main True, SA_Tick, SA_Main True])
     @ replicate 5 (SA_Main True)"

definition unmask :: "signal_actor list" where
  "unmask = [SA_Main True, SA_Deliver SIGINT, SA_Handler, SA_Handler, SA_Handler, SA_Main True]"

definition at_once :: "signal_pc \<Rightarrow> signal_state option \<Rightarrow> bool" where
  "at_once pc r \<longleftrightarrow> (case r of None \<Rightarrow> False | Some s \<Rightarrow> s_pc s = pc \<and> p_status (s_proc s) = Running)"

lemma masking_run:
  "at_once (SP_Mask (K_Test 5)) (run_sched (signal_act unit_env) to_masked signal_start)"
  "at_once (SP_Mask K_Unblock) (run_sched (signal_act unit_env) (to_masked @ while_masked) signal_start)"
  "at_once (SP_Mask K_Done) (run_sched (signal_act unit_env) (to_masked @ while_masked @ unmask) signal_start)"
  by code_simp+

theorem masking_coalesces_witness:
  "\<exists>s t. (signal_step unit_env)\<^sup>*\<^sup>* signal_start s \<and> run_sched (signal_act unit_env) (while_masked @ unmask) s = Some t \<and>
     p_int (s_proc t) = p_int (s_proc s) + 1"
proof -
  from masking_run obtain s u t where s: "run_sched (signal_act unit_env) to_masked signal_start = Some s" "s_pc s = SP_Mask (K_Test 5)"
    and u: "run_sched (signal_act unit_env) while_masked s = Some u" "s_pc u = SP_Mask K_Unblock"
    and t: "run_sched (signal_act unit_env) unmask u = Some t" "s_pc t = SP_Mask K_Done" "p_status (s_proc t) = Running"
    by (auto simp: at_once_def run_sched_append split: option.splits)
  have "\<not> list_ex sends_int unmask" "list_ex sends_int while_masked" by (simp_all add: unmask_def while_masked_def)
  with masking_coalesces [OF run_sched_reach [OF s(1)] s(2) u t(1,2) _ t(3)] have "p_int (s_proc t) = p_int (s_proc s) + 1" by simp
  with run_sched_reach [OF s(1)] u(1) t(1) show ?thesis by (auto simp: run_sched_append)
qed

end
