(* ===== verification/Signal_Children.thy ===== *)
theory Signal_Children
  imports Signal_Masking
begin

text \<open>
  \<^verbatim>\<open>demonstrate_sigchld\<close>: the handler of \<^verbatim>\<open>SIGCHLD\<close> reaps the child. A signal that arrives while the handler runs becomes
  pending and calls it again, so no child is left behind.
\<close>

text \<open>The children that \<^verbatim>\<open>demonstrate_sigchld\<close> creates.\<close>

definition chld_child :: "child \<Rightarrow> bool" where
  "chld_child k \<longleftrightarrow> k_at k \<in> {KC_Pid, KC_Sleep, KC_Sleeping, KC_Exiting, KC_Exit}"

text \<open>The handler will run, or is running.\<close>

definition chld_due :: "process \<Rightarrow> bool" where
  "chld_due p \<longleftrightarrow> p_pend p SIGCHLD \<or> SIGCHLD \<in> set (map frame_sig (p_stack p))"

definition watched :: "child list \<Rightarrow> bool" where
  "watched ks \<longleftrightarrow> (\<exists>k \<in> set ks. chld_child k)"

definition left_over :: "child list \<Rightarrow> bool" where
  "left_over ks \<longleftrightarrow> (\<exists>k \<in> set ks. chld_child k \<and> zombie k)"

definition chld_inv :: "signal_state \<Rightarrow> bool" where
  "chld_inv s \<longleftrightarrow> procs_ok s \<and>
     (watched (s_kids s) \<or> s_pc s \<in> {SP_Chld C_Creating, SP_Chld C_Fork} \<longrightarrow> p_disp (s_proc s) SIGCHLD \<noteq> SIG_DFL) \<and>
     (p_status (s_proc s) = Running \<longrightarrow> left_over (s_kids s) \<longrightarrow> chld_due (s_proc s))"

section \<open>Reaping\<close>

lemma reap_one_None: "reap_one ks = None \<longleftrightarrow> (\<forall>k \<in> set ks. \<not> zombie k)"
  by (induction ks) auto

lemma reap_one_zombies: "reap_one ks = Some ks' \<Longrightarrow> k \<in> set ks' \<Longrightarrow> zombie k \<Longrightarrow> k \<in> set ks"
  by (induction ks arbitrary: ks') (auto simp: zombie_def split: if_splits)

lemma reap_left_over: "reap_one ks = Some ks' \<Longrightarrow> left_over ks' \<Longrightarrow> left_over ks"
  unfolding left_over_def using reap_one_zombies by blast

lemma watched_at: "map k_at ks' = map k_at ks \<Longrightarrow> watched ks' = watched ks"
proof -
  assume *: "map k_at ks' = map k_at ks"
  have "watched ks = (\<exists>q \<in> set (map k_at ks). q \<in> {KC_Pid, KC_Sleep, KC_Sleeping, KC_Exiting, KC_Exit})" for ks
    by (auto simp: watched_def chld_child_def)
  with * show ?thesis by metis
qed

section \<open>The parent\<close>

lemma due_posts: "chld_due p \<Longrightarrow> chld_due (fold post gs p)"
  by (auto simp: chld_due_def fold_post_pend)

lemma due_deliver:
  assumes "proc_ok p" and "deliver g p = Some p'" and "chld_due p"
  shows "chld_due p'"
  using assms(2,1) by (cases rule: deliver_cases) (use assms(3) in \<open>auto simp: chld_due_def\<close>)

text \<open>The handler ends only when \<^verbatim>\<open>waitpid\<close> has found nothing.\<close>

lemma due_handler:
  assumes "handler_step got p = Some (p', ls)" and "chld_due p"
  shows "chld_due p' \<or> (hd (p_stack p) = F_Chld HC_Wait \<and> p_stack p \<noteq> [] \<and> \<not> got)"
  using assms(1)
proof (cases rule: handler_stepE)
  case (1 f fs f' q)
  note kept = run_frame_kept [OF 1(3)]
  show ?thesis
  proof (cases "frame_sig f = SIGCHLD")
    case True
    with 1 show ?thesis by (cases f rule: frame_cases) (auto simp: chld_due_def split: if_splits)
  next
    case False
    with assms(2) 1 have "p_pend p SIGCHLD \<or> SIGCHLD \<in> set (map frame_sig fs)" by (auto simp: chld_due_def)
    with 1 kept(3) show ?thesis by (cases f') (auto simp: chld_due_def)
  qed
qed

section \<open>The children\<close>

lemma watched_map: "watched ks \<longleftrightarrow> True \<in> set (map chld_child ks)"
  by (auto simp: watched_def)

lemma watched_update:
  assumes "chld_child k' = chld_child (ks ! i)" and "i < length ks"
  shows "watched (ks[i := k']) = watched ks"
proof -
  have "map chld_child (ks[i := k']) = map chld_child ks" using assms by (simp add: map_update list_update_same_conv)
  then show ?thesis by (simp only: watched_map)
qed

lemma child_at_kind: "child_at e pid ppid c (k_at k) k = Some (k', ls, b) \<Longrightarrow> chld_child k' = chld_child k"
  by (cases "k_at k") (auto simp: chld_child_def child_at_def k_go_def k_sleep_def k_exit_def split: if_splits)

lemma left_over_update:
  assumes "left_over (ks[i := k'])"
  shows "left_over ks \<or> chld_child k' \<and> zombie k'"
  using assms set_update_subset_insert [of ks i k'] by (auto simp: left_over_def)

text \<open>A child that has just ended: the parent has been sent \<^verbatim>\<open>SIGCHLD\<close>.\<close>

lemma put_child_due:
  assumes "i < length (s_kids s)" and "p_status (k_proc (s_kids s ! i)) = Running" and "zombie k"
    and "p_status (s_proc s) = Running" and "p_disp (s_proc s) SIGCHLD \<noteq> SIG_DFL"
  shows "chld_due (s_proc (put_child i k s))"
  using assms by (auto simp: put_child_def zombie_def chld_due_def post_def)

lemma put_child_due_mono: "chld_due (s_proc s) \<Longrightarrow> chld_due (s_proc (put_child i k s))"
  using put_child_process due_posts by metis

text \<open>Every step of a child amounts to replacing it by \<open>put_child\<close>.\<close>

lemma child_step:
  assumes "chld_inv s" and "i < length (s_kids s)" and "p_status (k_proc (s_kids s ! i)) = Running"
    and "chld_child k = chld_child (s_kids s ! i)" and "t = put_child i k s"
  shows "(watched (s_kids t) \<longrightarrow> p_disp (s_proc t) SIGCHLD \<noteq> SIG_DFL) \<and>
    (p_status (s_proc t) = Running \<longrightarrow> left_over (s_kids t) \<longrightarrow> chld_due (s_proc t))"
proof -
  have w: "watched (s_kids t) = watched (s_kids s)" using assms(2,4,5) by (simp add: put_child_kids watched_update)
  obtain gs where p: "s_proc t = fold post gs (s_proc s)" using put_child_process assms(5) by blast
  from assms(1) have d: "watched (s_kids s) \<longrightarrow> p_disp (s_proc s) SIGCHLD \<noteq> SIG_DFL"
    and l: "p_status (s_proc s) = Running \<longrightarrow> left_over (s_kids s) \<longrightarrow> chld_due (s_proc s)" by (simp_all add: chld_inv_def)
  have "chld_due (s_proc t)" if r: "p_status (s_proc t) = Running" and z: "left_over (s_kids t)"
  proof -
    from r p have rs: "p_status (s_proc s) = Running" by simp
    from z assms(5) left_over_update have "left_over (s_kids s) \<or> chld_child k \<and> zombie k" by (simp add: put_child_kids)
    then show ?thesis
    proof
      assume "left_over (s_kids s)"
      with l rs put_child_due_mono assms(5) show ?thesis by simp
    next
      assume k: "chld_child k \<and> zombie k"
      with assms(2,4) have "watched (s_kids s)" by (auto simp: watched_def)
      with d put_child_due [OF assms(2,3) _ rs] k assms(5) show ?thesis by simp
    qed
  qed
  with w p d show ?thesis by simp
qed

lemma chld_env:
  assumes "chld_inv s" and "signal_act e a s = Some t" and "\<not> is_main a"
  shows "(watched (s_kids t) \<longrightarrow> p_disp (s_proc t) SIGCHLD \<noteq> SIG_DFL) \<and>
    (p_status (s_proc t) = Running \<longrightarrow> left_over (s_kids t) \<longrightarrow> chld_due (s_proc t))"
proof -
  from assms(1) have p: "proc_ok (s_proc s)" and d: "watched (s_kids s) \<longrightarrow> p_disp (s_proc s) SIGCHLD \<noteq> SIG_DFL"
    and l: "p_status (s_proc s) = Running \<longrightarrow> left_over (s_kids s) \<longrightarrow> chld_due (s_proc s)"
    by (simp_all add: chld_inv_def procs_ok_def)
  show ?thesis
  proof (cases a)
    case SA_Handler
    define got where "got = (if p_stack (s_proc s) \<noteq> [] \<and> hd (p_stack (s_proc s)) = F_Chld HC_Wait then reap_one (s_kids s) else None)"
    from SA_Handler assms(2) obtain ls where h: "handler_step (got \<noteq> None) (s_proc s) = Some (s_proc t, ls)"
      and k: "s_kids t = (case got of None \<Rightarrow> s_kids s | Some ks \<Rightarrow> ks)"
      by (auto simp: parent_handler_def Let_def got_def)
    have g: "reap_one (s_kids s) = Some ks" if "got = Some ks" for ks using that by (simp add: got_def split: if_splits)
    have w: "watched (s_kids t) = watched (s_kids s)" using k g watched_at [OF reap_one_at] by (auto split: option.splits)
    have lo: "left_over (s_kids t) \<Longrightarrow> left_over (s_kids s)" using k g reap_left_over by (auto split: option.splits)
    have "chld_due (s_proc t)" if "left_over (s_kids t)"
    proof (rule ccontr)
      assume n: "\<not> chld_due (s_proc t)"
      have "chld_due (s_proc s)" using l lo that handler_kept(7) [OF h] by blast
      from due_handler [OF h this] n have "got = None" "p_stack (s_proc s) \<noteq> []" "hd (p_stack (s_proc s)) = F_Chld HC_Wait" by simp_all
      then have "reap_one (s_kids s) = None" by (simp add: got_def)
      with lo [OF that] show False by (auto simp: reap_one_None left_over_def)
    qed
    with w d handler_kept(1) [OF h] show ?thesis by simp
  next
    case (SA_Deliver g)
    with assms(2) obtain p' where p': "deliver g (s_proc s) = Some p'" "t = s\<lparr>s_proc := p'\<rparr>" by (auto simp: parent_deliver_def)
    have "p_disp p' = p_disp (s_proc s)" "p_status (s_proc s) = Running"
      using p'(1) p by (auto elim!: deliver_cases simp: deliverable_def)
    with p' d l due_deliver [OF p p'(1)] show ?thesis by simp
  next
    case (SA_Child i)
    with assms(2) have "child_main e i s = Some t" by simp
    then show ?thesis
    proof (cases rule: child_mainE)
      case (1 k ls b)
      from child_step [OF assms(1) 1(1) _ child_at_kind [OF 1(3)] refl] 1(2,4) show ?thesis
        by (auto simp: main_turn_def chld_due_def post_def split: if_splits)
    qed
  next
    case (SA_Child_Handler i)
    with assms(2) obtain p' ls where h: "i < length (s_kids s)" "handler_step False (k_proc (s_kids s ! i)) = Some (p', ls)"
      and t: "s_kids t = s_kids (put_child i ((s_kids s ! i)\<lparr>k_proc := p'\<rparr>) s)" "s_proc t = s_proc (put_child i ((s_kids s ! i)\<lparr>k_proc := p'\<rparr>) s)"
      by (auto simp: child_handler_def Let_def split: if_splits)
    from child_step [OF assms(1) h(1) handler_kept(7) [OF h(2)] _ refl, of "(s_kids s ! i)\<lparr>k_proc := p'\<rparr>"] t show ?thesis
      by (simp add: chld_child_def)
  next
    case (SA_Child_Deliver i g)
    with assms(2) obtain p' where h: "i < length (s_kids s)" "deliver g (k_proc (s_kids s ! i)) = Some p'"
      and t: "t = put_child i ((s_kids s ! i)\<lparr>k_proc := p'\<rparr>) s"
      by (auto simp: child_deliver_def split: if_splits)
    from h(2) have "p_status (k_proc (s_kids s ! i)) = Running" by (simp add: deliver_def deliverable_def split: if_splits)
    from child_step [OF assms(1) h(1) this _ t] show ?thesis by (simp add: chld_child_def)
  next
    case SA_Ctrl_C
    with assms(2) have t: "t = ctrl_c s" by simp
    have "map k_at (s_kids t) = map k_at (s_kids s)" by (simp add: t ctrl_c_def)
    moreover have "left_over (s_kids t) = left_over (s_kids s)"
      by (simp add: t ctrl_c_def left_over_def chld_child_def zombie_def)
    moreover have "p_status (s_proc t) = p_status (s_proc s)" "p_disp (s_proc t) = p_disp (s_proc s)"
      "s_proc t = fold post [SIGINT] (s_proc s)" by (simp_all add: t ctrl_c_def)
    ultimately show ?thesis using d l watched_at [of "s_kids t" "s_kids s"] due_posts by metis
  next
    case SA_Tick
    with assms(2) d l show ?thesis by (auto simp: tick_def split: option.splits if_splits)
  next
    case SA_Alarm
    with assms(2) d l show ?thesis by (auto simp: alarm_goes_off_def chld_due_def post_def split: option.splits if_splits)
  next
    case (SA_Send g)
    with assms(2) have "s_kids t = s_kids s" "s_proc t = fold post [g] (s_proc s)" by (auto simp: send_parent_def split: if_splits)
    with d l due_posts [of "s_proc s" "[g]"] show ?thesis by simp
  next
    case (SA_Send_Child i g)
    define k where "k = (s_kids s ! i)\<lparr>k_proc := post g (k_proc (s_kids s ! i))\<rparr>"
    from SA_Send_Child assms(2) have i: "i < length (s_kids s)" and t: "s_kids t = (s_kids s)[i := k]" "s_proc t = s_proc s"
      by (auto simp: send_child_def k_def split: if_splits)
    have "chld_child k = chld_child (s_kids s ! i)" "zombie k = zombie (s_kids s ! i)" by (simp_all add: k_def chld_child_def zombie_def)
    with i t d l left_over_update [of "s_kids s" i k] show ?thesis
      using watched_update [of k "s_kids s" i] by (auto simp: left_over_def)
  qed (use assms(3) in simp)
qed

section \<open>The main program\<close>

lemma main_disp:
  assumes "main_at e ok pc s = Some t" and "p_disp (s_proc s) g \<noteq> SIG_DFL"
  shows "p_disp (s_proc t) g \<noteq> SIG_DFL"
  using assms by (cases pc rule: signal_pc_cases; clarsimp simp: demo_defs split: if_splits option.splits)

lemma main_installs:
  assumes "main_at e ok (s_pc s) s = Some t" and "s_pc t \<in> {SP_Chld C_Creating, SP_Chld C_Fork}"
  shows "s_pc s = SP_Chld C_Creating \<or> p_disp (s_proc t) SIGCHLD \<noteq> SIG_DFL"
proof (cases "s_pc s")
  case (SP_Chld q)
  with assms show ?thesis by (cases q) (auto simp: at_pc_def install_def split: if_splits)
qed (use assms in \<open>auto simp: at_pc_def split: if_splits\<close>)

lemma left_over_append: "p_status (k_proc k) = Running \<Longrightarrow> left_over (ks @ [k]) = left_over ks"
  by (auto simp: left_over_def zombie_def)

lemma chld_main:
  assumes "chld_inv s" and "signal_main e ok s = Some t"
  shows "chld_inv t"
proof -
  from assms(2) have m: "main_turn (s_proc s)" and t: "main_at e ok (s_pc s) s = Some t"
    by (simp_all add: signal_main_def split: if_splits)
  from m have r: "p_status (s_proc s) = Running" by (simp add: main_turn_def)
  from assms(1) have d: "watched (s_kids s) \<or> s_pc s \<in> {SP_Chld C_Creating, SP_Chld C_Fork} \<longrightarrow> p_disp (s_proc s) SIGCHLD \<noteq> SIG_DFL"
    and l: "left_over (s_kids s) \<longrightarrow> chld_due (s_proc s)" using r by (simp_all add: chld_inv_def)
  have due: "chld_due (s_proc t) = chld_due (s_proc s)" using main_process [OF t] by (simp add: chld_due_def)
  have kids: "(left_over (s_kids t) \<longrightarrow> left_over (s_kids s)) \<and> (watched (s_kids t) \<longrightarrow> watched (s_kids s) \<or> s_pc s = SP_Chld C_Fork)"
    using main_kids [OF t] r
    by (auto simp: left_over_append watched_def chld_child_def reap_left_over dest: watched_at [OF reap_one_at, unfolded watched_def chld_child_def])
  have "p_disp (s_proc t) SIGCHLD \<noteq> SIG_DFL" if "watched (s_kids t) \<or> s_pc t \<in> {SP_Chld C_Creating, SP_Chld C_Fork}"
    using that kids d main_disp [OF t, of SIGCHLD] main_installs [OF t] by auto
  moreover have "procs_ok t" using assms by (auto simp: chld_inv_def intro: procs_ok_main)
  ultimately show ?thesis using kids l due by (simp add: chld_inv_def)
qed

interpretation chld_sys: invariant_system "signal_step e" signal_start chld_inv for e
proof
  show "chld_inv signal_start"
    using procs_sys.init_inv by (simp add: chld_inv_def) (simp add: signal_start_def watched_def left_over_def)
next
  fix s t
  assume I: "chld_inv s" and "signal_step e s t"
  then obtain a where a: "signal_act e a s = Some t" by (auto elim: step_ofE)
  show "chld_inv t"
  proof (cases "is_main a")
    case True
    then obtain ok where "a = SA_Main ok" by (cases a) auto
    with I a chld_main show ?thesis by simp
  next
    case False
    have "procs_ok t" using I a by (auto simp: chld_inv_def intro: procs_ok_act)
    moreover have "p_disp (s_proc t) = p_disp (s_proc s)" "s_pc t = s_pc s"
      using env_disp_mask [OF a False] env_kept [OF a False] I by (simp_all add: chld_inv_def procs_ok_def)
    ultimately show ?thesis using chld_env [OF I a False] I by (simp add: chld_inv_def)
  qed
qed

section \<open>The result\<close>

text \<open>
  C21. In every run: when no \<^verbatim>\<open>SIGCHLD\<close> is pending for the parent and its handler is not running, no child of \<^verbatim>\<open>demonstrate_sigchld\<close> is
  a zombie, whenever it ended and however it was interleaved with the handler.
\<close>

theorem sigchld_no_zombie:
  assumes "(signal_step e)\<^sup>*\<^sup>* signal_start s" and "p_status (s_proc s) = Running"
    and "\<not> p_pend (s_proc s) SIGCHLD" and "\<forall>q. F_Chld q \<notin> set (p_stack (s_proc s))"
    and "k \<in> set (s_kids s)" and "chld_child k"
  shows "p_status (k_proc k) = Running \<or> k_reaped k"
proof -
  have "frame_sig f = SIGCHLD \<longleftrightarrow> (\<exists>q. f = F_Chld q)" for f by (cases f) auto
  with assms(3,4) have "\<not> chld_due (s_proc s)" by (metis chld_due_def imageE list.set_map)
  with chld_sys.reach_inv [OF assms(1)] assms(2) have "\<not> left_over (s_kids s)" by (auto simp: chld_inv_def)
  with assms(5,6) show ?thesis by (auto simp: left_over_def zombie_def)
qed

definition to_chld :: "signal_actor list" where
  "to_chld = to_masked @ while_masked @ unmask @ [SA_Main True, SA_Main True, SA_Tick, SA_Main True] @ replicate 5 (SA_Main True)"

definition child_ends :: "signal_actor list" where
  "child_ends = [SA_Child 1, SA_Child 1, SA_Tick, SA_Tick, SA_Child 1, SA_Child 1, SA_Child 1, SA_Deliver SIGCHLD, SA_Handler, SA_Handler,
     SA_Handler]"

definition ended_quietly :: "signal_state \<Rightarrow> bool" where
  "ended_quietly s \<longleftrightarrow> p_status (s_proc s) = Running \<and> \<not> p_pend (s_proc s) SIGCHLD \<and> p_stack (s_proc s) = [] \<and>
     (case s_kids s of [k, k'] \<Rightarrow> k_at k' = KC_Exit \<and> p_status (k_proc k') = Exited 42 | _ \<Rightarrow> False)"

lemma chld_run: "\<exists>s. (signal_step unit_env)\<^sup>*\<^sup>* signal_start s \<and> ended_quietly s"
  by (rule run_sched_witness [where as = "to_chld @ child_ends"]) code_simp

theorem sigchld_no_zombie_witness:
  "\<exists>s k. (signal_step unit_env)\<^sup>*\<^sup>* signal_start s \<and> k \<in> set (s_kids s) \<and> p_status (k_proc k) = Exited 42 \<and> k_reaped k"
proof -
  from chld_run obtain s where s: "(signal_step unit_env)\<^sup>*\<^sup>* signal_start s" and q: "ended_quietly s" by blast
  then obtain k k' where k: "s_kids s = [k, k']" "k_at k' = KC_Exit" "p_status (k_proc k') = Exited 42"
    by (auto simp: ended_quietly_def split: list.splits)
  with q sigchld_no_zombie [OF s, of k'] have "k_reaped k'" by (auto simp: ended_quietly_def chld_child_def)
  with s k show ?thesis by (intro exI [of _ s] exI [of _ k']) simp
qed

end
