(* ===== verification/Signal_Alarm.thy ===== *)
theory Signal_Alarm
  imports Signal_Children
begin

text \<open>
  \<^verbatim>\<open>demonstrate_alarm\<close>: the alarm, the clock and the five calls of \<^verbatim>\<open>sleep\<close>. The alarm goes off once; its handler has run before
  the demo ends unless two of the five sleeps were cut short.
\<close>

definition alarm_count :: "(nat \<times> signal_line) list \<Rightarrow> nat" where
  "alarm_count log = length (filter (\<lambda>l. l = (0, SL_Handler SH_Alrm)) log)"

text \<open>Where the alarm is: set, sent, being handled, or handled.\<close>

definition alarm_sum :: "signal_state \<Rightarrow> nat" where
  "alarm_sum s = (if s_alarm s = None then 0 else 1) + (if p_pend (s_proc s) SIGALRM then 1 else 0) +
     length (filter (\<lambda>f. f = F_Alrm) (p_stack (s_proc s))) + alarm_count (s_log s)"

section \<open>Steps from outside\<close>

lemma env_time:
  assumes "signal_act e a s = Some t" and "\<not> is_main a"
  shows "s_clock s \<le> s_clock t \<and> (s_alarm t = s_alarm s \<or> s_alarm t = None \<and> a = SA_Alarm) \<and>
    (\<forall>d. s_alarm t = Some d \<longrightarrow> s_clock s \<le> d \<longrightarrow> s_clock t \<le> d)"
proof (cases a)
  case (SA_Child i)
  with assms have "child_main e i s = Some t" by simp
  then show ?thesis by (cases rule: child_mainE) simp
qed (use assms in \<open>auto simp: parent_handler_def parent_deliver_def child_handler_def child_deliver_def ctrl_c_def tick_def alarm_goes_off_def Let_def
  send_parent_def send_child_def   split: if_splits option.splits\<close>)

lemma env_wake:
  assumes "signal_act e a s = Some t" and "\<not> is_main a" and "proc_ok (s_proc s)"
  shows "p_wake (s_proc t) = p_wake (s_proc s)"
  using assms(1,2)
proof (cases rule: env_process)
  case (delivered g)
  from delivered(2) assms(3) show ?thesis by (cases rule: deliver_cases) auto
qed (auto dest: handler_kept(4))

lemma env_log_child:
  assumes "signal_act e a s = Some t" and "\<not> is_main a" and "a \<noteq> SA_Handler"
  shows "\<exists>ls. s_log t = s_log s @ ls \<and> (\<forall>l \<in> set ls. fst l \<noteq> 0)"
proof (cases a)
  case (SA_Child i)
  with assms have "child_main e i s = Some t" by simp
  then show ?thesis by (cases rule: child_mainE) auto
next
  case (SA_Child_Handler i)
  with assms show ?thesis by (auto simp: child_handler_def Let_def handler_log_def split: if_splits)
qed (use assms in \<open>auto simp: parent_deliver_def child_deliver_def send_parent_def send_child_def ctrl_c_def tick_def alarm_goes_off_def split: if_splits option.splits\<close>)

lemma alarm_count_child: "\<forall>l \<in> set ls. fst l \<noteq> 0 \<Longrightarrow> alarm_count (log @ ls) = alarm_count log"
  by (auto simp: alarm_count_def filter_empty_conv)

lemma handler_alarm:
  assumes "handler_step got p = Some (p', ls)"
  shows "length (filter (\<lambda>f. f = F_Alrm) (p_stack p')) + alarm_count (log @ handler_log 0 ls) =
    length (filter (\<lambda>f. f = F_Alrm) (p_stack p)) + alarm_count log"
  using assms
proof (cases rule: handler_stepE)
  case (1 f fs f' q)
  then show ?thesis
    by (cases f rule: frame_cases; clarsimp simp: alarm_count_def handler_log_def sigalrm_handler_def split: if_splits)
qed

lemma not_sent: "signal_act e a s = Some t \<Longrightarrow> \<not> e_outside e g \<Longrightarrow> a \<noteq> SA_Send g"
  by (auto simp: send_parent_def)

lemma alarm_sum_env:
  assumes "proc_ok (s_proc s)" and "signal_act e a s = Some t" and "\<not> is_main a" and "p_status (s_proc t) = Running"
    and "alarm_sum s \<le> 1" and "\<not> e_outside e SIGALRM"
  shows "alarm_sum t = alarm_sum s"
proof (cases "a = SA_Handler")
  case True
  with assms(2) obtain got ls where h: "handler_step got (s_proc s) = Some (s_proc t, ls)"
    and t: "s_log t = s_log s @ handler_log 0 ls" "s_alarm t = s_alarm s"
    by (auto simp: parent_handler_def Let_def)
  from handler_alarm [OF h, of "s_log s"] handler_kept(3) [OF h] t show ?thesis by (simp add: alarm_sum_def)
next
  case False
  from env_log_child [OF assms(2,3) False] have l: "alarm_count (s_log t) = alarm_count (s_log s)"
    using alarm_count_child by auto
  from assms(2,3) show ?thesis
  proof (cases rule: env_process)
    case (posts gs)
    show ?thesis
    proof (cases "a = SA_Alarm")
      case True
      with assms(2,4) have "s_alarm s \<noteq> None" "s_alarm t = None" "p_pend (s_proc t) SIGALRM" "p_stack (s_proc t) = p_stack (s_proc s)"
        by (auto simp: alarm_goes_off_def post_def split: option.splits if_splits)
      with assms(5) l show ?thesis by (simp add: alarm_sum_def split: if_splits)
    next
      case False
      with posts not_sent [OF assms(2,6)] have "SIGALRM \<notin> set gs" by blast
      with posts(1) l env_time [OF assms(2,3)] False show ?thesis by (simp add: alarm_sum_def fold_post_pend_only)
    qed
  next
    case (delivered g)
    have a: "s_alarm t = s_alarm s" using env_time [OF assms(2,3)] delivered(1) by auto
    from delivered(2) assms(1) show ?thesis
    proof (cases rule: deliver_cases)
      case (called f)
      have "f = F_Alrm \<longleftrightarrow> g = SIGALRM" using called(3) by (cases f) auto
      with called a l show ?thesis by (auto simp: alarm_sum_def deliverable_def)
    qed (use assms(4) in auto)
  next
    case (handler got ls)
    with False show ?thesis by simp
  qed
qed

section \<open>The phases\<close>

text \<open>\<open>inst\<close>: the handler of \<^verbatim>\<open>SIGALRM\<close> is installed; \<open>n\<close>: the alarm was set.\<close>

fun set_phase :: "signal_pc \<Rightarrow> bool \<Rightarrow> nat \<Rightarrow> bool" where
  "set_phase (SP_Alarm A_Header) inst n \<longleftrightarrow> \<not> inst \<and> n = 0"
| "set_phase (SP_Alarm A_Action) inst n \<longleftrightarrow> \<not> inst \<and> n = 0"
| "set_phase (SP_Alarm A_Setting) inst n \<longleftrightarrow> inst \<and> n = 0"
| "set_phase (SP_Alarm A_Alarm) inst n \<longleftrightarrow> inst \<and> n = 0"
| "set_phase (SP_Alarm A_Ret) inst n \<longleftrightarrow> n = (if inst then 1 else 0)"
| "set_phase (SP_Alarm q) inst n \<longleftrightarrow> inst \<and> n = 1"
| "set_phase SP_Complete inst n \<longleftrightarrow> n = (if inst then 1 else 0)"
| "set_phase SP_Exit inst n \<longleftrightarrow> n = (if inst then 1 else 0)"
| "set_phase pc inst n \<longleftrightarrow> \<not> inst \<and> n = 0"

text \<open>
  How late it is when the alarm, set for time \<open>d\<close>, has not gone off: every sleep that was not cut short has taken a second.
\<close>

fun time_phase :: "nat \<Rightarrow> signal_pc \<Rightarrow> nat \<Rightarrow> nat \<Rightarrow> nat \<Rightarrow> nat \<Rightarrow> bool" where
  "time_phase hz (SP_Alarm A_Waiting) d clock wake cuts \<longleftrightarrow> d \<le> clock + 3 * hz"
| "time_phase hz (SP_Alarm (A_Test i)) d clock wake cuts \<longleftrightarrow> d + i * hz \<le> clock + 3 * hz + cuts * hz"
| "time_phase hz (SP_Alarm (A_Sleep i)) d clock wake cuts \<longleftrightarrow> d + i * hz \<le> clock + 3 * hz + cuts * hz"
| "time_phase hz (SP_Alarm (A_Sleeping i)) d clock wake cuts \<longleftrightarrow> d + (i + 1) * hz \<le> wake + 3 * hz + cuts * hz \<and> wake \<le> clock + hz"
| "time_phase hz (SP_Alarm (A_Tick i)) d clock wake cuts \<longleftrightarrow> d + (i + 1) * hz \<le> clock + 3 * hz + cuts * hz"
| "time_phase hz pc d clock wake cuts \<longleftrightarrow> True"

lemma time_phase_mono: "time_phase hz pc d c w n \<Longrightarrow> c \<le> c' \<Longrightarrow> time_phase hz pc d c' w n"
  by (cases "(hz, pc, d, c, w, n)" rule: time_phase.cases) auto

text \<open>The points after the fifth sleep.\<close>

fun late :: "signal_pc \<Rightarrow> bool" where
  "late (SP_Alarm (A_Tick i)) \<longleftrightarrow> i = 4"
| "late (SP_Alarm (A_Test i)) \<longleftrightarrow> i = 5"
| "late (SP_Alarm A_Ret) \<longleftrightarrow> True"
| "late SP_Complete \<longleftrightarrow> True"
| "late SP_Exit \<longleftrightarrow> True"
| "late pc \<longleftrightarrow> False"

fun tick_line :: "nat \<times> signal_line \<Rightarrow> bool" where
  "tick_line (w, SL_Tick i) \<longleftrightarrow> w = 0"
| "tick_line (w, l) \<longleftrightarrow> False"

definition tick_lines :: "nat \<Rightarrow> (nat \<times> signal_line) list" where
  "tick_lines n = map (\<lambda>i. (0, SL_Tick (i + 1))) [0..<n]"

fun tick_phase :: "signal_pc \<Rightarrow> bool \<Rightarrow> (nat \<times> signal_line) list \<Rightarrow> bool" where
  "tick_phase (SP_Alarm (A_Test i)) inst ls \<longleftrightarrow> i \<le> 5 \<and> ls = tick_lines i"
| "tick_phase (SP_Alarm (A_Sleep i)) inst ls \<longleftrightarrow> i < 5 \<and> ls = tick_lines i"
| "tick_phase (SP_Alarm (A_Sleeping i)) inst ls \<longleftrightarrow> i < 5 \<and> ls = tick_lines i"
| "tick_phase (SP_Alarm (A_Tick i)) inst ls \<longleftrightarrow> i < 5 \<and> ls = tick_lines i"
| "tick_phase (SP_Alarm A_Ret) inst ls \<longleftrightarrow> ls = (if inst then tick_lines 5 else [])"
| "tick_phase SP_Complete inst ls \<longleftrightarrow> ls = (if inst then tick_lines 5 else [])"
| "tick_phase SP_Exit inst ls \<longleftrightarrow> ls = (if inst then tick_lines 5 else [])"
| "tick_phase pc inst ls \<longleftrightarrow> ls = []"

definition alarm_installed :: "signal_state \<Rightarrow> bool" where
  "alarm_installed s \<longleftrightarrow> p_disp (s_proc s) SIGALRM \<noteq> SIG_DFL"

definition unmasked_alarm :: "signal_state \<Rightarrow> bool" where
  "unmasked_alarm s \<longleftrightarrow> \<not> p_mask (s_proc s) SIGALRM \<and> \<not> s_old s SIGALRM"

definition on_time :: "senv \<Rightarrow> signal_state \<Rightarrow> bool" where
  "on_time e s \<longleftrightarrow> (\<forall>d. s_alarm s = Some d \<longrightarrow> s_clock s \<le> d \<and> time_phase (e_hz e) (s_pc s) d (s_clock s) (p_wake (s_proc s)) (s_cuts s))"

definition alarm_over :: "signal_state \<Rightarrow> bool" where
  "alarm_over s \<longleftrightarrow> s_alarm s = None \<and> \<not> p_pend (s_proc s) SIGALRM \<and> F_Alrm \<notin> set (p_stack (s_proc s))"

definition alarm_inv :: "senv \<Rightarrow> signal_state \<Rightarrow> bool" where
  "alarm_inv e s \<longleftrightarrow> procs_ok s \<and> unmasked_alarm s \<and> on_time e s \<and>
     tick_phase (s_pc s) (alarm_installed s) (filter tick_line (s_log s)) \<and>
     (p_status (s_proc s) = Running \<longrightarrow> set_phase (s_pc s) (alarm_installed s) (alarm_sum s) \<and>
        (late (s_pc s) \<and> s_cuts s < 2 \<and> alarm_installed s \<longrightarrow> alarm_over s))"

lemma foreign_tick: "foreign l \<Longrightarrow> \<not> tick_line l"
  by (cases l rule: tick_line.cases) auto

lemma set_phase_le: "set_phase pc inst n \<Longrightarrow> n \<le> 1"
  by (cases "(pc, inst, n)" rule: set_phase.cases) (auto split: if_splits)

lemma alarm_over_env:
  assumes "proc_ok (s_proc s)" and "signal_act e a s = Some t" and "\<not> is_main a" and "alarm_over s" and "\<not> e_outside e SIGALRM"
  shows "alarm_over t"
proof -
  have al: "s_alarm t = None" using env_time [OF assms(2,3)] assms(4) by (auto simp: alarm_over_def)
  from assms(2,3) show ?thesis
  proof (cases rule: env_process)
    case (posts gs)
    have "a \<noteq> SA_Alarm" using assms(2,4) by (auto simp: alarm_over_def alarm_goes_off_def)
    with posts not_sent [OF assms(2,5)] have "SIGALRM \<notin> set gs" by blast
    with posts(1) al assms(4) show ?thesis by (simp add: alarm_over_def fold_post_pend_only)
  next
    case (delivered g)
    from delivered(2) assms(1) show ?thesis
    proof (cases rule: deliver_cases)
      case (called f)
      with assms(4) have "g \<noteq> SIGALRM" by (auto simp: alarm_over_def deliverable_def)
      with called have "f \<noteq> F_Alrm" by auto
      with called al assms(4) show ?thesis by (auto simp: alarm_over_def)
    qed (use al assms(4) in \<open>auto simp: alarm_over_def\<close>)
  next
    case (handler got ls)
    have "frame_sig f = SIGALRM \<longleftrightarrow> f = F_Alrm" for f by (cases f) auto
    then have "F_Alrm \<notin> set (p_stack (s_proc t))"
      using handler_sigs(1) [OF handler(2)] assms(4) unfolding alarm_over_def by (metis (no_types, lifting) imageE image_eqI list.set_map subsetD)
    with al assms(4) handler_kept(3) [OF handler(2)] show ?thesis by (simp add: alarm_over_def)
  qed
qed

lemma alarm_env:
  assumes "alarm_inv e s" and "signal_act e a s = Some t" and "\<not> is_main a" and "\<not> e_outside e SIGALRM"
  shows "alarm_inv e t"
proof -
  from assms(1) have p: "procs_ok s" "proc_ok (s_proc s)" by (simp_all add: alarm_inv_def procs_ok_def)
  have pt: "procs_ok t" using procs_ok_act [OF p(1) assms(2)] .
  note v = env_view [OF assms(2,3) p(1) foreign_tick] and k = env_kept [OF assms(2,3)] and m = env_disp_mask [OF assms(2,3) p(2)]
    and w = env_wake [OF assms(2,3) p(2)] and tm = env_time [OF assms(2,3)]
  have inst: "alarm_installed t = alarm_installed s" using v(2) by (simp add: alarm_installed_def)
  have un: "unmasked_alarm t" using assms(1) m k by (simp add: alarm_inv_def unmasked_alarm_def)
  have ot: "on_time e t"
    unfolding on_time_def
  proof (intro allI impI)
    fix d
    assume d: "s_alarm t = Some d"
    with tm have "s_alarm s = Some d" by auto
    with assms(1) have "s_clock s \<le> d" "time_phase (e_hz e) (s_pc s) d (s_clock s) (p_wake (s_proc s)) (s_cuts s)"
      by (simp_all add: alarm_inv_def on_time_def)
    with tm d v(1) w k time_phase_mono show "s_clock t \<le> d \<and> time_phase (e_hz e) (s_pc t) d (s_clock t) (p_wake (s_proc t)) (s_cuts t)" by metis
  qed
  have "set_phase (s_pc t) (alarm_installed t) (alarm_sum t) \<and> (late (s_pc t) \<and> s_cuts t < 2 \<and> alarm_installed t \<longrightarrow> alarm_over t)"
    if r: "p_status (s_proc t) = Running"
  proof -
    have "p_status (s_proc s) = Running" using running_before [OF assms(2) r] .
    with assms(1) have s: "set_phase (s_pc s) (alarm_installed s) (alarm_sum s)"
      "late (s_pc s) \<and> s_cuts s < 2 \<and> alarm_installed s \<longrightarrow> alarm_over s" by (simp_all add: alarm_inv_def)
    with alarm_sum_env [OF p(2) assms(2,3) r _ assms(4)] set_phase_le alarm_over_env [OF p(2) assms(2,3) _ assms(4)] v(1) k inst show ?thesis by simp
  qed
  with assms(1) pt un ot v inst show ?thesis by (simp add: alarm_inv_def)
qed

section \<open>The main program\<close>

lemma main_time:
  assumes "main_at e ok pc s = Some t"
  shows "s_clock t = s_clock s \<and> (unmasked_alarm s \<longrightarrow> unmasked_alarm t) \<and> (pc \<noteq> SP_Alarm A_Alarm \<longrightarrow> s_alarm t = s_alarm s)"
  using assms by (cases pc rule: signal_pc_cases; clarsimp simp: demo_defs unmasked_alarm_def split: if_splits option.splits)

lemma alarm_count_main: "(\<forall>h. l \<noteq> SL_Handler h) \<Longrightarrow> alarm_count (log @ [(0, l)]) = alarm_count log"
  by (simp add: alarm_count_def)

lemma alarm_sum_main:
  assumes "main_at e ok pc s = Some t" and "pc \<noteq> SP_Alarm A_Alarm"
  shows "alarm_sum t = alarm_sum s"
proof -
  have "alarm_count (s_log t) = alarm_count (s_log s)" using main_log [OF assms(1)] alarm_count_main by auto
  with main_time [OF assms(1)] main_process [OF assms(1)] assms(2) show ?thesis by (simp add: alarm_sum_def)
qed

text \<open>Before the alarm demo.\<close>

fun before_alarm :: "signal_pc \<Rightarrow> bool" where
  "before_alarm (SP_Alarm q) \<longleftrightarrow> q = A_Header"
| "before_alarm SP_Complete \<longleftrightarrow> False"
| "before_alarm SP_Exit \<longleftrightarrow> False"
| "before_alarm pc \<longleftrightarrow> True"

lemma before_alarm_phases:
  "before_alarm pc \<Longrightarrow> set_phase pc inst n = (\<not> inst \<and> n = 0)" "before_alarm pc \<Longrightarrow> tick_phase pc inst ls = (ls = [])"
  "before_alarm pc \<Longrightarrow> \<not> late pc"
  by (cases pc rule: before_alarm.cases; simp)+

lemma main_before:
  assumes "main_at e ok (s_pc s) s = Some t" and "before_alarm (s_pc s)" and "s_pc s \<noteq> SP_Alarm A_Header"
  shows "before_alarm (s_pc t)" and "alarm_installed t = alarm_installed s" and "filter tick_line (s_log t) = filter tick_line (s_log s)"
proof -
  have "before_alarm (s_pc t) \<and> alarm_installed t = alarm_installed s \<and> filter tick_line (s_log t) = filter tick_line (s_log s)"
    using assms by (cases "s_pc s" rule: signal_pc_cases; clarsimp simp: demo_defs alarm_installed_def split: if_splits option.splits)
  then show "before_alarm (s_pc t)" "alarm_installed t = alarm_installed s" "filter tick_line (s_log t) = filter tick_line (s_log s)"
    by simp_all
qed

text \<open>The alarm demo, each part of the invariant by itself.\<close>

definition in_alarm :: "signal_pc \<Rightarrow> bool" where
  "in_alarm pc \<longleftrightarrow> (\<exists>q. pc = SP_Alarm q) \<or> pc = SP_Complete \<or> pc = SP_Exit"

lemma tick_lines_Suc: "tick_lines (Suc n) = tick_lines n @ [(0, SL_Tick (Suc n))]"
  by (simp add: tick_lines_def)

lemma alarm_ticks:
  assumes "main_at e ok (s_pc s) s = Some t" and "in_alarm (s_pc s)"
    and "tick_phase (s_pc s) (alarm_installed s) (filter tick_line (s_log s))" and "set_phase (s_pc s) (alarm_installed s) n"
  shows "tick_phase (s_pc t) (alarm_installed t) (filter tick_line (s_log t))"
proof (cases "s_pc s")
  case (SP_Alarm q)
  with assms show ?thesis
    by (cases q) (auto simp: demo_defs alarm_installed_def tick_lines_Suc tick_lines_def [of 0] le_less split: if_splits)
qed (use assms in \<open>auto simp: in_alarm_def alarm_installed_def\<close>)

lemma alarm_sets:
  assumes "main_at e ok (s_pc s) s = Some t" and "in_alarm (s_pc s)" and "set_phase (s_pc s) (alarm_installed s) (alarm_sum s)"
  shows "set_phase (s_pc t) (alarm_installed t) (alarm_sum t)"
proof (cases "s_pc s")
  case (SP_Alarm q)
  show ?thesis
  proof (cases "q = A_Alarm")
    case True
    with SP_Alarm assms show ?thesis
      by (auto simp: demo_defs alarm_installed_def alarm_sum_def split: if_splits)
  next
    case False
    with SP_Alarm have "alarm_sum t = alarm_sum s" using alarm_sum_main [OF assms(1)] by simp
    with False SP_Alarm assms show ?thesis
      by (cases q) (auto simp: demo_defs alarm_installed_def simp del: One_nat_def split: if_splits)
  qed
next
  case SP_Complete
  with assms alarm_sum_main [OF assms(1)] show ?thesis by (auto simp: alarm_installed_def split: if_splits)
next
  case SP_Exit
  with assms alarm_sum_main [OF assms(1)] show ?thesis by (auto simp: alarm_installed_def split: if_splits)
qed (use assms(2) in \<open>auto simp: in_alarm_def\<close>)

lemma alarm_time:
  assumes "main_at e ok (s_pc s) s = Some t" and "in_alarm (s_pc s)" and "set_phase (s_pc s) (alarm_installed s) (alarm_sum s)"
    and "on_time e s"
  shows "on_time e t"
proof (cases "s_pc s")
  case (SP_Alarm q)
  have none: "s_alarm s = None" if "alarm_sum s = 0" using that by (simp add: alarm_sum_def split: if_splits)
  show ?thesis
  proof (cases q)
    case (A_Sleeping i)
    with SP_Alarm assms(1) have t: "t = (count_cut s)\<lparr>s_pc := SP_Alarm (A_Tick i)\<rparr>" by (auto simp: at_pc_def split: if_splits)
    have "d + (i + 1) * e_hz e \<le> s_clock t + 3 * e_hz e + s_cuts t * e_hz e \<and> s_clock t \<le> d" if "s_alarm t = Some d" for d
    proof -
      from that t have "s_alarm s = Some d" by (simp add: count_cut_def split: if_splits)
      with assms(4) SP_Alarm A_Sleeping have "d + (i + 1) * e_hz e \<le> p_wake (s_proc s) + 3 * e_hz e + s_cuts s * e_hz e"
        "p_wake (s_proc s) \<le> s_clock s + e_hz e" "s_clock s \<le> d" by (simp_all add: on_time_def)
      with t show ?thesis by (simp add: count_cut_def)
    qed
    with t show ?thesis by (simp add: on_time_def)
  qed (use SP_Alarm assms none in \<open>auto simp: on_time_def demo_defs split: if_splits\<close>)
qed (use assms in \<open>auto simp: in_alarm_def on_time_def\<close>)

lemma alarm_late:
  assumes "main_at e ok (s_pc s) s = Some t" and "in_alarm (s_pc s)" and "main_turn (s_proc s)" and "unmasked_alarm s" and "on_time e t"
    and "late (s_pc s) \<and> s_cuts s < 2 \<and> alarm_installed s \<longrightarrow> alarm_over s" and "0 < e_hz e"
    and "late (s_pc t) \<and> s_cuts t < 2 \<and> alarm_installed t" and "tick_phase (s_pc s) (alarm_installed s) ls"
    and "set_phase (s_pc s) (alarm_installed s) n"
  shows "alarm_over t"
proof (cases "\<exists>i. s_pc s = SP_Alarm (A_Sleeping i)")
  case True
  then obtain i where i: "s_pc s = SP_Alarm (A_Sleeping i)" by blast
  with assms(1) have t: "t = (count_cut s)\<lparr>s_pc := SP_Alarm (A_Tick i)\<rparr>" and st: "settled (s_proc s)"
    by (auto simp: at_pc_def sleep_over_def split: if_splits)
  have p: "s_proc t = s_proc s" by (simp add: t count_cut_def)
  have i4: "i = 4" using assms(8) t by simp
  have "s_alarm t = None"
  proof (rule ccontr)
    assume "s_alarm t \<noteq> None"
    then obtain d where "s_alarm t = Some d" by blast
    with assms(5) t i4 have *: "d + 5 * e_hz e \<le> s_clock t + 3 * e_hz e + s_cuts t * e_hz e" "s_clock t \<le> d" by (simp_all add: on_time_def)
    have "s_cuts t * e_hz e \<le> 1 * e_hz e" using assms(8) by (intro mult_right_mono) auto
    with * assms(7) show False by simp
  qed
  moreover have "\<not> p_pend (s_proc s) SIGALRM" using st assms(3,4)
    by (simp add: settled_def deliverable_def main_turn_def unmasked_alarm_def)
  ultimately show ?thesis using p assms(3) by (simp add: alarm_over_def main_turn_def)
next
  case False
  have "late (s_pc s) \<and> s_cuts s < 2 \<and> alarm_installed s \<and> s_alarm t = s_alarm s"
  proof (cases "s_pc s")
    case (SP_Alarm q)
    with False assms(1,8,9,10) show ?thesis
      by (cases q) (auto simp: demo_defs alarm_installed_def split: if_splits)
  qed (use assms(1,2,8) in \<open>auto simp: in_alarm_def alarm_installed_def\<close>)
  with assms(6) main_process [OF assms(1)] show ?thesis by (simp add: alarm_over_def)
qed

lemma alarm_main:
  assumes "alarm_inv e s" and "signal_main e ok s = Some t" and "0 < e_hz e"
  shows "alarm_inv e t"
proof -
  from assms(2) have m: "main_turn (s_proc s)" and t: "main_at e ok (s_pc s) s = Some t"
    by (simp_all add: signal_main_def split: if_splits)
  then have r: "p_status (s_proc s) = Running" by (simp add: main_turn_def)
  from assms(1) r have I: "procs_ok s" "unmasked_alarm s" "on_time e s" "tick_phase (s_pc s) (alarm_installed s) (filter tick_line (s_log s))"
    "set_phase (s_pc s) (alarm_installed s) (alarm_sum s)" "late (s_pc s) \<and> s_cuts s < 2 \<and> alarm_installed s \<longrightarrow> alarm_over s"
    by (simp_all add: alarm_inv_def)
  have pt: "procs_ok t" "unmasked_alarm t" using procs_ok_main [OF I(1) assms(2)] main_time [OF t] I(2) by simp_all
  show ?thesis
  proof (cases "in_alarm (s_pc s)")
    case True
    note ot = alarm_time [OF t True I(5,3)]
    show ?thesis
      using pt ot alarm_ticks [OF t True I(4,5)] alarm_sets [OF t True I(5)] alarm_late [OF t True m I(2) ot I(6) assms(3) _ I(4,5)]
      by (simp add: alarm_inv_def)
  next
    case False
    then have b: "before_alarm (s_pc s)" "s_pc s \<noteq> SP_Alarm A_Header" by (cases "s_pc s"; auto simp: in_alarm_def)+
    note n = main_before [OF t b]
    have z: "\<not> alarm_installed s" "alarm_sum s = 0" using I(5) before_alarm_phases(1) [OF b(1)] by simp_all
    have "s_pc s \<noteq> SP_Alarm A_Alarm" using b(1) by auto
    with z alarm_sum_main [OF t] have s0: "alarm_sum t = 0" by simp
    then have "s_alarm t = None" by (simp add: alarm_sum_def split: if_splits)
    with pt n z s0 I(4) before_alarm_phases [OF n(1)] before_alarm_phases(2) [OF b(1)] show ?thesis
      by (simp add: alarm_inv_def on_time_def)
  qed
qed

interpretation alarm_sys: invariant_system "signal_step e" signal_start "\<lambda>s. 0 < e_hz e \<and> \<not> e_outside e SIGALRM \<longrightarrow> alarm_inv e s" for e
proof
  show "0 < e_hz e \<and> \<not> e_outside e SIGALRM \<longrightarrow> alarm_inv e signal_start"
    using procs_sys.init_inv
    by (simp add: alarm_inv_def) (simp add: signal_start_def proc_start_def unmasked_alarm_def on_time_def alarm_installed_def alarm_sum_def alarm_count_def)
next
  fix s t
  assume I: "0 < e_hz e \<and> \<not> e_outside e SIGALRM \<longrightarrow> alarm_inv e s" and "signal_step e s t"
  then obtain a where a: "signal_act e a s = Some t" by (auto elim: step_ofE)
  show "0 < e_hz e \<and> \<not> e_outside e SIGALRM \<longrightarrow> alarm_inv e t"
  proof (cases "is_main a")
    case True
    then obtain ok where "a = SA_Main ok" by (cases a) auto
    with I a alarm_main show ?thesis by auto
  qed (use I a alarm_env in blast)
qed

section \<open>The result\<close>

text \<open>
  C22. When \<^verbatim>\<open>demonstrate_alarm\<close> has returned, with its handler installed, it has printed its five ticks, the handler has written at
  most one line, and it has written it unless two or more of the five sleeps were cut short by signals: four sleeps of a
  second are longer than the three seconds of the alarm. No other process sends \<^verbatim>\<open>SIGALRM\<close> (it may send the other signals).
\<close>

theorem alarm_result:
  assumes "(signal_step e)\<^sup>*\<^sup>* signal_start s" and "0 < e_hz e" and "\<not> e_outside e SIGALRM" and "s_pc s = SP_Complete" and "p_status (s_proc s) = Running"
    and "p_disp (s_proc s) SIGALRM = Sigalrm_handler"
  shows "filter tick_line (s_log s) = [(0, SL_Tick 1), (0, SL_Tick 2), (0, SL_Tick 3), (0, SL_Tick 4), (0, SL_Tick 5)]
    \<and> alarm_count (s_log s) \<le> 1 \<and> (s_cuts s < 2 \<longrightarrow> alarm_count (s_log s) = 1)"
proof -
  from alarm_sys.reach_inv [OF assms(1)] assms(2,3) have "alarm_inv e s" by simp
  with assms(4,5,6) have t: "filter tick_line (s_log s) = tick_lines 5" and sm: "alarm_sum s = 1" and o: "s_cuts s < 2 \<longrightarrow> alarm_over s"
    by (simp_all add: alarm_inv_def alarm_installed_def)
  have "alarm_count (s_log s) = 1" if "alarm_over s"
  proof -
    from that have "filter (\<lambda>f. f = F_Alrm) (p_stack (s_proc s)) = []" by (auto simp: alarm_over_def filter_empty_conv)
    with that sm show ?thesis by (simp add: alarm_sum_def alarm_over_def)
  qed
  moreover have "alarm_count (s_log s) \<le> 1" using sm by (simp add: alarm_sum_def)
  ultimately show ?thesis using t o by (simp add: tick_lines_def upt_rec)
qed

definition to_alarm :: "signal_actor list" where
  "to_alarm = to_chld @ child_ends @ replicate 2 (SA_Main True) @
     concat (replicate 4 [SA_Main True, SA_Main True, SA_Main True, SA_Tick, SA_Main True]) @ replicate 3 (SA_Main True)"

definition alarm_sched :: "signal_actor list" where
  "alarm_sched = replicate 5 (SA_Main True)
     @ concat (replicate 2 [SA_Main True, SA_Main True, SA_Tick, SA_Main True, SA_Main True])
     @ [SA_Main True, SA_Main True, SA_Tick, SA_Alarm, SA_Deliver SIGALRM, SA_Handler, SA_Main True, SA_Main True]
     @ concat (replicate 2 [SA_Main True, SA_Main True, SA_Tick, SA_Main True, SA_Main True]) @ replicate 2 (SA_Main True)"

definition alarm_done :: "signal_state \<Rightarrow> bool" where
  "alarm_done s \<longleftrightarrow> s_pc s = SP_Complete \<and> p_status (s_proc s) = Running \<and> p_disp (s_proc s) SIGALRM = Sigalrm_handler \<and> s_cuts s = 0"

lemma alarm_run: "\<exists>s. (signal_step unit_env)\<^sup>*\<^sup>* signal_start s \<and> alarm_done s"
  by (rule run_sched_witness [where as = "to_alarm @ alarm_sched"]) code_simp

theorem alarm_result_witness:
  "\<exists>s. (signal_step unit_env)\<^sup>*\<^sup>* signal_start s \<and> s_pc s = SP_Complete \<and> alarm_count (s_log s) = 1"
proof -
  from alarm_run obtain s where s: "(signal_step unit_env)\<^sup>*\<^sup>* signal_start s" "alarm_done s" by blast
  have "0 < e_hz unit_env" "\<not> e_outside unit_env SIGALRM" by (simp_all add: unit_env_def)
  from alarm_result [OF s(1) this] s show ?thesis by (auto simp: alarm_done_def)
qed

end
